(* ===== verification/Prelude.thy ===== *)
theory Prelude
  imports
    Main
    "HOL-Library.Word"
    "HOL-Library.Multiset"
    "HOL-Library.AList"
    "HOL-Library.Char_ord"
    "HOL-Library.List_Lexorder"
begin

text \<open>
  Shared ground of the development: the names of the model's basic types, the collections of
  lemmas the component proofs draw on, generic facts on association lists (the model of Go maps),
  lists and bytes, and labelled transition systems with their invariant rule.

  Conventions. A Go \<open>string\<close> is a HOL \<open>string\<close> (a list of bytes, as in Go: \<open>len\<close> is
  \<^const>\<open>length\<close>, \<open>+\<close> is append, \<open><\<close> is the bytewise lexicographic order of
  \<open>List_Lexorder\<close>). A Go \<open>[]byte\<close> is a list of \<open>8 word\<close>. A \<open>time.Time\<close> is the
  number of nanoseconds since the Unix epoch as an \<^typ>\<open>int\<close>, a \<open>time.Duration\<close> a number
  of nanoseconds. A Go map that the code iterates over is an association list with distinct keys,
  whose order stands for the (arbitrary) iteration order.
\<close>

section \<open>Collections\<close>

named_theorems inv_intros \<open>introduction rules of the component invariants\<close>
named_theorems frame_simps \<open>fields an operation leaves alone\<close>
named_theorems op_defs \<open>definitions unfolded in the operation lemmas of a component\<close>

section \<open>Basic types\<close>

type_synonym bytes = "8 word list"
type_synonym time = int
type_synonym duration = int
type_synonym ('e, 'a) result = "'e + 'a"

definition second :: duration where
  "second = 1000000000"

definition millisecond :: duration where
  "millisecond = 1000000"

text \<open>The zero \<open>time.Time\<close> is January 1, year 1, UTC: 62135596800 seconds before the epoch.\<close>

definition zero_time :: time where
  "zero_time = - 62135596800 * 1000000000"

definition IsZero :: "time \<Rightarrow> bool" where
  "IsZero t \<longleftrightarrow> t = zero_time"

lemma IsZero_zero_time [simp]: "IsZero zero_time"
  by (simp add: IsZero_def)

lemma not_IsZero_nonneg [simp]: "0 \<le> t \<Longrightarrow> \<not> IsZero t"
  by (simp add: IsZero_def zero_time_def)

section \<open>Go strings\<close>

text \<open>\<open>strings.HasPrefix\<close> and \<open>strings.Cut\<close> with a one-byte separator.\<close>

fun HasPrefix :: "string \<Rightarrow> string \<Rightarrow> bool" where
  "HasPrefix s [] = True"
| "HasPrefix [] (p # ps) = False"
| "HasPrefix (c # s) (p # ps) = (c = p \<and> HasPrefix s ps)"

fun Cut :: "string \<Rightarrow> char \<Rightarrow> string \<times> string \<times> bool" where
  "Cut [] sep = ([], [], False)"
| "Cut (c # s) sep =
     (if c = sep then ([], s, True)
      else (case Cut s sep of (before, after, found) \<Rightarrow>
              if found then (c # before, after, True) else (c # s, [], False)))"

lemma HasPrefix_iff: "HasPrefix s p \<longleftrightarrow> (\<exists>t. s = p @ t)"
  by (induction s p rule: HasPrefix.induct) auto

lemma Cut_found: "Cut s sep = (b, a, True) \<Longrightarrow> s = b @ sep # a \<and> sep \<notin> set b"
  by (induction s sep arbitrary: b rule: Cut.induct) (auto split: if_splits prod.splits)

lemma Cut_not_found: "Cut s sep = (b, a, False) \<Longrightarrow> b = s \<and> a = [] \<and> sep \<notin> set s"
  by (induction s sep arbitrary: b a rule: Cut.induct) (auto split: if_splits prod.splits)

lemma Cut_append: "sep \<notin> set b \<Longrightarrow> Cut (b @ sep # a) sep = (b, a, True)"
  by (induction b) auto

section \<open>Go maps as association lists\<close>

lemma map_of_update [simp]: "map_of (AList.update k v al) = (map_of al)(k \<mapsto> v)"
  by (rule update_conv')

lemma distinct_keys_update [simp]:
  "distinct (map fst al) \<Longrightarrow> distinct (map fst (AList.update k v al))"
  by (rule distinct_update)

lemma find_SomeD: "List.find P xs = Some x \<Longrightarrow> x \<in> set xs \<and> P x"
  by (induction xs) (auto split: if_splits)

lemma zip_map_fst_snd_pairs:
  "map f xs = map f' ys \<Longrightarrow> map g xs = map g' ys \<Longrightarrow>
     map (\<lambda>x. (f x, g x)) xs = map (\<lambda>y. (f' y, g' y)) ys"
proof (induction xs arbitrary: ys)
  case (Cons x xs)
  then show ?case by (cases ys) auto
qed simp

section \<open>Labelled transition systems\<close>

inductive reach :: "('s \<Rightarrow> bool) \<Rightarrow> ('s \<Rightarrow> 'l \<Rightarrow> 's \<Rightarrow> bool) \<Rightarrow> 's \<Rightarrow> bool"
  for Init :: "'s \<Rightarrow> bool" and Step :: "'s \<Rightarrow> 'l \<Rightarrow> 's \<Rightarrow> bool" where
  reach_init: "Init s \<Longrightarrow> reach Init Step s"
| reach_step: "reach Init Step s \<Longrightarrow> Step s l t \<Longrightarrow> reach Init Step t"

locale invariant_system =
  fixes Init :: "'s \<Rightarrow> bool"
    and Step :: "'s \<Rightarrow> 'l \<Rightarrow> 's \<Rightarrow> bool"
    and Inv :: "'s \<Rightarrow> bool"
  assumes inv_init: "Init s \<Longrightarrow> Inv s"
    and inv_step: "Inv s \<Longrightarrow> Step s l t \<Longrightarrow> Inv t"
begin

lemma reach_inv: "reach Init Step s \<Longrightarrow> Inv s"
  by (induction rule: reach.induct) (auto intro: inv_init inv_step)

end

section \<open>Encodings\<close>

text \<open>An encoder and a reader that gives back every value it is meant for; chained, they are one.\<close>

locale codec =
  fixes enc :: "'a \<Rightarrow> 'b"
    and dec :: "'b \<Rightarrow> 'a option"
    and ok :: "'a \<Rightarrow> bool"
  assumes dec_enc: "ok x \<Longrightarrow> dec (enc x) = Some x"
begin

lemma enc_inject: "enc x = enc y \<Longrightarrow> ok x \<Longrightarrow> ok y \<Longrightarrow> x = y"
  by (metis dec_enc option.inject)

end

locale codec_chain = inner: codec enc1 dec1 ok1 + outer: codec enc2 dec2 ok2
  for enc1 :: "'a \<Rightarrow> 'b" and dec1 ok1 and enc2 :: "'b \<Rightarrow> 'c" and dec2 ok2 +
  assumes chain_ok: "ok1 x \<Longrightarrow> ok2 (enc1 x)"

sublocale codec_chain < both: codec "\<lambda>x. enc2 (enc1 x)" "\<lambda>t. Option.bind (dec2 t) dec1" ok1
  by unfold_locales (simp add: inner.dec_enc outer.dec_enc chain_ok)

end
