(* ===== verification/Float64.thy ===== *)
theory Float64
  imports Prelude "HOL-Library.Log_Nat"
begin

text \<open>
  Go's \<open>float64\<close> (IEEE 754 binary64) as the code uses it: a value is a NaN, an infinity or a
  finite rational; every arithmetic operation computes the exact result and rounds it to the
  nearest representable number, ties to even (53 significant bits, smallest exponent -1074,
  overflow to infinity). The sign of zero is not represented: no operation of the program
  observes it. The lemmas give the exactness of small integers and the relative error of one
  rounding, on which the back-off and the SenML time lemmas rest.
\<close>

section \<open>Values and rounding\<close>

datatype f64 = FNaN | FInf bool | Fin rat

text \<open>The binary exponent of a positive rational: \<open>2 powi ilog2 x \<le> x < 2 powi (ilog2 x + 1)\<close>.\<close>

definition ilog2 :: "rat \<Rightarrow> int" where
  "ilog2 x =
     (let (p, q) = quotient_of x; k = bitlen p - bitlen q
      in if 2 powi k \<le> x then k else k - 1)"

text \<open>Round to the nearest integer, ties to even.\<close>

definition rne :: "rat \<Rightarrow> int" where
  "rne x =
     (let f = \<lfloor>x\<rfloor>; d = x - of_int f
      in if d < 1 / 2 then f else if 1 / 2 < d then f + 1 else if even f then f else f + 1)"

definition fexp :: "rat \<Rightarrow> int" where
  "fexp x = max (ilog2 \<bar>x\<bar> - 52) (- 1074)"

definition fround :: "rat \<Rightarrow> rat" where
  "fround x = (if x = 0 then 0 else of_int (rne (x / 2 powi fexp x)) * 2 powi fexp x)"

definition fl :: "rat \<Rightarrow> f64" where
  "fl x = (let r = fround x in if 2 ^ 1024 \<le> \<bar>r\<bar> then FInf (r < 0) else Fin r)"

section \<open>Operations\<close>

definition f64_of_int :: "int \<Rightarrow> f64" where
  "f64_of_int n = fl (of_int n)"

fun f64_add :: "f64 \<Rightarrow> f64 \<Rightarrow> f64" where
  "f64_add (Fin a) (Fin b) = fl (a + b)"
| "f64_add FNaN _ = FNaN"
| "f64_add _ FNaN = FNaN"
| "f64_add (FInf s) (FInf t) = (if s = t then FInf s else FNaN)"
| "f64_add (FInf s) (Fin _) = FInf s"
| "f64_add (Fin _) (FInf s) = FInf s"

fun f64_neg :: "f64 \<Rightarrow> f64" where
  "f64_neg (Fin a) = Fin (- a)"
| "f64_neg (FInf s) = FInf (\<not> s)"
| "f64_neg FNaN = FNaN"

definition f64_sub :: "f64 \<Rightarrow> f64 \<Rightarrow> f64" where
  "f64_sub a b = f64_add a (f64_neg b)"

fun f64_mul :: "f64 \<Rightarrow> f64 \<Rightarrow> f64" where
  "f64_mul (Fin a) (Fin b) = fl (a * b)"
| "f64_mul FNaN _ = FNaN"
| "f64_mul _ FNaN = FNaN"
| "f64_mul (FInf s) (FInf t) = FInf (s \<noteq> t)"
| "f64_mul (FInf s) (Fin b) = (if b = 0 then FNaN else FInf (s \<noteq> (b < 0)))"
| "f64_mul (Fin a) (FInf t) = (if a = 0 then FNaN else FInf ((a < 0) \<noteq> t))"

fun f64_eq :: "f64 \<Rightarrow> f64 \<Rightarrow> bool" where
  "f64_eq (Fin a) (Fin b) = (a = b)"
| "f64_eq (FInf s) (FInf t) = (s = t)"
| "f64_eq _ _ = False"

fun f64_less :: "f64 \<Rightarrow> f64 \<Rightarrow> bool" where
  "f64_less (Fin a) (Fin b) = (a < b)"
| "f64_less (Fin _) (FInf s) = (\<not> s)"
| "f64_less (FInf s) (Fin _) = s"
| "f64_less (FInf s) (FInf t) = (s \<and> \<not> t)"
| "f64_less _ _ = False"

text \<open>
  The conversion \<open>int64(x)\<close> discards the fraction. For a NaN, an infinity or a value that does
  not fit, the Go specification leaves the result to the implementation: \<open>oob\<close>.
\<close>

definition trunc :: "rat \<Rightarrow> int" where
  "trunc x = (if 0 \<le> x then \<lfloor>x\<rfloor> else \<lceil>x\<rceil>)"

fun f64_to_int64 :: "(f64 \<Rightarrow> int) \<Rightarrow> f64 \<Rightarrow> int" where
  "f64_to_int64 oob (Fin x) =
     (let n = trunc x in if - (2 ^ 63) \<le> n \<and> n < 2 ^ 63 then n else oob (Fin x))"
| "f64_to_int64 oob x = oob x"

section \<open>Exponent of a rational\<close>

lemma bitlen_bounds_rat:
  assumes "0 < (n :: int)"
  shows "2 powi (bitlen n - 1) \<le> (of_int n :: rat)" and "(of_int n :: rat) < 2 powi bitlen n"
proof -
  from assms have b: "2 ^ nat (bitlen n - 1) \<le> n \<and> n < 2 ^ nat (bitlen n)"
    by (rule bitlen_bounds)
  from assms have k: "0 \<le> bitlen n - 1" by (simp add: bitlen_def floorlog_def)
  have "(of_int (2 ^ nat (bitlen n - 1)) :: rat) \<le> of_int n"
    using b by (simp only: of_int_le_iff)
  with k show "2 powi (bitlen n - 1) \<le> (of_int n :: rat)"
    by (simp add: power_int_def)
  have "(of_int n :: rat) < of_int (2 ^ nat (bitlen n))"
    using b by (simp only: of_int_less_iff)
  with k show "(of_int n :: rat) < 2 powi bitlen n"
    by (simp add: power_int_def)
qed

lemma ilog2_bounds:
  assumes "0 < x"
  shows "2 powi ilog2 x \<le> x" and "x < 2 powi (ilog2 x + 1)"
proof -
  obtain p q where pq: "quotient_of x = (p, q)" by (cases "quotient_of x")
  have q: "0 < q" using pq by (rule quotient_of_denom_pos)
  have x: "x = of_int p / of_int q" using pq by (rule quotient_of_div)
  have p: "0 < p" using assms q by (simp add: x zero_less_divide_iff)
  define k where "k = bitlen p - bitlen q"
  note bp = bitlen_bounds_rat [OF p] and bq = bitlen_bounds_rat [OF q]
  have lo: "2 powi (k - 1) < x"
  proof -
    have "2 powi (k - 1) * of_int q < 2 powi (k - 1) * (2 powi bitlen q :: rat)"
      using bq(2) by (intro mult_strict_left_mono) (auto simp: power_int_def)
    also have "\<dots> = 2 powi (bitlen p - 1)"
      by (simp add: k_def flip: power_int_add)
    also have "\<dots> \<le> of_int p" by (rule bp(1))
    finally show ?thesis using q by (simp add: x field_simps)
  qed
  have hi: "x < 2 powi (k + 1)"
  proof -
    have "(of_int p :: rat) < 2 powi bitlen p" by (rule bp(2))
    also have "\<dots> = 2 powi (k + 1) * 2 powi (bitlen q - 1)"
      by (simp add: k_def flip: power_int_add)
    also have "\<dots> \<le> 2 powi (k + 1) * of_int q"
      using bq(1) by (intro mult_left_mono) (auto simp: power_int_def)
    finally show ?thesis using q by (simp add: x field_simps)
  qed
  show "2 powi ilog2 x \<le> x" using lo by (simp add: ilog2_def pq k_def Let_def)
  show "x < 2 powi (ilog2 x + 1)" using hi by (simp add: ilog2_def pq k_def Let_def)
qed

lemma ilog2_le:
  assumes "0 < x" and "x < 2 powi (k + 1)"
  shows "ilog2 x \<le> k"
proof -
  have "(2 :: rat) powi ilog2 x < 2 powi (k + 1)"
    using ilog2_bounds(1) [OF assms(1)] assms(2) by simp
  then have "ilog2 x < k + 1"
    by (metis linorder_not_less power_int_increasing one_le_numeral)
  then show ?thesis by simp
qed

section \<open>Rounding to an integer\<close>

lemma rne_of_int [simp]: "rne (of_int n) = n"
  by (simp add: rne_def)

lemma rne_error: "\<bar>of_int (rne x) - x\<bar> \<le> 1 / 2"
proof -
  have "of_int \<lfloor>x\<rfloor> \<le> x" and "x < of_int \<lfloor>x\<rfloor> + 1"
    by (rule of_int_floor_le, metis floor_correct of_int_add of_int_1)
  then show ?thesis by (auto simp: rne_def Let_def abs_le_iff)
qed

section \<open>Exactness and relative error\<close>

lemma powi2_nonzero [simp]: "(2 :: rat) powi k \<noteq> 0"
  by (simp add: power_int_eq_0_iff)

lemma powi2_pos [simp]: "0 < (2 :: rat) powi k"
  by (simp add: zero_less_power_int)

lemma fround_0 [simp]: "fround 0 = 0"
  by (simp add: fround_def)

text \<open>A multiple of the unit in the last place is representable.\<close>

lemma fround_multiple:
  assumes "x = of_int m * 2 powi fexp x"
  shows "fround x = x"
proof (cases "x = 0")
  case False
  have "x / 2 powi fexp x = of_int m" using assms by (simp add: nonzero_divide_eq_eq)
  then have "fround x = of_int m * 2 powi fexp x" using False by (simp add: fround_def)
  with assms show ?thesis by simp
qed simp

lemma fround_of_int:
  assumes "\<bar>n\<bar> \<le> 2 ^ 53"
  shows "fround (of_int n) = of_int n"
proof (cases "\<bar>n\<bar> < 2 ^ 53 \<and> n \<noteq> 0")
  case True
  have "0 < \<bar>of_int n :: rat\<bar>" using True by simp
  moreover have "\<bar>of_int n :: rat\<bar> < 2 powi (52 + 1)"
  proof -
    have "(of_int \<bar>n\<bar> :: rat) < of_int (2 ^ 53)" using True by (simp only: of_int_less_iff)
    then show ?thesis by (simp add: power_int_def)
  qed
  ultimately have "ilog2 \<bar>of_int n :: rat\<bar> \<le> 52" by (rule ilog2_le)
  then have e: "fexp (of_int n) \<le> 0" by (simp add: fexp_def)
  define d where "d = nat (- fexp (of_int n))"
  have d: "fexp (of_int n) = - int d" using e by (simp add: d_def)
  have "(of_int n :: rat) = of_int (n * 2 ^ d) * 2 powi fexp (of_int n)"
    by (simp add: d power_int_minus field_simps)
  then show ?thesis by (rule fround_multiple)
next
  case False
  have big: "fround (2 ^ 53) = 2 ^ 53"
  proof -
    have "ilog2 (2 ^ 53) = 53" by (simp add: ilog2_def rat_number_collapse) code_simp
    then have "fexp (2 ^ 53) = 1" by (simp add: fexp_def)
    then have "(2 ^ 53 :: rat) = of_int (2 ^ 52) * 2 powi fexp (2 ^ 53)" by simp
    then show ?thesis by (rule fround_multiple)
  qed
  have big': "fround (- (2 ^ 53)) = - (2 ^ 53)"
  proof -
    have "ilog2 (2 ^ 53) = 53" by (simp add: ilog2_def rat_number_collapse) code_simp
    then have "fexp (- (2 ^ 53)) = 1" by (simp add: fexp_def)
    then have "(- (2 ^ 53) :: rat) = of_int (- (2 ^ 52)) * 2 powi fexp (- (2 ^ 53))" by simp
    then show ?thesis by (rule fround_multiple)
  qed
  from False assms have "n = 0 \<or> n = 2 ^ 53 \<or> n = - (2 ^ 53)" by linarith
  with big big' show ?thesis by auto
qed

text \<open>One rounding is off by at most half a unit in the last place.\<close>

lemma fround_error: "\<bar>fround x - x\<bar> \<le> 2 powi fexp x / 2"
proof (cases "x = 0")
  case False
  define u :: rat where "u = 2 powi fexp x"
  have u: "0 < u" by (simp add: u_def)
  have "fround x - x = (of_int (rne (x / u)) - x / u) * u"
    using False u by (simp add: fround_def u_def field_simps)
  then have "\<bar>fround x - x\<bar> = \<bar>of_int (rne (x / u)) - x / u\<bar> * u"
    using u by (simp add: abs_mult)
  also have "\<dots> \<le> 1 / 2 * u" using rne_error u by (intro mult_right_mono) auto
  finally show ?thesis by (simp add: u_def)
qed simp

lemma fround_rel_error:
  assumes "2 powi (- 1022) \<le> \<bar>x\<bar>"
  shows "\<bar>fround x - x\<bar> \<le> \<bar>x\<bar> * 2 powi (- 53)"
proof -
  have pos: "0 < \<bar>x\<bar>" using assms powi2_pos [of "- 1022"] by linarith
  have "(2 :: rat) powi (- 1022) < 2 powi (ilog2 \<bar>x\<bar> + 1)"
    using assms ilog2_bounds(2) [OF pos] by (rule le_less_trans)
  then have "- 1022 < ilog2 \<bar>x\<bar> + 1"
    by (metis linorder_not_less power_int_increasing one_le_numeral)
  then have "fexp x = ilog2 \<bar>x\<bar> - 52" by (simp add: fexp_def)
  then have "2 powi fexp x / 2 = 2 powi ilog2 \<bar>x\<bar> * (2 powi (- 53) :: rat)"
    by (simp add: power_int_diff power_int_minus)
  also have "\<dots> \<le> \<bar>x\<bar> * 2 powi (- 53)"
    using ilog2_bounds(1) [OF pos] by (intro mult_right_mono) auto
  finally show ?thesis using fround_error [of x] by linarith
qed

text \<open>Rounding within one binade.\<close>

lemma fround_binade:
  assumes "2 powi e \<le> x" and "x < 2 powi (e + 1)" and "- 1022 \<le> e"
  shows "fround x = of_int (rne (x / 2 powi (e - 52))) * 2 powi (e - 52)"
proof -
  have x: "0 < \<bar>x\<bar>" using assms(1) powi2_pos [of e] by linarith
  have "ilog2 \<bar>x\<bar> \<le> e" by (rule ilog2_le [OF x]) (use assms powi2_pos [of e] in linarith)
  moreover have "e \<le> ilog2 \<bar>x\<bar>"
  proof (rule ccontr)
    assume "\<not> e \<le> ilog2 \<bar>x\<bar>"
    then have "(2 :: rat) powi (ilog2 \<bar>x\<bar> + 1) \<le> 2 powi e" by (intro power_int_increasing) simp_all
    with ilog2_bounds(2) [OF x] assms(1) show False by linarith
  qed
  ultimately have "fexp x = e - 52" using assms(3) by (simp add: fexp_def)
  then show ?thesis using x by (simp add: fround_def)
qed

section \<open>Operations on small integers are exact\<close>

lemma abs_of_int_less_pow:
  assumes "\<bar>n\<bar> \<le> 2 ^ 53"
  shows "\<bar>of_int n :: rat\<bar> < 2 ^ 1024"
proof -
  have "\<bar>n\<bar> < 2 ^ 1024" using assms by simp
  then have "(of_int \<bar>n\<bar> :: rat) < of_int (2 ^ 1024)" by (simp only: of_int_less_iff)
  then show ?thesis by simp
qed

lemma fl_of_int: "\<bar>n\<bar> \<le> 2 ^ 53 \<Longrightarrow> fl (of_int n) = Fin (of_int n)"
  using abs_of_int_less_pow [of n] by (simp add: fl_def fround_of_int Let_def)

lemma f64_of_int_exact: "\<bar>n\<bar> \<le> 2 ^ 53 \<Longrightarrow> f64_of_int n = Fin (of_int n)"
  by (simp add: f64_of_int_def fl_of_int)

lemma f64_add_exact:
  "\<bar>a + b\<bar> \<le> 2 ^ 53 \<Longrightarrow> f64_add (Fin (of_int a)) (Fin (of_int b)) = Fin (of_int (a + b))"
  using fl_of_int [of "a + b"] by simp

lemma f64_sub_exact:
  "\<bar>a - b\<bar> \<le> 2 ^ 53 \<Longrightarrow> f64_sub (Fin (of_int a)) (Fin (of_int b)) = Fin (of_int (a - b))"
  using f64_add_exact [of a "- b"] by (simp add: f64_sub_def)

lemma f64_mul_exact:
  "\<bar>a * b\<bar> \<le> 2 ^ 53 \<Longrightarrow> f64_mul (Fin (of_int a)) (Fin (of_int b)) = Fin (of_int (a * b))"
  using fl_of_int [of "a * b"] by simp

lemma trunc_of_int [simp]: "trunc (of_int n) = n"
  by (simp add: trunc_def)

lemma trunc_nonneg_le: "0 \<le> x \<Longrightarrow> 0 \<le> trunc x \<and> of_int (trunc x) \<le> x"
  by (simp add: trunc_def)

lemma trunc_neg_ge: "x < 0 \<Longrightarrow> trunc x \<le> 0 \<and> x \<le> of_int (trunc x)"
  by (simp add: trunc_def)

lemma f64_to_int64_exact:
  "- (2 ^ 63) \<le> n \<Longrightarrow> n < 2 ^ 63 \<Longrightarrow> f64_to_int64 oob (Fin (of_int n)) = n"
  by (simp add: Let_def)

section \<open>Bits\<close>

text \<open>
  The values a \<open>float64\<close> can have, and their 64 bits: sign, eleven bits of exponent, 52 of mantissa.
\<close>

fun is_f64 :: "f64 \<Rightarrow> bool" where
  "is_f64 (Fin r) \<longleftrightarrow> fround r = r \<and> \<bar>r\<bar> < 2 ^ 1024"
| "is_f64 _ \<longleftrightarrow> True"

fun f64_bits :: "f64 \<Rightarrow> nat" where
  "f64_bits FNaN = 0x7FF8000000000000"
| "f64_bits (FInf s) = (if s then 2 ^ 63 else 0) + 0x7FF * 2 ^ 52"
| "f64_bits (Fin r) =
     (if r < 0 then 2 ^ 63 else 0) +
     (if r = 0 then 0
      else let e = fexp r; m = nat (rne (\<bar>r\<bar> / 2 powi e))
           in if m < 2 ^ 52 then m else nat (e + 1075) * 2 ^ 52 + (m - 2 ^ 52))"

definition f64_of_bits :: "nat \<Rightarrow> f64" where
  "f64_of_bits n =
     (let s = 2 ^ 63 \<le> n mod 2 ^ 64; e = n div 2 ^ 52 mod 2048; m = n mod 2 ^ 52
      in if e = 2047 then (if m = 0 then FInf s else FNaN)
         else let v = (if e = 0 then of_nat m * 2 powi (- 1074)
                       else of_nat (2 ^ 52 + m) * 2 powi (int e - 1075))
              in Fin (if s then - v else v))"

lemma bit_fields:
  fixes E M n :: nat
  assumes "E < 2048" and "M < 2 ^ 52" and n: "n = (if s then 2 ^ 63 else 0) + (E * 2 ^ 52 + M)"
  shows "2 ^ 63 \<le> n mod 2 ^ 64 \<longleftrightarrow> s" and "n div 2 ^ 52 mod 2048 = E" and "n mod 2 ^ 52 = M" and "n < 2 ^ 64"
proof -
  have low: "E * 2 ^ 52 + M < 2 ^ 63"
  proof -
    have "E * 2 ^ 52 \<le> 2047 * 2 ^ 52" using assms(1) by (intro mult_right_mono) simp_all
    then show ?thesis using assms(2) by simp
  qed
  then show "n < 2 ^ 64" using n by (simp split: if_splits)
  then show "2 ^ 63 \<le> n mod 2 ^ 64 \<longleftrightarrow> s" using n low by simp
  obtain q where q: "q = (if s then 2048 else 0) + E" by simp
  then have e: "n = q * 2 ^ 52 + M" using n by simp
  then show "n mod 2 ^ 52 = M" using assms(2) by simp
  have "n div 2 ^ 52 = q" unfolding e using assms(2) by simp
  then show "n div 2 ^ 52 mod 2048 = E" using assms(1) q by simp
qed

text \<open>A finite value is a whole multiple of its unit in the last place, below \<open>2 ^ 53\<close>.\<close>

lemma f64_mantissa:
  assumes "fround r = r" and "\<bar>r\<bar> < 2 ^ 1024" and "r \<noteq> 0"
  obtains m where "\<bar>r\<bar> = of_nat m * 2 powi fexp r" "m < 2 ^ 53" "m < 2 ^ 52 \<Longrightarrow> fexp r = - 1074"
    "- 1074 \<le> fexp r" "fexp r \<le> 971"
proof -
  define k u :: rat where "k = of_int (rne (r / 2 powi fexp r))" and "u = 2 powi fexp r"
  define m where "m = nat \<bar>rne (r / 2 powi fexp r)\<bar>"
  have u: "0 < u" by (simp add: u_def)
  have "r = k * u" using assms(1,3) by (simp add: fround_def k_def u_def)
  then have "\<bar>r\<bar> = \<bar>k\<bar> * u" using u abs_mult [of k u] by simp
  then have r: "\<bar>r\<bar> = of_nat m * u" by (simp add: k_def m_def)
  note lg = ilog2_bounds [of "\<bar>r\<bar>"]
  have "ilog2 \<bar>r\<bar> \<le> 1023" using ilog2_le [of "\<bar>r\<bar>" 1023] assms(2,3) by simp
  then have e: "- 1074 \<le> fexp r" "fexp r \<le> 971" by (simp_all add: fexp_def)
  have "\<bar>r\<bar> < 2 powi (ilog2 \<bar>r\<bar> + 1)" using lg(2) assms(3) by simp
  also have "\<dots> \<le> 2 powi (53 + fexp r)" by (rule power_int_increasing) (simp_all add: fexp_def)
  also have "\<dots> = 2 ^ 53 * u" by (simp add: u_def power_int_add)
  finally have "(of_nat m :: rat) < of_nat (2 ^ 53)" using r u by simp
  then have m: "m < 2 ^ 53" by (simp only: of_nat_less_iff)
  have "fexp r = - 1074" if "m < 2 ^ 52"
  proof (rule ccontr)
    assume "fexp r \<noteq> - 1074"
    then have "fexp r = ilog2 \<bar>r\<bar> - 52" by (simp add: fexp_def split: if_splits)
    then have "2 ^ 52 * u = 2 powi ilog2 \<bar>r\<bar>" by (simp add: u_def power_int_diff)
    also have "\<dots> \<le> of_nat m * u" using lg(1) assms(3) r by simp
    finally have "(of_nat (2 ^ 52) :: rat) \<le> of_nat m" using u by simp
    then show False using that by (simp only: of_nat_le_iff)
  qed
  then show ?thesis using that r m e by (simp add: u_def)
qed

lemma f64_bits_roundtrip:
  assumes "is_f64 x"
  shows "f64_of_bits (f64_bits x) = x" and "f64_bits x < 2 ^ 64"
proof -
  have "f64_of_bits (f64_bits x) = x \<and> f64_bits x < 2 ^ 64"
  proof (cases x)
    case FNaN
    then show ?thesis by (simp add: f64_of_bits_def)
  next
    case (FInf s)
    then show ?thesis using bit_fields [of 2047 0 "f64_bits x" s] by (simp add: f64_of_bits_def Let_def)
  next
    case (Fin r)
    show ?thesis
    proof (cases "r = 0")
      case True
      then show ?thesis using Fin by (simp add: f64_of_bits_def)
    next
      case False
      obtain m where m: "\<bar>r\<bar> = of_nat m * 2 powi fexp r" "m < 2 ^ 53" "m < 2 ^ 52 \<Longrightarrow> fexp r = - 1074"
          "- 1074 \<le> fexp r" "fexp r \<le> 971"
        using f64_mantissa [of r] assms Fin False by auto
      have "\<bar>r\<bar> / 2 powi fexp r = of_int (int m)" unfolding m(1) by simp
      then have "nat (rne (\<bar>r\<bar> / 2 powi fexp r)) = m" by (simp only: rne_of_int nat_int)
      then have b: "f64_bits x = (if r < 0 then 2 ^ 63 else 0) +
          ((if m < 2 ^ 52 then 0 else nat (fexp r + 1075)) * 2 ^ 52 + (if m < 2 ^ 52 then m else m - 2 ^ 52))"
        using False Fin by (simp add: Let_def)
      define E M where "E = (if m < 2 ^ 52 then 0 else nat (fexp r + 1075))"
        and "M = (if m < 2 ^ 52 then m else m - 2 ^ 52)"
      have E: "E < 2048" "M < 2 ^ 52" "E \<noteq> 2047" using m by (auto simp: E_def M_def)
      have v: "(if E = 0 then of_nat M * 2 powi (- 1074) else of_nat (2 ^ 52 + M) * 2 powi (int E - 1075)) = \<bar>r\<bar>"
        using m(2,3,4) unfolding m(1) by (cases "m < 2 ^ 52") (simp_all add: E_def M_def)
      note f = bit_fields [OF E(1,2), of "f64_bits x" "r < 0", unfolded E_def M_def, OF b, folded E_def M_def]
      have "f64_of_bits (f64_bits x) = Fin (if r < 0 then - \<bar>r\<bar> else \<bar>r\<bar>)"
        unfolding f64_of_bits_def Let_def f(1-3) v using E(3) by simp
      then show ?thesis using f(4) Fin by (simp add: abs_if)
    qed
  qed
  then show "f64_of_bits (f64_bits x) = x" "f64_bits x < 2 ^ 64" by auto
qed

lemma is_f64_of_int: "\<bar>n\<bar> \<le> 2 ^ 53 \<Longrightarrow> is_f64 (Fin (of_int n))"
  using abs_of_int_less_pow [of n] by (simp add: fround_of_int)

section \<open>Dynamic values\<close>

text \<open>
  A Go \<open>any\<close> as the program moves it: what \<open>encoding/json\<close> decodes a request body to
  (null, booleans, \<open>float64\<close> numbers, strings, arrays, objects) and what the SenML decoder
  produces (\<open>int64\<close>, \<open>float64\<close>, string, bool); \<open>AInt\<close> is Go's \<open>int\<close>.
\<close>

datatype any =
    ANil
  | ABool bool
  | AInt int
  | AInt64 int
  | AFloat f64
  | AStr string
  | AArr "any list"
  | AObj "(string \<times> any) list"

end
