(* ===== verification/Subscription.thy ===== *)
theory Subscription
  imports Float64
begin

text \<open>
  One SSE subscriber of a cloud variable, from \<open>internal/variables/variables.go\<close>: the event
  record it receives, its unbounded FIFO queue, the coalesced wake-up token, and the pump
  goroutine that moves events from the queue to the subscriber's channel. The pump is a step
  relation: producers, the pump, the reader and \<open>stop\<close> interleave freely. The lemmas show that
  what the reader has received is always a prefix of what was enqueued, that no event is lost or
  reordered while the subscription is open, that a wake-up is never lost, and that the pump can
  always deliver everything to a willing reader.
\<close>

section \<open>Events\<close>

datatype EventKind = EventUpdate | EventLastValue | EventLastValueMissing | EventThingUnavailable

record UpdateEvent =
  ev_Name :: string
  ev_Value :: any
  ev_Timestamp :: time
  ev_LastValue :: bool
  ev_Kind :: EventKind

text \<open>\<open>UpdateEvent{Name: name, Kind: kind}\<close>: the other fields keep their zero values.\<close>

definition bare_event :: "string \<Rightarrow> EventKind \<Rightarrow> UpdateEvent" where
  "bare_event name kind =
     \<lparr>ev_Name = name, ev_Value = ANil, ev_Timestamp = zero_time, ev_LastValue = False,
      ev_Kind = kind\<rparr>"

section \<open>The subscription\<close>

text \<open>
  The pump's control point: at the head of its loop, blocked waiting for a wake-up, holding an
  event it offers on the (unbuffered) events channel, or returned (the channel is closed).
\<close>

datatype pump_pc = PumpLoop | PumpWait | PumpSend UpdateEvent | PumpDone

record Subscription =
  sub_clientID :: string
  sub_queue :: "UpdateEvent list"
  sub_wake :: bool
  sub_closed :: bool
  sub_pending :: bool
  sub_pump :: pump_pc

definition newSubscription :: "string \<Rightarrow> Subscription" where
  "newSubscription clientID =
     \<lparr>sub_clientID = clientID, sub_queue = [], sub_wake = False, sub_closed = False,
      sub_pending = False, sub_pump = PumpLoop\<rparr>"

text \<open>
  \<open>enqueue\<close> in its two parts: the append under the subscription's lock, and the send on \<open>wake\<close>,
  which is non-blocking on a channel of capacity one: it leaves one token.
\<close>

definition enqueue_append :: "Subscription \<Rightarrow> UpdateEvent \<Rightarrow> Subscription" where
  "enqueue_append s evt = s\<lparr>sub_queue := sub_queue s @ [evt]\<rparr>"

definition enqueue_wake :: "Subscription \<Rightarrow> Subscription" where
  "enqueue_wake s = s\<lparr>sub_wake := True\<rparr>"

definition enqueue :: "Subscription \<Rightarrow> UpdateEvent \<Rightarrow> Subscription" where
  "enqueue s evt = enqueue_wake (enqueue_append s evt)"

lemma enqueue_alt: "enqueue s evt = s\<lparr>sub_queue := sub_queue s @ [evt], sub_wake := True\<rparr>"
  by (simp add: enqueue_def enqueue_append_def enqueue_wake_def)

definition stop :: "Subscription \<Rightarrow> Subscription" where
  "stop s = s\<lparr>sub_closed := True\<rparr>"

text \<open>
  The steps of the pump goroutine. \<open>Deliver e\<close> is the rendezvous with the reader on the events
  channel. In the two \<open>select\<close> statements both cases may be ready; either may be taken.
\<close>

datatype pump_label = Tau | Deliver UpdateEvent

inductive pump :: "Subscription \<Rightarrow> pump_label \<Rightarrow> Subscription \<Rightarrow> bool" where
  pump_empty: "sub_pump s = PumpLoop \<Longrightarrow> sub_queue s = [] \<Longrightarrow>
     pump s Tau (s\<lparr>sub_pump := PumpWait\<rparr>)"
| pump_take: "sub_pump s = PumpLoop \<Longrightarrow> sub_queue s = e # q \<Longrightarrow>
     pump s Tau (s\<lparr>sub_queue := q, sub_pump := PumpSend e\<rparr>)"
| pump_woken: "sub_pump s = PumpWait \<Longrightarrow> sub_wake s \<Longrightarrow>
     pump s Tau (s\<lparr>sub_wake := False, sub_pump := PumpLoop\<rparr>)"
| pump_wait_closed: "sub_pump s = PumpWait \<Longrightarrow> sub_closed s \<Longrightarrow>
     pump s Tau (s\<lparr>sub_pump := PumpDone\<rparr>)"
| pump_deliver: "sub_pump s = PumpSend e \<Longrightarrow>
     pump s (Deliver e) (s\<lparr>sub_pump := PumpLoop\<rparr>)"
| pump_send_closed: "sub_pump s = PumpSend e \<Longrightarrow> sub_closed s \<Longrightarrow>
     pump s Tau (s\<lparr>sub_pump := PumpDone\<rparr>)"

inductive_cases pump_TauE: "pump s Tau t"
inductive_cases pump_DeliverE: "pump s (Deliver e) t"

section \<open>The stream of one subscriber\<close>

text \<open>
  The subscription with the history of what was enqueued and of what the reader received.
  \<open>Registry.Unsubscribe\<close> stops a subscription after it left the listener list, so nothing is
  enqueued after \<open>stop\<close>; and the registry lock lets only one producer be between the append and
  the wake-up (\<open>st_waking\<close>).
\<close>

record stream =
  st_sub :: Subscription
  st_waking :: bool
  st_sent :: "UpdateEvent list"
  st_got :: "UpdateEvent list"

datatype stream_label = Append UpdateEvent | Wake | Pump pump_label | Stop

inductive stream_step :: "stream \<Rightarrow> stream_label \<Rightarrow> stream \<Rightarrow> bool" where
  step_append: "\<not> sub_closed (st_sub s) \<Longrightarrow> \<not> st_waking s \<Longrightarrow>
     stream_step s (Append e)
       (s\<lparr>st_sub := enqueue_append (st_sub s) e, st_waking := True, st_sent := st_sent s @ [e]\<rparr>)"
| step_wake: "st_waking s \<Longrightarrow>
     stream_step s Wake (s\<lparr>st_sub := enqueue_wake (st_sub s), st_waking := False\<rparr>)"
| step_tau: "pump (st_sub s) Tau u \<Longrightarrow> stream_step s (Pump Tau) (s\<lparr>st_sub := u\<rparr>)"
| step_deliver: "pump (st_sub s) (Deliver e) u \<Longrightarrow>
     stream_step s (Pump (Deliver e)) (s\<lparr>st_sub := u, st_got := st_got s @ [e]\<rparr>)"
| step_stop: "stream_step s Stop (s\<lparr>st_sub := stop (st_sub s)\<rparr>)"

definition stream_init :: "stream \<Rightarrow> bool" where
  "stream_init s \<longleftrightarrow>
     (\<exists>c. st_sub s = newSubscription c) \<and> \<not> st_waking s \<and> st_sent s = [] \<and> st_got s = []"

definition in_flight :: "Subscription \<Rightarrow> UpdateEvent list" where
  "in_flight s = (case sub_pump s of PumpSend e \<Rightarrow> [e] | _ \<Rightarrow> [])"

definition stream_inv :: "stream \<Rightarrow> bool" where
  "stream_inv s \<longleftrightarrow>
     (if sub_pump (st_sub s) = PumpDone
      then sub_closed (st_sub s) \<and> (\<exists>rest. st_sent s = st_got s @ rest)
      else st_sent s = st_got s @ in_flight (st_sub s) @ sub_queue (st_sub s)) \<and>
     (sub_pump (st_sub s) = PumpWait \<and> sub_queue (st_sub s) \<noteq> [] \<longrightarrow>
        sub_wake (st_sub s) \<or> st_waking s)"

lemma stream_inv_init: "stream_init s \<Longrightarrow> stream_inv s"
  by (auto simp: stream_init_def stream_inv_def newSubscription_def in_flight_def)

lemma stream_inv_step: "stream_step s l t \<Longrightarrow> stream_inv s \<Longrightarrow> stream_inv t"
proof (induction rule: stream_step.induct)
  case (step_append s e)
  then show ?case
    by (auto simp: stream_inv_def enqueue_append_def in_flight_def split: pump_pc.splits if_splits)
next
  case (step_wake s)
  then show ?case
    by (auto simp: stream_inv_def enqueue_wake_def in_flight_def split: pump_pc.splits if_splits)
next
  case (step_tau s u)
  then show ?case
    by (auto simp: stream_inv_def in_flight_def elim!: pump_TauE)
next
  case (step_deliver s e u)
  then show ?case
    by (auto simp: stream_inv_def in_flight_def elim!: pump_DeliverE)
next
  case (step_stop s)
  then show ?case by (auto simp: stream_inv_def stop_def in_flight_def split: pump_pc.splits)
qed

interpretation stream: invariant_system stream_init stream_step stream_inv
  by unfold_locales (auto intro: stream_inv_init stream_inv_step)

section \<open>Delivery\<close>

text \<open>
  A run of the pump alone (its own steps and rendezvous with a reader that is ready), and the
  measure that shows how far it is from having delivered everything.
\<close>

inductive pump_run :: "stream \<Rightarrow> stream \<Rightarrow> bool" where
  run_refl: "pump_run s s"
| run_step: "pump_run s t \<Longrightarrow> stream_step t (Pump l) u \<Longrightarrow> pump_run s u"

lemma pump_run_trans: "pump_run t u \<Longrightarrow> pump_run s t \<Longrightarrow> pump_run s u"
  by (induction rule: pump_run.induct) (auto intro: pump_run.intros)

definition undelivered :: "stream \<Rightarrow> UpdateEvent list" where
  "undelivered s = in_flight (st_sub s) @ sub_queue (st_sub s)"

definition open_stream :: "stream \<Rightarrow> bool" where
  "open_stream s \<longleftrightarrow> \<not> sub_closed (st_sub s) \<and> \<not> st_waking s \<and> stream_inv s"

lemma open_stream_not_done: "open_stream s \<Longrightarrow> sub_pump (st_sub s) \<noteq> PumpDone"
  by (auto simp: open_stream_def stream_inv_def)

lemma pump_closed: "pump s l t \<Longrightarrow> sub_closed t = sub_closed s"
  by (induction rule: pump.induct) auto

lemma pump_keeps_open: "stream_step s (Pump l) t \<Longrightarrow> open_stream s \<Longrightarrow> open_stream t"
  using stream_inv_step [of s "Pump l" t]
  by (auto simp: open_stream_def dest: pump_closed elim!: stream_step.cases)

lemma pump_run_open: "pump_run s t \<Longrightarrow> open_stream s \<Longrightarrow> open_stream t"
  by (induction rule: pump_run.induct) (auto intro: pump_keeps_open)

lemma pump_run_sent: "pump_run s t \<Longrightarrow> st_sent t = st_sent s"
  by (induction rule: pump_run.induct) (auto elim: stream_step.cases)

text \<open>From an open stream with something to deliver, at most three pump steps deliver one event.\<close>

lemma pump_from_loop:
  assumes "open_stream s" and "sub_pump (st_sub s) = PumpLoop" and "sub_queue (st_sub s) = e # q"
  shows "\<exists>t. pump_run s t \<and> sub_queue (st_sub t) = q \<and> sub_pump (st_sub t) = PumpLoop"
proof -
  let ?s1 = "s\<lparr>st_sub := st_sub s\<lparr>sub_queue := q, sub_pump := PumpSend e\<rparr>\<rparr>"
  let ?s2 = "?s1\<lparr>st_sub := st_sub ?s1\<lparr>sub_pump := PumpLoop\<rparr>, st_got := st_got ?s1 @ [e]\<rparr>"
  have "stream_step s (Pump Tau) ?s1"
    by (rule step_tau) (rule pump_take, use assms in auto)
  moreover have "stream_step ?s1 (Pump (Deliver e)) ?s2"
    by (rule step_deliver) (rule pump_deliver, simp)
  ultimately have "pump_run s ?s2" by (blast intro: pump_run.intros)
  then show ?thesis by (intro exI [of _ ?s2]) simp
qed

lemma pump_to_loop:
  assumes "open_stream s" and "undelivered s \<noteq> []"
  shows "\<exists>t. pump_run s t \<and> sub_queue (st_sub t) = sub_queue (st_sub s) \<and>
    sub_pump (st_sub t) = PumpLoop"
proof (cases "sub_pump (st_sub s)")
  case PumpLoop
  then show ?thesis by (blast intro: run_refl)
next
  case PumpWait
  with assms have "sub_wake (st_sub s)"
    by (auto simp: open_stream_def stream_inv_def undelivered_def in_flight_def)
  with PumpWait have "stream_step s (Pump Tau)
      (s\<lparr>st_sub := st_sub s\<lparr>sub_wake := False, sub_pump := PumpLoop\<rparr>\<rparr>)"
    by (blast intro: step_tau pump_woken)
  then show ?thesis by (force intro: pump_run.intros)
next
  case (PumpSend e)
  then have "stream_step s (Pump (Deliver e))
      (s\<lparr>st_sub := st_sub s\<lparr>sub_pump := PumpLoop\<rparr>, st_got := st_got s @ [e]\<rparr>)"
    by (blast intro: step_deliver pump_deliver)
  then show ?thesis by (force intro: pump_run.intros)
next
  case PumpDone
  with assms open_stream_not_done show ?thesis by blast
qed

lemma pump_drains_queue:
  "open_stream s \<Longrightarrow> sub_pump (st_sub s) = PumpLoop \<Longrightarrow>
     \<exists>t. pump_run s t \<and> undelivered t = []"
proof (induction "sub_queue (st_sub s)" arbitrary: s)
  case Nil
  then have "undelivered s = []" by (simp add: undelivered_def in_flight_def)
  then show ?case by (blast intro: run_refl)
next
  case (Cons e q)
  obtain t where t: "pump_run s t" "sub_queue (st_sub t) = q" "sub_pump (st_sub t) = PumpLoop"
    using pump_from_loop [OF Cons.prems, of e q] Cons.hyps(2) by metis
  then obtain u where "pump_run t u" "undelivered u = []"
    using Cons.hyps(1) [of t] pump_run_open [OF t(1) Cons.prems(1)] by metis
  with t(1) show ?case by (blast intro: pump_run_trans)
qed

lemma pump_drains:
  assumes "open_stream s"
  shows "\<exists>t. pump_run s t \<and> undelivered t = []"
proof (cases "undelivered s = []")
  case True
  then show ?thesis by (blast intro: run_refl)
next
  case False
  obtain t where t: "pump_run s t" "sub_pump (st_sub t) = PumpLoop"
    using pump_to_loop [OF assms False] by blast
  obtain u where "pump_run t u" "undelivered u = []"
    using pump_drains_queue [OF pump_run_open [OF t(1) assms] t(2)] by blast
  with t(1) show ?thesis by (blast intro: pump_run_trans)
qed

text \<open>Everything delivered means that the reader has exactly what was enqueued.\<close>

lemma delivered_all: "open_stream s \<Longrightarrow> undelivered s = [] \<Longrightarrow> st_got s = st_sent s"
  by (frule open_stream_not_done) (auto simp: open_stream_def stream_inv_def undelivered_def)

section \<open>Properties of the stream\<close>

text \<open>
  C22. Delivery is FIFO with no loss, duplication or reordering: in every reachable state, under
  every interleaving of producers, pump, reader and \<open>stop\<close>, what the reader has received is a
  prefix of what was enqueued; and while the pump has not returned, the rest is exactly the event
  the pump holds followed by the queue.
\<close>

theorem subscription_fifo:
  assumes "reach stream_init stream_step s"
  shows "\<exists>rest. st_sent s = st_got s @ rest \<and>
    (sub_pump (st_sub s) \<noteq> PumpDone \<longrightarrow> rest = in_flight (st_sub s) @ sub_queue (st_sub s))"
  using stream.reach_inv [OF assms] by (auto simp: stream_inv_def split: if_splits)

text \<open>A short run: one event is enqueued, and the pump takes it from its queue.\<close>

definition demo_event :: UpdateEvent where
  "demo_event = bare_event ''temp'' EventUpdate"

definition demo_stream :: stream where
  "demo_stream = \<lparr>st_sub = enqueue (newSubscription ''app1'') demo_event, st_waking = False,
     st_sent = [demo_event], st_got = []\<rparr>"

lemma demo_stream_reachable: "reach stream_init stream_step demo_stream"
proof -
  let ?s0 = "\<lparr>st_sub = newSubscription ''app1'', st_waking = False, st_sent = [], st_got = []\<rparr>"
  let ?s1 = "?s0\<lparr>st_sub := enqueue_append (st_sub ?s0) demo_event, st_waking := True,
               st_sent := st_sent ?s0 @ [demo_event]\<rparr>"
  have "reach stream_init stream_step ?s0"
    by (rule reach_init) (auto simp: stream_init_def)
  moreover have "stream_step ?s0 (Append demo_event) ?s1"
    by (rule step_append) (simp_all add: newSubscription_def)
  ultimately have 1: "reach stream_init stream_step ?s1" by (rule reach_step)
  have "stream_step ?s1 Wake (?s1\<lparr>st_sub := enqueue_wake (st_sub ?s1), st_waking := False\<rparr>)"
    by (rule step_wake) simp
  with 1 have "reach stream_init stream_step
      (?s1\<lparr>st_sub := enqueue_wake (st_sub ?s1), st_waking := False\<rparr>)"
    by (rule reach_step)
  then show ?thesis by (simp add: demo_stream_def enqueue_def)
qed

theorem subscription_fifo_witness:
  "\<exists>rest. [demo_event] = st_got demo_stream @ rest \<and> rest = [demo_event]"
  using subscription_fifo [OF demo_stream_reachable]
  by (simp add: demo_stream_def enqueue_alt newSubscription_def in_flight_def)

text \<open>
  C19. No lost wake-up: from every reachable state of a subscription that is not stopped (and with
  no producer between its append and its wake-up), the pump alone can reach a state where a
  willing reader has received everything enqueued so far, in order; it is never stuck waiting for
  a token while the queue holds an event.
\<close>

theorem subscription_delivers:
  assumes "reach stream_init stream_step s" and "\<not> sub_closed (st_sub s)" and "\<not> st_waking s"
  shows "\<exists>t. pump_run s t \<and> st_got t = st_sent s"
proof -
  have s: "open_stream s" using assms stream.reach_inv by (simp add: open_stream_def)
  obtain t where t: "pump_run s t" "undelivered t = []" using pump_drains [OF s] by blast
  then show ?thesis
    using delivered_all [OF pump_run_open [OF t(1) s]] pump_run_sent [OF t(1)] by auto
qed

theorem subscription_delivers_witness:
  "\<exists>t. pump_run demo_stream t \<and> st_got t = [demo_event]"
  using subscription_delivers [OF demo_stream_reachable]
  by (simp add: demo_stream_def enqueue_alt newSubscription_def)

end
