(* ===== verification/Variables.thy ===== *)
theory Variables
  imports Subscription
begin

text \<open>
  The Cloud Variable registry of \<open>internal/variables/variables.go\<close>: the variables by name, the
  listener lists by name, and the subscriptions they point to (a store indexed by the address of
  the \<open>*Subscription\<close>). Each operation is the body that runs under the registry lock, with the
  clock reading it makes as an argument. The lemmas give the well-formedness invariant, the exact
  effect of every operation on the board's value and on every subscriber's queue, and a
  refinement of an abstract board with one event log per subscriber.
\<close>

section \<open>State\<close>

record Variable =
  var_Name :: string
  var_Value :: any
  var_Timestamp :: time

record Registry =
  reg_vars :: "(string \<times> Variable) list"
  reg_listeners :: "(string \<times> nat list) list"
  reg_subs :: "nat \<Rightarrow> Subscription option"
  reg_next :: nat

definition NewRegistry :: Registry where
  "NewRegistry =
     \<lparr>reg_vars = [], reg_listeners = [], reg_subs = (\<lambda>_. None), reg_next = 0\<rparr>"

text \<open>\<open>r.listeners[name]\<close>: a missing key reads as the nil slice.\<close>

definition listeners_of :: "Registry \<Rightarrow> string \<Rightarrow> nat list" where
  "listeners_of r name = (case map_of (reg_listeners r) name of None \<Rightarrow> [] | Some l \<Rightarrow> l)"

text \<open>Writing through a \<open>*Subscription\<close>.\<close>

definition upd_sub :: "nat \<Rightarrow> (Subscription \<Rightarrow> Subscription) \<Rightarrow> Registry \<Rightarrow> Registry" where
  "upd_sub i f r = r\<lparr>reg_subs := (reg_subs r)(i := map_option f (reg_subs r i))\<rparr>"

section \<open>Operations\<close>

definition getOrCreate :: "Registry \<Rightarrow> string \<Rightarrow> Variable \<times> Registry" where
  "getOrCreate r name =
     (case map_of (reg_vars r) name of
        Some v \<Rightarrow> (v, r)
      | None \<Rightarrow>
          (let v = \<lparr>var_Name = name, var_Value = ANil, var_Timestamp = zero_time\<rparr>
           in (v, r\<lparr>reg_vars := AList.update name v (reg_vars r)\<rparr>)))"

text \<open>\<open>v := r.getOrCreate(name); v.Value = value; v.Timestamp = ts\<close>.\<close>

definition storeValue :: "Registry \<Rightarrow> string \<Rightarrow> any \<Rightarrow> time \<Rightarrow> Registry" where
  "storeValue r name value ts =
     (case getOrCreate r name of (v, r') \<Rightarrow>
        r'\<lparr>reg_vars :=
             AList.update name (v\<lparr>var_Value := value, var_Timestamp := ts\<rparr>) (reg_vars r')\<rparr>)"

datatype variables_error = VariableNotFound string

definition Get :: "Registry \<Rightarrow> string \<Rightarrow> (variables_error, Variable) result" where
  "Get r name = (case map_of (reg_vars r) name of None \<Rightarrow> Inl (VariableNotFound name) | Some v \<Rightarrow> Inr v)"

definition WithPrefix :: "Registry \<Rightarrow> string \<Rightarrow> Variable list" where
  "WithPrefix r prefix =
     sort_key var_Name
       (map snd (filter (\<lambda>(name, v). HasPrefix name prefix \<and> \<not> IsZero (var_Timestamp v))
                        (reg_vars r)))"

text \<open>The loop over the listeners in \<open>SetValue\<close>, with the origin exclusion.\<close>

fun set_loop :: "string \<Rightarrow> UpdateEvent \<Rightarrow> nat list \<Rightarrow> Registry \<Rightarrow> Registry" where
  "set_loop origin evt [] r = r"
| "set_loop origin evt (i # is) r =
     (case reg_subs r i of
        None \<Rightarrow> set_loop origin evt is r
      | Some sub \<Rightarrow>
          if origin \<noteq> [] \<and> sub_clientID sub = origin then set_loop origin evt is r
          else set_loop origin evt is (upd_sub i (\<lambda>s. enqueue s evt) r))"

definition SetValue :: "time \<Rightarrow> Registry \<Rightarrow> string \<Rightarrow> any \<Rightarrow> time \<Rightarrow> string \<Rightarrow> Registry" where
  "SetValue now r name value ts originClientID =
     (let ts = (if IsZero ts then now else ts);
          evt = \<lparr>ev_Name = name, ev_Value = value, ev_Timestamp = ts, ev_LastValue = False,
                 ev_Kind = EventUpdate\<rparr>;
          r = storeValue r name value ts
      in set_loop originClientID evt (listeners_of r name) r)"

text \<open>First pass of \<open>ApplyLastValues\<close>: store and announce what the payload carries.\<close>

fun announce_subs :: "UpdateEvent \<Rightarrow> nat list \<Rightarrow> Registry \<Rightarrow> Registry" where
  "announce_subs evt [] r = r"
| "announce_subs evt (i # is) r =
     announce_subs evt is (upd_sub i (\<lambda>s. enqueue (s\<lparr>sub_pending := False\<rparr>) evt) r)"

definition lastvalue_event :: "time \<Rightarrow> Variable \<Rightarrow> UpdateEvent" where
  "lastvalue_event now v =
     \<lparr>ev_Name = var_Name v, ev_Value = var_Value v,
      ev_Timestamp = (if IsZero (var_Timestamp v) then now else var_Timestamp v),
      ev_LastValue = True, ev_Kind = EventLastValue\<rparr>"

fun announce_values :: "time \<Rightarrow> Variable list \<Rightarrow> Registry \<Rightarrow> Registry" where
  "announce_values now [] r = r"
| "announce_values now (v # vs) r =
     (let evt = lastvalue_event now v;
          r = storeValue r (var_Name v) (var_Value v) (ev_Timestamp evt);
          r = announce_subs evt (listeners_of r (var_Name v)) r
      in announce_values now vs r)"

text \<open>Second pass: a verdict for every pending subscriber of a variable not announced.\<close>

fun resolve_subs :: "UpdateEvent \<Rightarrow> nat list \<Rightarrow> Registry \<Rightarrow> Registry" where
  "resolve_subs evt [] r = r"
| "resolve_subs evt (i # is) r =
     (case reg_subs r i of
        None \<Rightarrow> resolve_subs evt is r
      | Some sub \<Rightarrow>
          if \<not> sub_pending sub then resolve_subs evt is r
          else resolve_subs evt is (upd_sub i (\<lambda>s. enqueue (s\<lparr>sub_pending := False\<rparr>) evt) r))"

fun resolve_pending :: "string list \<Rightarrow> (string \<times> nat list) list \<Rightarrow> Registry \<Rightarrow> Registry" where
  "resolve_pending announced [] r = r"
| "resolve_pending announced ((name, subs) # ls) r =
     (if name \<in> set announced then resolve_pending announced ls r
      else resolve_pending announced ls
             (resolve_subs (bare_event name EventLastValueMissing) subs r))"

definition ApplyLastValues :: "time \<Rightarrow> Registry \<Rightarrow> Variable list \<Rightarrow> Registry" where
  "ApplyLastValues now r values =
     (let r = announce_values now values r
      in resolve_pending (map var_Name values) (reg_listeners r) r)"

definition Subscribe :: "Registry \<Rightarrow> string \<Rightarrow> string \<Rightarrow> bool \<Rightarrow> UpdateEvent \<times> nat \<times> Registry" where
  "Subscribe r name clientID cloudSteady =
     (case getOrCreate r name of (v, r) \<Rightarrow>
        let i = reg_next r;
            r = r\<lparr>reg_subs := (reg_subs r)(i \<mapsto> newSubscription clientID), reg_next := Suc i\<rparr>;
            r = r\<lparr>reg_listeners := AList.update name (listeners_of r name @ [i]) (reg_listeners r)\<rparr>
        in if \<not> IsZero (var_Timestamp v) then
             (\<lparr>ev_Name = name, ev_Value = var_Value v, ev_Timestamp = var_Timestamp v,
               ev_LastValue = True, ev_Kind = EventLastValue\<rparr>, i, r)
           else if \<not> cloudSteady then
             (bare_event name EventThingUnavailable, i, upd_sub i (\<lambda>s. s\<lparr>sub_pending := True\<rparr>) r)
           else (bare_event name EventLastValueMissing, i, r))"

definition Unsubscribe :: "Registry \<Rightarrow> string \<Rightarrow> nat \<Rightarrow> Registry" where
  "Unsubscribe r name i =
     (let r = (if i \<in> set (listeners_of r name)
               then r\<lparr>reg_listeners :=
                        AList.update name (remove1 i (listeners_of r name)) (reg_listeners r)\<rparr>
               else r)
      in upd_sub i stop r)"

section \<open>Well-formedness\<close>

text \<open>
  Keys are distinct and agree with the names stored under them; every listener is a live
  subscription (not stopped), and a subscription is listed once, under one name.
\<close>

definition wf_registry :: "Registry \<Rightarrow> bool" where
  "wf_registry r \<longleftrightarrow>
     distinct (map fst (reg_vars r)) \<and>
     (\<forall>(n, v) \<in> set (reg_vars r). var_Name v = n) \<and>
     distinct (map fst (reg_listeners r)) \<and>
     (\<forall>n. distinct (listeners_of r n)) \<and>
     (\<forall>n m i. i \<in> set (listeners_of r n) \<longrightarrow> i \<in> set (listeners_of r m) \<longrightarrow> n = m) \<and>
     (\<forall>n i. i \<in> set (listeners_of r n) \<longrightarrow> (\<exists>s. reg_subs r i = Some s \<and> \<not> sub_closed s)) \<and>
     (\<forall>i. reg_subs r i \<noteq> None \<longrightarrow> i < reg_next r)"

section \<open>Frames and per-subscriber effects\<close>

lemma upd_sub_simps [simp]:
  "reg_vars (upd_sub i f r) = reg_vars r"
  "reg_listeners (upd_sub i f r) = reg_listeners r"
  "reg_next (upd_sub i f r) = reg_next r"
  "reg_subs (upd_sub i f r) = (reg_subs r)(i := map_option f (reg_subs r i))"
  by (simp_all add: upd_sub_def)

lemma listeners_of_cong: "reg_listeners r = reg_listeners r' \<Longrightarrow> listeners_of r = listeners_of r'"
  by (simp add: listeners_of_def fun_eq_iff)

lemma listeners_of_upd_sub [simp]: "listeners_of (upd_sub i f r) = listeners_of r"
  by (rule listeners_of_cong) simp

lemma getOrCreate_simps [simp]:
  "reg_listeners (snd (getOrCreate r n)) = reg_listeners r"
  "reg_subs (snd (getOrCreate r n)) = reg_subs r"
  "reg_next (snd (getOrCreate r n)) = reg_next r"
  by (simp_all add: getOrCreate_def Let_def split: option.splits)

lemma storeValue_simps [simp]:
  "reg_listeners (storeValue r n x t) = reg_listeners r"
  "reg_subs (storeValue r n x t) = reg_subs r"
  "reg_next (storeValue r n x t) = reg_next r"
  by (simp_all add: storeValue_def getOrCreate_def Let_def split: option.splits)

lemma listeners_of_storeValue [simp]: "listeners_of (storeValue r n x t) = listeners_of r"
  by (rule listeners_of_cong) simp

lemma set_loop_simps [simp]:
  "reg_vars (set_loop origin evt is r) = reg_vars r"
  "reg_listeners (set_loop origin evt is r) = reg_listeners r"
  "reg_next (set_loop origin evt is r) = reg_next r"
  by (induction "is" arbitrary: r) (auto split: option.splits)

lemma announce_subs_simps [simp]:
  "reg_vars (announce_subs evt is r) = reg_vars r"
  "reg_listeners (announce_subs evt is r) = reg_listeners r"
  "reg_next (announce_subs evt is r) = reg_next r"
  by (induction "is" arbitrary: r) auto

lemma resolve_subs_simps [simp]:
  "reg_vars (resolve_subs evt is r) = reg_vars r"
  "reg_listeners (resolve_subs evt is r) = reg_listeners r"
  "reg_next (resolve_subs evt is r) = reg_next r"
  by (induction "is" arbitrary: r) (auto split: option.splits)

lemma announce_values_simps [simp]:
  "reg_listeners (announce_values now vs r) = reg_listeners r"
  "reg_next (announce_values now vs r) = reg_next r"
  by (induction vs arbitrary: r) (auto simp: Let_def)

lemma resolve_pending_simps [simp]:
  "reg_vars (resolve_pending ann ls r) = reg_vars r"
  "reg_listeners (resolve_pending ann ls r) = reg_listeners r"
  "reg_next (resolve_pending ann ls r) = reg_next r"
  by (induction ann ls r rule: resolve_pending.induct) auto

lemmas listeners_of_frames [simp] =
  listeners_of_cong [OF set_loop_simps(2)] listeners_of_cong [OF announce_subs_simps(2)]
  listeners_of_cong [OF resolve_subs_simps(2)] listeners_of_cong [OF announce_values_simps(1)]
  listeners_of_cong [OF resolve_pending_simps(2)]

text \<open>What one subscriber gets from a write, and from a last-values payload.\<close>

definition set_effect :: "string \<Rightarrow> UpdateEvent \<Rightarrow> Subscription \<Rightarrow> Subscription" where
  "set_effect origin evt s =
     (if origin \<noteq> [] \<and> sub_clientID s = origin then s else enqueue s evt)"

definition announce_effect :: "UpdateEvent \<Rightarrow> Subscription \<Rightarrow> Subscription" where
  "announce_effect evt s = enqueue (s\<lparr>sub_pending := False\<rparr>) evt"

definition resolve_effect :: "UpdateEvent \<Rightarrow> Subscription \<Rightarrow> Subscription" where
  "resolve_effect evt s = (if sub_pending s then announce_effect evt s else s)"

lemma reg_subs_set_loop:
  "distinct is \<Longrightarrow> reg_subs (set_loop origin evt is r) j =
     (if j \<in> set is then map_option (set_effect origin evt) (reg_subs r j) else reg_subs r j)"
  by (induction "is" arbitrary: r) (auto simp: set_effect_def split: option.splits)

lemma reg_subs_announce_subs:
  "distinct is \<Longrightarrow> reg_subs (announce_subs evt is r) j =
     (if j \<in> set is then map_option (announce_effect evt) (reg_subs r j) else reg_subs r j)"
  by (induction "is" arbitrary: r) (auto simp: announce_effect_def [abs_def])

lemma reg_subs_resolve_subs:
  "distinct is \<Longrightarrow> reg_subs (resolve_subs evt is r) j =
     (if j \<in> set is then map_option (resolve_effect evt) (reg_subs r j) else reg_subs r j)"
  by (induction "is" arbitrary: r)
     (auto simp: resolve_effect_def announce_effect_def split: option.splits)

text \<open>The whole first pass, for a subscriber of the variable \<open>n\<close> and for one of none.\<close>

definition announce_all :: "time \<Rightarrow> Variable list \<Rightarrow> Subscription \<Rightarrow> Subscription" where
  "announce_all now vs s = fold (\<lambda>v. announce_effect (lastvalue_event now v)) vs s"

lemma announce_all_Nil [simp]: "announce_all now [] = id"
  by (simp add: announce_all_def fun_eq_iff)

lemma announce_all_Cons [simp]:
  "announce_all now (v # vs) = announce_all now vs \<circ> announce_effect (lastvalue_event now v)"
  by (simp add: announce_all_def fun_eq_iff)

lemma announce_all_fields:
  "sub_queue (announce_all now vs s) = sub_queue s @ map (lastvalue_event now) vs"
  "sub_pending (announce_all now vs s) = (vs = [] \<and> sub_pending s)"
  "sub_clientID (announce_all now vs s) = sub_clientID s"
  "sub_closed (announce_all now vs s) = sub_closed s"
  by (induction vs arbitrary: s)
     (simp_all add: announce_effect_def enqueue_alt)

lemma wf_distinct: "wf_registry r \<Longrightarrow> distinct (listeners_of r n)"
  by (simp add: wf_registry_def)

lemma wf_unique:
  "wf_registry r \<Longrightarrow> i \<in> set (listeners_of r n) \<Longrightarrow> i \<in> set (listeners_of r m) \<Longrightarrow> m = n"
  unfolding wf_registry_def by metis

lemma reg_subs_announce_values:
  assumes "\<And>m. distinct (listeners_of r m)"
    and "\<And>m. i \<in> set (listeners_of r m) \<longleftrightarrow> m = n"
  shows "reg_subs (announce_values now vs r) i =
    map_option (announce_all now (filter (\<lambda>v. var_Name v = n) vs)) (reg_subs r i)"
  using assms
  by (induction vs arbitrary: r)
     (auto simp: Let_def reg_subs_announce_subs option.map_id option.map_comp)

lemma reg_subs_resolve_pending:
  assumes "distinct (map fst ls)" and "\<forall>(m, l) \<in> set ls. distinct l \<and> (i \<in> set l \<longleftrightarrow> m = n)"
  shows "reg_subs (resolve_pending ann ls r) i =
    (if n \<in> fst ` set ls \<and> n \<notin> set ann
     then map_option (resolve_effect (bare_event n EventLastValueMissing)) (reg_subs r i)
     else reg_subs r i)"
  using assms
proof (induction ls arbitrary: r)
  case Nil
  then show ?case by simp
next
  case (Cons p ls)
  obtain name subs where p: "p = (name, subs)" by (cases p)
  have d: "distinct subs" and i: "i \<in> set subs \<longleftrightarrow> name = n" and notin: "name \<notin> fst ` set ls"
    using Cons.prems by (auto simp: p)
  have IH: "reg_subs (resolve_pending ann ls r') i =
      (if n \<in> fst ` set ls \<and> n \<notin> set ann
       then map_option (resolve_effect (bare_event n EventLastValueMissing)) (reg_subs r' i)
       else reg_subs r' i)" for r'
    using Cons by simp
  show ?case
    using notin by (auto simp: p IH reg_subs_resolve_subs [OF d] i)
qed

section \<open>The board's values\<close>

definition wf_vars :: "(string \<times> Variable) list \<Rightarrow> bool" where
  "wf_vars vs \<longleftrightarrow> distinct (map fst vs) \<and> (\<forall>n v. map_of vs n = Some v \<longrightarrow> var_Name v = n)"

lemma wf_vars_of_wf: "wf_registry r \<Longrightarrow> wf_vars (reg_vars r)"
  by (auto simp: wf_registry_def wf_vars_def dest: map_of_SomeD)

lemma wf_varsD: "wf_vars vs \<Longrightarrow> \<forall>(n, v) \<in> set vs. var_Name v = n"
  by (auto simp: wf_vars_def)

lemma wf_vars_update [simp]: "wf_vars vs \<Longrightarrow> var_Name v = n \<Longrightarrow> wf_vars (AList.update n v vs)"
  by (auto simp: wf_vars_def)

definition board_var :: "string \<Rightarrow> any \<Rightarrow> time \<Rightarrow> Variable" where
  "board_var n x t = \<lparr>var_Name = n, var_Value = x, var_Timestamp = t\<rparr>"

lemma Variable_eq_board_var: "var_Name v = n \<Longrightarrow>
    v\<lparr>var_Value := x, var_Timestamp := t\<rparr> = board_var n x t"
  by (cases v) (simp add: board_var_def)

lemma storeValue_vars:
  assumes "wf_vars (reg_vars r)"
  shows "wf_vars (reg_vars (storeValue r n x t)) \<and>
    map_of (reg_vars (storeValue r n x t)) = (map_of (reg_vars r))(n \<mapsto> board_var n x t)"
proof (cases "map_of (reg_vars r) n")
  case None
  with assms show ?thesis
    by (simp add: storeValue_def getOrCreate_def Let_def Variable_eq_board_var board_var_def)
next
  case (Some v)
  then have "var_Name v = n" using assms unfolding wf_vars_def by blast
  with assms Some show ?thesis
    by (simp add: storeValue_def getOrCreate_def Let_def Variable_eq_board_var)
       (simp add: board_var_def)
qed

lemma announce_values_vars:
  "wf_vars (reg_vars r) \<Longrightarrow>
     wf_vars (reg_vars (announce_values now vs r)) \<and>
     map_of (reg_vars (announce_values now vs r)) =
       fold (\<lambda>v m. m(var_Name v \<mapsto> board_var (var_Name v) (var_Value v)
                                      (ev_Timestamp (lastvalue_event now v)))) vs (map_of (reg_vars r))"
proof (induction vs arbitrary: r)
  case (Cons v vs)
  let ?r = "storeValue r (var_Name v) (var_Value v) (ev_Timestamp (lastvalue_event now v))"
  let ?r' = "announce_subs (lastvalue_event now v) (listeners_of ?r (var_Name v)) ?r"
  have "wf_vars (reg_vars ?r')" using storeValue_vars [OF Cons.prems] by simp
  from Cons.IH [OF this] show ?case
    using storeValue_vars [OF Cons.prems] by (simp add: Let_def)
qed simp

section \<open>Every operation keeps the invariant\<close>

definition wf_subs :: "(string \<Rightarrow> nat list) \<Rightarrow> (nat \<Rightarrow> Subscription option) \<Rightarrow> nat \<Rightarrow> bool" where
  "wf_subs L S n \<longleftrightarrow>
     (\<forall>n. distinct (L n)) \<and>
     (\<forall>n m i. i \<in> set (L n) \<longrightarrow> i \<in> set (L m) \<longrightarrow> n = m) \<and>
     (\<forall>n i. i \<in> set (L n) \<longrightarrow> (\<exists>s. S i = Some s \<and> \<not> sub_closed s)) \<and>
     (\<forall>i. S i \<noteq> None \<longrightarrow> i < n)"

lemma wf_registry_alt:
  "wf_registry r \<longleftrightarrow> wf_vars (reg_vars r) \<and> distinct (map fst (reg_listeners r)) \<and>
     wf_subs (listeners_of r) (reg_subs r) (reg_next r)"
  by (auto simp: wf_registry_def wf_subs_def wf_vars_def dest: map_of_SomeD)

text \<open>An operation that rewrites subscriptions in place without closing one keeps the invariant.\<close>

lemma wf_subs_in_place:
  assumes wf: "wf_subs L S n" and same: "\<And>i. map_option sub_closed (S' i) = map_option sub_closed (S i)"
  shows "wf_subs L S' n"
proof -
  have "S' i = None \<longleftrightarrow> S i = None" for i using same [of i] by (metis option.map_disc_iff)
  moreover have "(\<exists>s. S' i = Some s \<and> \<not> sub_closed s) \<longleftrightarrow> (\<exists>s. S i = Some s \<and> \<not> sub_closed s)" for i
    using same [of i] by (cases "S i"; cases "S' i") auto
  ultimately show ?thesis using wf by (simp add: wf_subs_def)
qed

lemma effect_closed [simp]:
  "sub_closed (set_effect origin evt s) = sub_closed s"
  "sub_closed (announce_effect evt s) = sub_closed s"
  "sub_closed (resolve_effect evt s) = sub_closed s"
  by (simp_all add: set_effect_def announce_effect_def resolve_effect_def enqueue_alt)

lemma wf_subs_set_loop:
  "wf_subs L (reg_subs r) n \<Longrightarrow> distinct is \<Longrightarrow> wf_subs L (reg_subs (set_loop origin evt is r)) n"
  by (erule wf_subs_in_place) (simp add: reg_subs_set_loop option.map_comp comp_def)

lemma wf_subs_announce_subs:
  "wf_subs L (reg_subs r) n \<Longrightarrow> distinct is \<Longrightarrow> wf_subs L (reg_subs (announce_subs evt is r)) n"
  by (erule wf_subs_in_place) (simp add: reg_subs_announce_subs option.map_comp comp_def)

lemma wf_subs_resolve_subs:
  "wf_subs L (reg_subs r) n \<Longrightarrow> distinct is \<Longrightarrow> wf_subs L (reg_subs (resolve_subs evt is r)) n"
  by (erule wf_subs_in_place) (simp add: reg_subs_resolve_subs option.map_comp comp_def)

lemma wf_subs_announce_values:
  "wf_subs (listeners_of r) (reg_subs r) n \<Longrightarrow>
     wf_subs (listeners_of r) (reg_subs (announce_values now vs r)) n"
proof (induction vs arbitrary: r)
  case (Cons v vs)
  let ?r = "storeValue r (var_Name v) (var_Value v) (ev_Timestamp (lastvalue_event now v))"
  let ?r' = "announce_subs (lastvalue_event now v) (listeners_of r (var_Name v)) ?r"
  have "distinct (listeners_of r (var_Name v))" using Cons.prems by (simp add: wf_subs_def)
  then have "wf_subs (listeners_of r) (reg_subs ?r') n"
    using Cons.prems by (intro wf_subs_announce_subs) simp_all
  then show ?case using Cons.IH [of ?r'] by (simp add: Let_def)
qed simp

lemma wf_subs_resolve_pending:
  "wf_subs L (reg_subs r) n \<Longrightarrow> \<forall>(m, l) \<in> set ls. distinct l \<Longrightarrow>
     wf_subs L (reg_subs (resolve_pending ann ls r)) n"
  by (induction ann ls r rule: resolve_pending.induct) (auto intro: wf_subs_resolve_subs)

lemma listeners_of_entry:
  "i \<in> set (listeners_of r n) \<Longrightarrow> \<exists>l. (n, l) \<in> set (reg_listeners r) \<and> i \<in> set l"
  by (cases "map_of (reg_listeners r) n") (auto simp: listeners_of_def dest: map_of_SomeD)

lemma wf_listener_entries:
  "wf_registry r \<Longrightarrow> (m, l) \<in> set (reg_listeners r) \<Longrightarrow> listeners_of r m = l"
  by (simp add: wf_registry_def listeners_of_def)

lemma wf_NewRegistry [simp]: "wf_registry NewRegistry"
  by (simp add: wf_registry_def NewRegistry_def listeners_of_def)

lemma wf_SetValue: "wf_registry r \<Longrightarrow> wf_registry (SetValue now r n x t c)"
  using storeValue_vars [of r n x "if IsZero t then now else t"] wf_distinct [of r n]
  by (auto simp: wf_registry_alt SetValue_def Let_def intro!: wf_subs_set_loop)

lemma wf_ApplyLastValues: "wf_registry r \<Longrightarrow> wf_registry (ApplyLastValues now r vs)"
proof -
  assume wf: "wf_registry r"
  let ?r = "announce_values now vs r"
  have "\<forall>(m, l) \<in> set (reg_listeners r). distinct l"
    using wf wf_listener_entries [OF wf] wf_distinct [OF wf] by auto
  then have "wf_subs (listeners_of r)
      (reg_subs (resolve_pending (map var_Name vs) (reg_listeners r) ?r)) (reg_next r)"
    using wf by (intro wf_subs_resolve_pending wf_subs_announce_values) (simp_all add: wf_registry_alt)
  then show ?thesis
    using wf announce_values_vars [of r now vs]
    by (simp add: wf_registry_alt ApplyLastValues_def Let_def)
qed

lemma listeners_of_update:
  "listeners_of (r\<lparr>reg_listeners := AList.update n l (reg_listeners r)\<rparr>) =
     (listeners_of r)(n := l)"
  by (auto simp: listeners_of_def fun_eq_iff)

lemma listeners_of_other [simp]:
  "listeners_of (r\<lparr>reg_vars := x\<rparr>) = listeners_of r"
  "listeners_of (r\<lparr>reg_subs := y\<rparr>) = listeners_of r"
  "listeners_of (r\<lparr>reg_next := z\<rparr>) = listeners_of r"
  by (simp_all add: listeners_of_def fun_eq_iff)

lemma getOrCreate_vars:
  assumes "wf_vars (reg_vars r)"
  shows "wf_vars (reg_vars (snd (getOrCreate r n)))"
    and "map_of (reg_vars (snd (getOrCreate r n))) n = Some (fst (getOrCreate r n))"
    and "m \<noteq> n \<Longrightarrow> map_of (reg_vars (snd (getOrCreate r n))) m = map_of (reg_vars r) m"
  using assms by (auto simp: getOrCreate_def Let_def split: option.splits)

text \<open>The state \<open>Subscribe\<close> reaches, before the pending flag is set.\<close>

definition subscribed :: "Registry \<Rightarrow> string \<Rightarrow> string \<Rightarrow> Registry" where
  "subscribed r n c =
     (let r1 = snd (getOrCreate r n)
      in r1\<lparr>reg_subs := (reg_subs r)(reg_next r \<mapsto> newSubscription c),
            reg_next := Suc (reg_next r),
            reg_listeners := AList.update n (listeners_of r n @ [reg_next r]) (reg_listeners r)\<rparr>)"

lemma listeners_of_getOrCreate [simp]: "listeners_of (snd (getOrCreate r n)) = listeners_of r"
  by (rule listeners_of_cong) simp

lemma Subscribe_alt:
  "Subscribe r n c steady =
     (let v = fst (getOrCreate r n); i = reg_next r; r' = subscribed r n c
      in if \<not> IsZero (var_Timestamp v) then
           (\<lparr>ev_Name = n, ev_Value = var_Value v, ev_Timestamp = var_Timestamp v,
             ev_LastValue = True, ev_Kind = EventLastValue\<rparr>, i, r')
         else if \<not> steady then
           (bare_event n EventThingUnavailable, i, upd_sub i (\<lambda>s. s\<lparr>sub_pending := True\<rparr>) r')
         else (bare_event n EventLastValueMissing, i, r'))"
  using getOrCreate_simps [of r n]
  by (cases "getOrCreate r n")
     (auto simp: Subscribe_def subscribed_def Let_def simp flip: listeners_of_getOrCreate [of r n])

lemma listeners_of_subscribed [simp]:
  "listeners_of (subscribed r n c) = (listeners_of r)(n := listeners_of r n @ [reg_next r])"
  by (auto simp: subscribed_def Let_def listeners_of_def fun_eq_iff)

lemma subscribed_simps [simp]:
  "reg_subs (subscribed r n c) = (reg_subs r)(reg_next r \<mapsto> newSubscription c)"
  "reg_next (subscribed r n c) = Suc (reg_next r)"
  "reg_vars (subscribed r n c) = reg_vars (snd (getOrCreate r n))"
  "reg_listeners (subscribed r n c) =
     AList.update n (listeners_of r n @ [reg_next r]) (reg_listeners r)"
  by (simp_all add: subscribed_def Let_def)

lemma wf_fresh: "wf_registry r \<Longrightarrow> reg_subs r (reg_next r) = None"
  by (cases "reg_subs r (reg_next r)") (auto simp: wf_registry_def)

lemma wf_fresh_listeners: "wf_registry r \<Longrightarrow> reg_next r \<notin> set (listeners_of r m)"
  using wf_fresh [of r] unfolding wf_registry_def by (metis option.distinct(1))

lemma wf_subscribed: "wf_registry r \<Longrightarrow> wf_registry (subscribed r n c)"
proof -
  assume wf: "wf_registry r"
  let ?i = "reg_next r"
  let ?L = "(listeners_of r)(n := listeners_of r n @ [?i])"
  let ?S = "(reg_subs r)(?i \<mapsto> newSubscription c)"
  note fresh = wf_fresh_listeners [OF wf]
  have S: "wf_subs (listeners_of r) (reg_subs r) (reg_next r)" using wf by (simp add: wf_registry_alt)
  have "distinct (?L m)" for m using S fresh by (simp add: wf_subs_def)
  moreover have "m = k" if "i \<in> set (?L m)" "i \<in> set (?L k)" for m k i
    using that fresh wf_unique [OF wf] by (auto split: if_splits)
  moreover have "\<exists>s. ?S i = Some s \<and> \<not> sub_closed s" if "i \<in> set (?L m)" for m i
    using that S by (auto simp: wf_subs_def newSubscription_def split: if_splits)
  moreover have "i < Suc ?i" if "?S i \<noteq> None" for i
    using that S by (auto simp: wf_subs_def less_Suc_eq split: if_splits)
  ultimately have "wf_subs ?L ?S (Suc ?i)" unfolding wf_subs_def by metis
  then show ?thesis using wf getOrCreate_vars(1) [of r n] by (simp add: wf_registry_alt)
qed

lemma wf_upd_pending: "wf_registry r \<Longrightarrow> wf_registry (upd_sub i (\<lambda>s. s\<lparr>sub_pending := b\<rparr>) r)"
  by (auto simp: wf_registry_alt option.map_comp comp_def intro: wf_subs_in_place)

lemma wf_Subscribe: "wf_registry r \<Longrightarrow> wf_registry (snd (snd (Subscribe r n c steady)))"
  by (simp add: Subscribe_alt Let_def wf_subscribed wf_upd_pending)

lemma wf_Unsubscribe:
  assumes wf: "wf_registry r" and own: "\<And>m. i \<in> set (listeners_of r m) \<Longrightarrow> m = n"
  shows "wf_registry (Unsubscribe r n i)" and "i \<notin> set (listeners_of (Unsubscribe r n i) m)"
proof -
  have L: "listeners_of (Unsubscribe r n i) = (listeners_of r)(n := remove1 i (listeners_of r n))"
    by (auto simp: Unsubscribe_def Let_def listeners_of_update remove1_idem fun_eq_iff)
  have d: "distinct (listeners_of r n)" using wf by (rule wf_distinct)
  show gone: "i \<notin> set (listeners_of (Unsubscribe r n i) m)" for m
    using d own by (auto simp: L)
  have S: "wf_subs (listeners_of r) (reg_subs r) (reg_next r)" using wf by (simp add: wf_registry_alt)
  let ?L = "listeners_of (Unsubscribe r n i)"
  let ?S = "(reg_subs r)(i := map_option stop (reg_subs r i))"
  have sub: "set (?L m) \<subseteq> set (listeners_of r m)" for m
    using set_remove1_subset [of i "listeners_of r n"] by (auto simp: L)
  have "distinct (?L m)" for m using S d by (simp add: L wf_subs_def)
  moreover have "m = k" if "j \<in> set (?L m)" "j \<in> set (?L k)" for m k j
    using that sub wf_unique [OF wf] by blast
  moreover have "\<exists>s. ?S j = Some s \<and> \<not> sub_closed s" if "j \<in> set (?L m)" for m j
    using that gone [of m] sub [of m] S by (auto simp: wf_subs_def)
  moreover have "j < reg_next r" if "?S j \<noteq> None" for j
    using that S by (auto simp: wf_subs_def split: if_splits)
  ultimately have "wf_subs ?L ?S (reg_next r)" unfolding wf_subs_def by metis
  then show "wf_registry (Unsubscribe r n i)"
    using wf by (auto simp: wf_registry_alt Unsubscribe_def Let_def)
qed

section \<open>The effect of a write and of a last-values payload on one subscriber\<close>

lemma wf_owner: "wf_registry r \<Longrightarrow> i \<in> set (listeners_of r n) \<Longrightarrow> i \<in> set (listeners_of r m) \<longleftrightarrow> m = n"
  using wf_unique by metis

lemma SetValue_sub:
  assumes "wf_registry r"
  shows "reg_subs (SetValue now r n x t c) i =
    (if i \<in> set (listeners_of r n)
     then map_option (set_effect c \<lparr>ev_Name = n, ev_Value = x,
            ev_Timestamp = (if IsZero t then now else t), ev_LastValue = False,
            ev_Kind = EventUpdate\<rparr>) (reg_subs r i)
     else reg_subs r i)"
  using wf_distinct [OF assms, of n] by (simp add: SetValue_def Let_def reg_subs_set_loop)

definition apply_effect :: "time \<Rightarrow> Variable list \<Rightarrow> string \<Rightarrow> Subscription \<Rightarrow> Subscription" where
  "apply_effect now vs n s =
     (if n \<in> set (map var_Name vs) then announce_all now (filter (\<lambda>v. var_Name v = n) vs) s
      else resolve_effect (bare_event n EventLastValueMissing) s)"

lemma ApplyLastValues_sub:
  assumes wf: "wf_registry r" and i: "i \<in> set (listeners_of r n)"
  shows "reg_subs (ApplyLastValues now r vs) i = map_option (apply_effect now vs n) (reg_subs r i)"
proof -
  let ?r = "announce_values now vs r"
  have own: "\<And>m. i \<in> set (listeners_of r m) \<longleftrightarrow> m = n" using wf_owner [OF wf i] .
  have first: "reg_subs ?r i =
      map_option (announce_all now (filter (\<lambda>v. var_Name v = n) vs)) (reg_subs r i)"
    using wf_distinct [OF wf] own by (rule reg_subs_announce_values)
  have ls: "distinct (map fst (reg_listeners r))" using wf by (simp add: wf_registry_def)
  have ents: "\<forall>(m, l) \<in> set (reg_listeners r). distinct l \<and> (i \<in> set l \<longleftrightarrow> m = n)"
    using wf_listener_entries [OF wf] wf_distinct [OF wf] own by force
  have n: "n \<in> fst ` set (reg_listeners r)"
    using listeners_of_entry [OF i] by force
  have none: "filter (\<lambda>v. var_Name v = n) vs = []" if "n \<notin> set (map var_Name vs)"
    using that by (auto simp: filter_empty_conv)
  show ?thesis
    using reg_subs_resolve_pending [OF ls ents, of "map var_Name vs" ?r] n none
    by (auto simp: ApplyLastValues_def Let_def first apply_effect_def option.map_comp comp_def
        apply_effect_def [abs_def] intro!: option.map_cong)
qed

lemma apply_effect_fields:
  "sub_queue (apply_effect now vs n s) =
     sub_queue s @
     (if n \<in> set (map var_Name vs) then map (lastvalue_event now) (filter (\<lambda>v. var_Name v = n) vs)
      else if sub_pending s then [bare_event n EventLastValueMissing] else [])"
  "sub_pending (apply_effect now vs n s) = False"
  "sub_clientID (apply_effect now vs n s) = sub_clientID s"
  by (auto simp: apply_effect_def announce_all_fields resolve_effect_def announce_effect_def
      enqueue_alt filter_empty_conv)

lemma ApplyLastValues_unlisted:
  assumes "\<And>m. i \<notin> set (listeners_of r m)"
  shows "reg_subs (announce_values now vs r) i = reg_subs r i"
  using assms
proof (induction vs arbitrary: r)
  case (Cons v vs)
  have "reg_subs (announce_subs evt is q) i = reg_subs q i" if "i \<notin> set is" for evt "is" q
    using that by (induction "is" arbitrary: q) auto
  with Cons show ?case by (simp add: Let_def)
qed simp

lemma storeValue_board:
  "wf_registry r \<Longrightarrow>
     map_of (reg_vars (storeValue r n x t)) = (map_of (reg_vars r))(n \<mapsto> board_var n x t)"
  using storeValue_vars wf_vars_of_wf by blast

lemma SetValue_board:
  "wf_registry r \<Longrightarrow> map_of (reg_vars (SetValue now r n x t c)) =
     (map_of (reg_vars r))(n \<mapsto> board_var n x (if IsZero t then now else t))"
  by (simp add: SetValue_def Let_def storeValue_board)

lemma listeners_of_SetValue [simp]: "listeners_of (SetValue now r n x t c) = listeners_of r"
  by (simp add: SetValue_def Let_def)

section \<open>Refinement of an abstract board\<close>

text \<open>
  The specification an app relies on: one current value per variable, and for every subscriber
  the log of frames it was sent and whether it still waits for a verdict.
\<close>

record sink =
  sk_name :: string
  sk_client :: string
  sk_pending :: bool
  sk_log :: "UpdateEvent list"

record board =
  bd_value :: "string \<Rightarrow> (any \<times> time) option"
  bd_sinks :: "nat \<Rightarrow> sink option"

definition spec_set :: "time \<Rightarrow> string \<Rightarrow> any \<Rightarrow> time \<Rightarrow> string \<Rightarrow> board \<Rightarrow> board" where
  "spec_set now n x t c b =
     (let t = (if IsZero t then now else t);
          evt = \<lparr>ev_Name = n, ev_Value = x, ev_Timestamp = t, ev_LastValue = False,
                 ev_Kind = EventUpdate\<rparr>
      in \<lparr>bd_value = (bd_value b)(n \<mapsto> (x, t)),
          bd_sinks = (\<lambda>i. map_option (\<lambda>k.
             if sk_name k = n \<and> (c = [] \<or> sk_client k \<noteq> c) then k\<lparr>sk_log := sk_log k @ [evt]\<rparr>
             else k) (bd_sinks b i))\<rparr>)"

definition spec_frames :: "time \<Rightarrow> Variable list \<Rightarrow> sink \<Rightarrow> UpdateEvent list" where
  "spec_frames now vs k =
     (if sk_name k \<in> var_Name ` set vs
      then map (lastvalue_event now) (filter (\<lambda>v. var_Name v = sk_name k) vs)
      else if sk_pending k then [bare_event (sk_name k) EventLastValueMissing] else [])"

definition spec_apply :: "time \<Rightarrow> Variable list \<Rightarrow> board \<Rightarrow> board" where
  "spec_apply now vs b =
     \<lparr>bd_value = fold (\<lambda>v m. m(var_Name v \<mapsto> (var_Value v,
                    if IsZero (var_Timestamp v) then now else var_Timestamp v))) vs (bd_value b),
      bd_sinks = (\<lambda>i. map_option (\<lambda>k.
         k\<lparr>sk_pending := False, sk_log := sk_log k @ spec_frames now vs k\<rparr>) (bd_sinks b i))\<rparr>"

definition value_view :: "(string \<Rightarrow> Variable option) \<Rightarrow> string \<Rightarrow> (any \<times> time) option" where
  "value_view m n =
     (case m n of None \<Rightarrow> None
      | Some v \<Rightarrow> if IsZero (var_Timestamp v) then None else Some (var_Value v, var_Timestamp v))"

definition sink_view :: "string \<Rightarrow> Subscription \<Rightarrow> sink" where
  "sink_view n s =
     \<lparr>sk_name = n, sk_client = sub_clientID s, sk_pending = sub_pending s, sk_log = sub_queue s\<rparr>"

definition owner :: "Registry \<Rightarrow> nat \<Rightarrow> string option" where
  "owner r i = map_option fst (List.find (\<lambda>(n, l). i \<in> set l) (reg_listeners r))"

definition board_of :: "Registry \<Rightarrow> board" where
  "board_of r =
     \<lparr>bd_value = value_view (map_of (reg_vars r)),
      bd_sinks = (\<lambda>i. case owner r i of None \<Rightarrow> None
                      | Some n \<Rightarrow> map_option (sink_view n) (reg_subs r i))\<rparr>"

lemma owner_iff:
  assumes wf: "wf_registry r"
  shows "owner r i = Some n \<longleftrightarrow> i \<in> set (listeners_of r n)"
proof
  assume "owner r i = Some n"
  then obtain l where "(n, l) \<in> set (reg_listeners r)" "i \<in> set l"
    by (auto simp: owner_def dest!: find_SomeD)
  then show "i \<in> set (listeners_of r n)" using wf_listener_entries [OF wf] by blast
next
  assume i: "i \<in> set (listeners_of r n)"
  then obtain l where l: "(n, l) \<in> set (reg_listeners r)" "i \<in> set l"
    using listeners_of_entry by blast
  then obtain p where p: "List.find (\<lambda>(n, l). i \<in> set l) (reg_listeners r) = Some p"
    by (cases "List.find (\<lambda>(n, l). i \<in> set l) (reg_listeners r)") (auto simp: find_None_iff)
  then have "p \<in> set (reg_listeners r)" "i \<in> set (snd p)"
    using find_SomeD [OF p] by (auto simp: case_prod_beta)
  then have "i \<in> set (listeners_of r (fst p))"
    using wf_listener_entries [OF wf, of "fst p" "snd p"] by simp
  then have "fst p = n" using i wf_unique [OF wf] by metis
  with p show "owner r i = Some n" by (simp add: owner_def)
qed

lemma owner_None: "wf_registry r \<Longrightarrow> owner r i = None \<longleftrightarrow> (\<forall>n. i \<notin> set (listeners_of r n))"
  using owner_iff by (metis not_None_eq)

lemma owner_cong: "reg_listeners r = reg_listeners r' \<Longrightarrow> owner r = owner r'"
  by (simp add: owner_def fun_eq_iff)

lemma value_view_upd:
  "\<not> IsZero t \<Longrightarrow> value_view (m(n \<mapsto> board_var n x t)) = (value_view m)(n \<mapsto> (x, t))"
  by (auto simp: value_view_def board_var_def fun_eq_iff)

lemma refines_set_sinks:
  assumes wf: "wf_registry r"
  shows "bd_sinks (board_of (SetValue now r n x t c)) = bd_sinks (spec_set now n x t c (board_of r))"
proof (rule ext)
  fix i
  have own: "owner (SetValue now r n x t c) i = owner r i"
    by (simp add: SetValue_def Let_def owner_def)
  show "bd_sinks (board_of (SetValue now r n x t c)) i =
      bd_sinks (spec_set now n x t c (board_of r)) i"
  proof (cases "owner r i")
    case None
    then show ?thesis by (simp add: board_of_def own spec_set_def Let_def)
  next
    case (Some m)
    then have "i \<in> set (listeners_of r n) \<longleftrightarrow> m = n"
      using owner_iff [OF wf, of i] by fastforce
    with Some show ?thesis
      by (cases "reg_subs r i")
         (auto simp: board_of_def own spec_set_def Let_def SetValue_sub [OF wf] sink_view_def
            set_effect_def enqueue_alt)
  qed
qed

lemma refines_apply_sinks:
  assumes wf: "wf_registry r"
  shows "bd_sinks (board_of (ApplyLastValues now r vs)) = bd_sinks (spec_apply now vs (board_of r))"
proof (rule ext)
  fix i
  have own: "owner (ApplyLastValues now r vs) i = owner r i"
    by (simp add: ApplyLastValues_def Let_def owner_def)
  show "bd_sinks (board_of (ApplyLastValues now r vs)) i =
      bd_sinks (spec_apply now vs (board_of r)) i"
  proof (cases "owner r i")
    case None
    then show ?thesis by (simp add: board_of_def own spec_apply_def)
  next
    case (Some n)
    then have i: "i \<in> set (listeners_of r n)" using owner_iff [OF wf] by blast
    show ?thesis
      by (cases "reg_subs r i")
         (auto simp: board_of_def own Some spec_apply_def ApplyLastValues_sub [OF wf i]
            sink_view_def apply_effect_fields spec_frames_def)
  qed
qed

lemma value_view_fold:
  assumes "\<not> IsZero now"
  shows "value_view (fold (\<lambda>v m. m(var_Name v \<mapsto> board_var (var_Name v) (var_Value v)
             (ev_Timestamp (lastvalue_event now v)))) vs m) =
    fold (\<lambda>v m. m(var_Name v \<mapsto> (var_Value v,
             if IsZero (var_Timestamp v) then now else var_Timestamp v))) vs (value_view m)"
  using assms by (induction vs arbitrary: m) (simp_all add: value_view_upd lastvalue_event_def)



section \<open>Properties of the registry\<close>

text \<open>
  The registry as its callers drive it: the REST layer subscribes and unsubscribes (with the name
  it subscribed under), the outbound worker and the cloud FSM write.
\<close>

datatype reg_op =
    OpSet time string any time string
  | OpApply time "Variable list"
  | OpSubscribe string string bool
  | OpUnsubscribe string nat

inductive reg_step :: "Registry \<Rightarrow> reg_op \<Rightarrow> Registry \<Rightarrow> bool" where
  reg_set: "reg_step r (OpSet now n x t c) (SetValue now r n x t c)"
| reg_apply: "reg_step r (OpApply now vs) (ApplyLastValues now r vs)"
| reg_subscribe: "reg_step r (OpSubscribe n c steady) (snd (snd (Subscribe r n c steady)))"
| reg_unsubscribe: "i \<in> set (listeners_of r n) \<Longrightarrow>
     reg_step r (OpUnsubscribe n i) (Unsubscribe r n i)"

lemma wf_reg_step: "reg_step r l r' \<Longrightarrow> wf_registry r \<Longrightarrow> wf_registry r'"
proof (induction rule: reg_step.induct)
  case (reg_unsubscribe i r n)
  then show ?case using wf_Unsubscribe(1) wf_unique by metis
qed (auto intro: wf_SetValue wf_ApplyLastValues wf_Subscribe)

lemma ApplyLastValues_resolves:
  assumes "wf_registry r" and "i \<in> set (listeners_of r n)"
  shows "\<exists>s. reg_subs (ApplyLastValues now r vs) i = Some s \<and> \<not> sub_pending s"
proof -
  obtain s where "reg_subs r i = Some s" using assms unfolding wf_registry_def by blast
  then show ?thesis using ApplyLastValues_sub [OF assms, of now vs] by (simp add: apply_effect_fields)
qed

definition pending_demo :: Registry where
  "pending_demo = snd (snd (Subscribe NewRegistry ''temp'' ''app1'' False))"

lemma pending_demo_facts:
  "wf_registry pending_demo" "0 \<in> set (listeners_of pending_demo ''temp'')"
  "reg_subs pending_demo 0 = Some ((newSubscription ''app1'')\<lparr>sub_pending := True\<rparr>)"
  unfolding pending_demo_def
  by (rule wf_Subscribe, simp)
     (simp_all add: Subscribe_alt Let_def getOrCreate_def NewRegistry_def)

interpretation registry: invariant_system "\<lambda>r. r = NewRegistry" reg_step wf_registry
  by unfold_locales (auto intro: wf_reg_step)

text \<open>
  C26. Well-formedness is an invariant: after any sequence of writes, last-values payloads,
  subscriptions and unsubscriptions from the empty registry, names are unique, every listener is
  a live subscription that has not been stopped (so nothing is ever enqueued after \<open>stop\<close>), and
  no subscription is listed twice.
\<close>

theorem registry_wf_reachable:
  "reach (\<lambda>r. r = NewRegistry) reg_step r \<Longrightarrow> wf_registry r"
  by (rule registry.reach_inv)

theorem registry_wf_reachable_witness:
  "wf_registry (Unsubscribe (SetValue 5 pending_demo ''temp'' (ABool True) 5 ''a'') ''temp'' 0)"
proof -
  let ?r2 = "SetValue 5 pending_demo ''temp'' (ABool True) 5 ''a''"
  have 0: "reach (\<lambda>r. r = NewRegistry) reg_step NewRegistry" by (rule reach_init) simp
  have 1: "reg_step NewRegistry (OpSubscribe ''temp'' ''app1'' False) pending_demo"
    unfolding pending_demo_def by (rule reg_subscribe)
  have 2: "reg_step pending_demo (OpSet 5 ''temp'' (ABool True) 5 ''a'') ?r2" by (rule reg_set)
  have "0 \<in> set (listeners_of ?r2 ''temp'')"
    unfolding listeners_of_SetValue by (rule pending_demo_facts(2))
  then have 3: "reg_step ?r2 (OpUnsubscribe ''temp'' 0) (Unsubscribe ?r2 ''temp'' 0)"
    by (rule reg_unsubscribe)
  from 0 1 have "reach (\<lambda>r. r = NewRegistry) reg_step pending_demo" by (rule reach_step)
  from this 2 have "reach (\<lambda>r. r = NewRegistry) reg_step ?r2" by (rule reach_step)
  from this 3 have "reach (\<lambda>r. r = NewRegistry) reg_step (Unsubscribe ?r2 ''temp'' 0)"
    by (rule reach_step)
  then show ?thesis by (rule registry_wf_reachable)
qed

text \<open>
  Remark. A last-values payload gives every subscriber its verdict: a subscriber of the variable \<open>n\<close>
  is no longer pending afterwards, and its queue has grown by one \<open>lastvalue\<close> frame for every
  entry of the payload under that name, or, if there is none and it was pending, by exactly one
  \<open>lastvalue_missing\<close> frame, or by nothing.
\<close>

theorem ApplyLastValues_verdict:
  assumes "wf_registry r" and "i \<in> set (listeners_of r n)" and "reg_subs r i = Some s"
  shows "\<exists>s'. reg_subs (ApplyLastValues now r vs) i = Some s' \<and> \<not> sub_pending s' \<and>
    sub_queue s' = sub_queue s @
      (if n \<in> set (map var_Name vs) then map (lastvalue_event now) (filter (\<lambda>v. var_Name v = n) vs)
       else if sub_pending s then [bare_event n EventLastValueMissing] else [])"
  using ApplyLastValues_sub [OF assms(1,2), of now vs] assms(3) by (simp add: apply_effect_fields)

theorem ApplyLastValues_verdict_witness:
  "\<exists>s'. reg_subs (ApplyLastValues 9 pending_demo []) 0 = Some s' \<and> \<not> sub_pending s' \<and>
     sub_queue s' = [bare_event ''temp'' EventLastValueMissing]"
  using ApplyLastValues_verdict [OF pending_demo_facts, of 9 "[]"]
  by (simp add: newSubscription_def)

text \<open>
  C30. No self-echo, and no lost update: a write to \<open>n\<close> on behalf of the app \<open>c\<close> leaves the
  queue of every subscription of that app alone (when it identified itself), and appends exactly
  one \<open>update\<close> frame to the queue of every other subscriber of \<open>n\<close> and to no one else's.
\<close>

theorem SetValue_origin_exclusion:
  assumes "wf_registry r" and "reg_subs r i = Some s"
  shows "\<exists>s'. reg_subs (SetValue now r n x t c) i = Some s' \<and> sub_pending s' = sub_pending s \<and>
    sub_queue s' = sub_queue s @
      (if i \<in> set (listeners_of r n) \<and> \<not> (c \<noteq> [] \<and> sub_clientID s = c)
       then [\<lparr>ev_Name = n, ev_Value = x, ev_Timestamp = (if IsZero t then now else t),
              ev_LastValue = False, ev_Kind = EventUpdate\<rparr>] else [])"
  using assms(2) by (simp add: SetValue_sub [OF assms(1)] set_effect_def enqueue_alt)

theorem SetValue_origin_exclusion_witness:
  "(\<exists>s'. reg_subs (SetValue 9 pending_demo ''temp'' (ABool True) 9 ''app1'') 0 = Some s' \<and>
      sub_pending s' \<and> sub_queue s' = []) \<and>
   (\<exists>s'. reg_subs (SetValue 9 pending_demo ''temp'' (ABool True) 9 ''app2'') 0 = Some s' \<and>
      sub_pending s' \<and> length (sub_queue s') = 1)"
  using SetValue_origin_exclusion
          [OF pending_demo_facts(1,3), of 9 "''temp''" "ABool True" 9 "''app1''"]
        SetValue_origin_exclusion
          [OF pending_demo_facts(1,3), of 9 "''temp''" "ABool True" 9 "''app2''"]
        pending_demo_facts(2)
  by (auto simp: newSubscription_def)

text \<open>
  Remark. The first frame of a subscription: \<open>lastvalue\<close> with the board's value exactly when the
  variable has one, else \<open>thing_unavailable\<close> when the cloud is not steady, else
  \<open>lastvalue_missing\<close>; the new subscriber is listed under the variable, its queue is empty, and
  it is pending exactly in the \<open>thing_unavailable\<close> case.
\<close>

theorem Subscribe_first_frame:
  assumes wf: "wf_registry r" and sub: "Subscribe r n c steady = (first, i, r')"
  shows "ev_Name first = n \<and>
    (case value_view (map_of (reg_vars r)) n of
       Some (x, t) \<Rightarrow> ev_Kind first = EventLastValue \<and> ev_Value first = x \<and> ev_Timestamp first = t
     | None \<Rightarrow> ev_Kind first = (if steady then EventLastValueMissing else EventThingUnavailable)) \<and>
    i \<in> set (listeners_of r' n) \<and>
    (\<exists>s. reg_subs r' i = Some s \<and> sub_clientID s = c \<and> sub_queue s = [] \<and>
         (sub_pending s \<longleftrightarrow> ev_Kind first = EventThingUnavailable))"
proof (cases "map_of (reg_vars r) n")
  case None
  then show ?thesis using sub
    by (auto simp: Subscribe_alt Let_def getOrCreate_def value_view_def bare_event_def
        newSubscription_def split: if_splits)
next
  case (Some v)
  then show ?thesis using sub
    by (auto simp: Subscribe_alt Let_def getOrCreate_def value_view_def bare_event_def
        newSubscription_def split: if_splits)
qed

theorem Subscribe_first_frame_witness:
  "ev_Kind (fst (Subscribe NewRegistry ''temp'' ''app1'' False)) = EventThingUnavailable"
proof -
  obtain first i r' where sub: "Subscribe NewRegistry ''temp'' ''app1'' False = (first, i, r')"
    by (metis prod.exhaust)
  have "map_of (reg_vars NewRegistry) ''temp'' = None" by (simp add: NewRegistry_def)
  with Subscribe_first_frame [OF wf_NewRegistry sub] show ?thesis
    by (simp add: sub value_view_def)
qed

text \<open>
  Remark. A verdict that contradicts the board: a subscriber that is pending when another app's write
  reaches its variable keeps waiting, and the next last-values payload that does not mention the
  variable tells it \<open>lastvalue_missing\<close>, although the board then has a value for the variable
  (the one just written). The comment on \<open>EventLastValueMissing\<close> says that the frame means the
  board has none.
\<close>

theorem missing_verdict_despite_value:
  assumes wf: "wf_registry r" and i: "i \<in> set (listeners_of r n)"
    and s: "reg_subs r i = Some s" "sub_pending s" "sub_clientID s \<noteq> c"
    and vs: "n \<notin> set (map var_Name vs)" and t: "\<not> IsZero t"
  shows "let r' = ApplyLastValues now (SetValue now r n x t c) vs
    in value_view (map_of (reg_vars r')) n = Some (x, t) \<and>
       (\<exists>s'. reg_subs r' i = Some s' \<and>
          last (sub_queue s') = bare_event n EventLastValueMissing)"
proof -
  let ?r1 = "SetValue now r n x t c"
  have wf1: "wf_registry ?r1" by (rule wf_SetValue [OF wf])
  have i1: "i \<in> set (listeners_of ?r1 n)" using i by (simp add: SetValue_def Let_def)
  obtain s1 where s1: "reg_subs ?r1 i = Some s1" "sub_pending s1"
    using s i by (auto simp: SetValue_sub [OF wf] set_effect_def enqueue_alt)
  have keep: "map_of (reg_vars (announce_values now vs q)) n = map_of (reg_vars q) n"
    if "wf_vars (reg_vars q)" for q
  proof -
    have "fold (\<lambda>v m. m(var_Name v \<mapsto> f v)) vs m n = m n" for f :: "Variable \<Rightarrow> Variable" and m
      using vs by (induction vs arbitrary: m) auto
    then show ?thesis using announce_values_vars [OF that, of now vs] by simp
  qed
  have "value_view (map_of (reg_vars (ApplyLastValues now ?r1 vs))) n = Some (x, t)"
    using keep [OF wf_vars_of_wf [OF wf1]] SetValue_board [OF wf] t
    by (simp add: ApplyLastValues_def Let_def value_view_def board_var_def)
  moreover have "\<exists>s'. reg_subs (ApplyLastValues now ?r1 vs) i = Some s' \<and>
      last (sub_queue s') = bare_event n EventLastValueMissing"
    using ApplyLastValues_sub [OF wf1 i1, of now vs] s1 vs by (simp add: apply_effect_fields)
  ultimately show ?thesis by simp
qed

theorem missing_verdict_despite_value_witness:
  "let r' = ApplyLastValues 9 (SetValue 9 pending_demo ''temp'' (ABool True) 9 ''app2'') []
   in value_view (map_of (reg_vars r')) ''temp'' = Some (ABool True, 9) \<and>
      (\<exists>s'. reg_subs r' 0 = Some s' \<and>
         last (sub_queue s') = bare_event ''temp'' EventLastValueMissing)"
  by (rule missing_verdict_despite_value [OF pending_demo_facts])
     (simp_all add: newSubscription_def)

lemma WithPrefix_spec:
  assumes wf: "wf_registry r"
  shows "sorted_wrt (\<lambda>v w. var_Name v < var_Name w) (WithPrefix r p) \<and>
    set (WithPrefix r p) =
      {v. map_of (reg_vars r) (var_Name v) = Some v \<and> HasPrefix (var_Name v) p \<and>
          \<not> IsZero (var_Timestamp v)}"
proof -
  let ?keep = "\<lambda>(name, v). HasPrefix name p \<and> \<not> IsZero (var_Timestamp v)"
  let ?vs = "map snd (filter ?keep (reg_vars r))"
  have vars: "wf_vars (reg_vars r)" using wf by (rule wf_vars_of_wf)
  have names: "map var_Name (map snd al) = map fst al" if "set al \<subseteq> set (reg_vars r)" for al
    using that wf_varsD [OF vars] by (induction al) auto
  have "distinct (map var_Name ?vs)"
    using names [OF filter_is_subset, of ?keep] distinct_map_filter [of fst "reg_vars r" ?keep] vars
    unfolding wf_vars_def by (simp del: map_map)
  then have "distinct (map var_Name (sort_key var_Name ?vs))"
    by (simp only: distinct_map distinct_sort set_sort)
  then have "sorted_wrt (<) (map var_Name (sort_key var_Name ?vs))"
    by (simp add: strict_sorted_iff)
  then have "sorted_wrt (\<lambda>v w. var_Name v < var_Name w) (WithPrefix r p)"
    by (simp add: WithPrefix_def sorted_wrt_map)
  moreover have "v \<in> set ?vs \<longleftrightarrow> map_of (reg_vars r) (var_Name v) = Some v \<and>
      HasPrefix (var_Name v) p \<and> \<not> IsZero (var_Timestamp v)" for v
  proof -
    have "(n, v) \<in> set (reg_vars r) \<longleftrightarrow> n = var_Name v \<and> map_of (reg_vars r) n = Some v" for n
      using vars by (auto simp: wf_vars_def)
    then show ?thesis by (auto simp: image_iff)
  qed
  ultimately show ?thesis
    unfolding WithPrefix_def set_sort by (auto simp only: mem_Collect_eq set_eq_iff)
qed

text \<open>
  Remark. \<open>WithPrefix\<close> returns exactly the variables whose name starts with the prefix and that have
  been set at least once, in strictly increasing order of name.
\<close>

theorem WithPrefix_exact:
  assumes wf: "wf_registry r"
  shows "sorted_wrt (\<lambda>v w. var_Name v < var_Name w) (WithPrefix r p) \<and>
    set (WithPrefix r p) =
      {v. map_of (reg_vars r) (var_Name v) = Some v \<and> HasPrefix (var_Name v) p \<and>
          \<not> IsZero (var_Timestamp v)}"
  by (rule WithPrefix_spec [OF wf])

theorem WithPrefix_exact_witness:
  "set (WithPrefix (SetValue 5 (SetValue 5 NewRegistry ''l:hue'' (ABool True) 5 []) ''m'' ANil 5 [])
     ''l:'') = {board_var ''l:hue'' (ABool True) 5}"
proof -
  let ?r = "SetValue 5 (SetValue 5 NewRegistry ''l:hue'' (ABool True) 5 []) ''m'' ANil 5 []"
  have wf: "wf_registry ?r" by (intro wf_SetValue) simp
  have vars: "map_of (reg_vars ?r) =
      [''l:hue'' \<mapsto> board_var ''l:hue'' (ABool True) 5, ''m'' \<mapsto> board_var ''m'' ANil 5]"
    unfolding SetValue_board [OF wf_SetValue [OF wf_NewRegistry]] SetValue_board [OF wf_NewRegistry]
    by (simp add: NewRegistry_def)
  have "v = board_var ''l:hue'' (ABool True) 5"
    if "map_of (reg_vars ?r) (var_Name v) = Some v" "HasPrefix (var_Name v) ''l:''" for v
    using that unfolding vars
    by (cases "var_Name v = ''m''"; cases "var_Name v = ''l:hue''") simp_all
  moreover have "map_of (reg_vars ?r) ''l:hue'' = Some (board_var ''l:hue'' (ABool True) 5)"
    unfolding vars by simp
  ultimately show ?thesis
    unfolding WithPrefix_exact [OF wf, THEN conjunct2] by (auto simp: board_var_def)
qed

end
