(* ===== verification/Go_Strings.thy ===== *)
theory Go_Strings
  imports Prelude
begin

text \<open>
  The functions of Go's \<open>strings\<close>, \<open>strconv\<close> and \<open>encoding/hex\<close> packages that the certificate
  and system components use, on byte strings, with the facts about them those components need.
\<close>

section \<open>Bytes\<close>

text \<open>\<open>byte(n)\<close> of an \<open>int\<close> keeps the low eight bits; \<open>[]byte(s)\<close> are the bytes of a string.\<close>

definition byte :: "int \<Rightarrow> 8 word" where
  "byte n = word_of_int n"

definition bytes_of :: "string \<Rightarrow> bytes" where
  "bytes_of s = map of_char s"

lemma length_bytes_of [simp]: "length (bytes_of s) = length s"
  by (simp add: bytes_of_def)

lemma bytes_of_append [simp]: "bytes_of (s @ t) = bytes_of s @ bytes_of t"
  by (simp add: bytes_of_def)

lemma of_char_word_inj: "(of_char c :: 8 word) = of_char d \<Longrightarrow> c = d"
proof -
  assume "(of_char c :: 8 word) = of_char d"
  then have "unat (of_nat (of_char c) :: 8 word) = unat (of_nat (of_char d) :: 8 word)"
    by (simp only: of_nat_of_char)
  moreover have "(of_char c :: nat) < 256" "(of_char d :: nat) < 256" by (rule nat_of_char_less_256)+
  ultimately have "(of_char c :: nat) = of_char d" by (simp add: unat_of_nat)
  then show ?thesis by simp
qed

lemma bytes_of_inj: "bytes_of s = bytes_of t \<Longrightarrow> s = t"
  unfolding bytes_of_def by (rule map_injective) (auto intro: injI of_char_word_inj)

text \<open>Integer division and remainder of Go, which truncate towards zero, by a positive divisor.\<close>

definition go_div :: "int \<Rightarrow> int \<Rightarrow> int" where
  "go_div a b = (if 0 \<le> a then a div b else - ((- a) div b))"

definition go_mod :: "int \<Rightarrow> int \<Rightarrow> int" where
  "go_mod a b = (if 0 \<le> a then a mod b else - ((- a) mod b))"

lemma go_div_mod_nonneg [simp]: "0 \<le> a \<Longrightarrow> go_div a b = a div b" "0 \<le> a \<Longrightarrow> go_mod a b = a mod b"
  by (simp_all add: go_div_def go_mod_def)

section \<open>White space\<close>

text \<open>The UTF-8 encodings of the characters with the Unicode property White Space.\<close>

definition white_space :: "string list" where
  "white_space =
     [''\<newline>'', '' '', [CHR 0x09], [CHR 0x0B], [CHR 0x0C], [CHR 0x0D],
      [CHR 0xC2, CHR 0x85], [CHR 0xC2, CHR 0xA0], [CHR 0xE1, CHR 0x9A, CHR 0x80]] @
     map (\<lambda>n. [CHR 0xE2, CHR 0x80, char_of (n :: nat)]) ([0x80 ..< 0x8B] @ [0xA8, 0xA9, 0xAF]) @
     [[CHR 0xE2, CHR 0x81, CHR 0x9F], [CHR 0xE3, CHR 0x80, CHR 0x80]]"

definition strip_one :: "string list \<Rightarrow> string \<Rightarrow> string option" where
  "strip_one ws s =
     map_option (\<lambda>p. drop (length p) s) (List.find (\<lambda>p. p \<noteq> [] \<and> HasPrefix s p) ws)"

lemma strip_one_shorter: "strip_one ws s = Some t \<Longrightarrow> length t < length s"
  by (auto simp: strip_one_def HasPrefix_iff dest!: find_SomeD)

function trim_front :: "string list \<Rightarrow> string \<Rightarrow> string" where
  "trim_front ws s = (case strip_one ws s of None \<Rightarrow> s | Some t \<Rightarrow> trim_front ws t)"
  by pat_completeness auto
termination
  by (relation "measure (\<lambda>(ws, s). length s)") (auto dest: strip_one_shorter)

declare trim_front.simps [simp del]

definition TrimSpace :: "string \<Rightarrow> string" where
  "TrimSpace s = rev (trim_front (map rev white_space) (rev (trim_front white_space s)))"

lemma trim_front_suffix: "\<exists>p. s = p @ trim_front ws s"
proof (induction ws s rule: trim_front.induct)
  case (1 ws s)
  show ?case
  proof (cases "strip_one ws s")
    case None
    then show ?thesis by (simp add: trim_front.simps)
  next
    case (Some t)
    then obtain q where q: "s = q @ t"
      by (auto simp: strip_one_def HasPrefix_iff dest!: find_SomeD)
    obtain p where "t = p @ trim_front ws t" using 1 Some by blast
    moreover have "trim_front ws s = trim_front ws t" using Some by (subst trim_front.simps) simp
    ultimately have "s = (q @ p) @ trim_front ws s" using q by simp
    then show ?thesis ..
  qed
qed

lemma TrimSpace_infix: "\<exists>p q. s = p @ TrimSpace s @ q"
proof -
  obtain p where p: "s = p @ trim_front white_space s" using trim_front_suffix by blast
  obtain q where q: "rev (trim_front white_space s) =
      q @ trim_front (map rev white_space) (rev (trim_front white_space s))"
    using trim_front_suffix by blast
  then have "trim_front white_space s = TrimSpace s @ rev q"
    unfolding TrimSpace_def by (metis rev_append rev_rev_ident)
  with p show ?thesis by metis
qed

text \<open>Printable ASCII at both ends is left alone; a final newline is removed.\<close>

definition graphic :: "char \<Rightarrow> bool" where
  "graphic c \<longleftrightarrow> 33 \<le> (of_char c :: nat) \<and> (of_char c :: nat) \<le> 126"

lemma white_space_edges:
  "list_all (\<lambda>p. p \<noteq> [] \<and> \<not> graphic (hd p) \<and> \<not> graphic (last p)) white_space"
  by code_simp

lemma trim_front_graphic:
  assumes "list_all (\<lambda>p. p \<noteq> [] \<longrightarrow> \<not> graphic (hd p)) ws" and "s \<noteq> []" and "graphic (hd s)"
  shows "trim_front ws s = s"
proof -
  have "List.find (\<lambda>p. p \<noteq> [] \<and> HasPrefix s p) ws = None"
    using assms by (auto simp: find_None_iff list_all_iff HasPrefix_iff)
  then show ?thesis by (subst trim_front.simps) (simp add: strip_one_def)
qed

lemma TrimSpace_line:
  assumes "s \<noteq> []" and "graphic (hd s)" and "graphic (last s)"
  shows "TrimSpace s = s" and "TrimSpace (s @ ''\<newline>'') = s"
proof -
  have front: "trim_front white_space t = t" if "t \<noteq> []" "graphic (hd t)" for t
    by (rule trim_front_graphic) (use white_space_edges that in \<open>auto simp: list_all_iff\<close>)
  have rear: "trim_front (map rev white_space) (rev s) = rev s"
    by (rule trim_front_graphic) (use white_space_edges assms in \<open>auto simp: list_all_iff hd_rev\<close>)
  show "TrimSpace s = s" unfolding TrimSpace_def using front rear assms by simp
  have "strip_one (map rev white_space) (CHR ''\<newline>'' # rev s) = Some (rev s)"
    by (simp add: strip_one_def white_space_def HasPrefix_iff)
  then have "trim_front (map rev white_space) (CHR ''\<newline>'' # rev s) = rev s"
    by (subst trim_front.simps) (simp add: rear)
  then show "TrimSpace (s @ ''\<newline>'') = s" unfolding TrimSpace_def using front [of "s @ ''\<newline>''"] assms by simp
qed

section \<open>Fields\<close>

text \<open>\<open>strings.Split\<close> with a one-byte separator.\<close>

fun Split :: "string \<Rightarrow> char \<Rightarrow> string list" where
  "Split [] sep = [[]]"
| "Split (c # s) sep =
     (if c = sep then [] # Split s sep
      else case Split s sep of [] \<Rightarrow> [[c]] | f # fs \<Rightarrow> (c # f) # fs)"

lemma Split_nonempty [simp]: "Split s sep \<noteq> []"
  by (cases s) (auto split: list.split)

text \<open>\<open>strings.Join\<close>, the inverse.\<close>

fun Join :: "string list \<Rightarrow> char \<Rightarrow> string" where
  "Join [] sep = []"
| "Join [f] sep = f"
| "Join (f # g # fs) sep = f @ sep # Join (g # fs) sep"

lemma Join_Cons: "fs \<noteq> [] \<Longrightarrow> Join (f # fs) sep = f @ sep # Join fs sep"
  by (cases fs) simp_all

lemma Join_Split: "Join (Split s sep) sep = s"
proof (induction s)
  case (Cons c s)
  then show ?case
    by (cases "Split s sep") (auto simp: Join_Cons split: list.split, metis Join_Cons append_Cons Join.simps(2) list.exhaust)
qed simp

lemma Split_no_sep: "f \<in> set (Split s sep) \<Longrightarrow> sep \<notin> set f"
  by (induction s arbitrary: f) (auto split: if_splits list.splits)

lemma Split_append: "sep \<notin> set g \<Longrightarrow> Split (g @ sep # r) sep = g # Split r sep"
  by (induction g) auto

lemma Split_take: "\<exists>k. butlast (Split (take n s) sep) = take k (butlast (Split s sep))"
proof (induction s arbitrary: n)
  case (Cons c s)
  show ?case
  proof (cases n)
    case 0
    then show ?thesis by (intro exI [of _ 0]) simp
  next
    case (Suc m)
    obtain k where k: "butlast (Split (take m s) sep) = take k (butlast (Split s sep))" using Cons by blast
    obtain f fs where f: "Split s sep = f # fs" using Split_nonempty by (meson list.exhaust)
    obtain g gs where g: "Split (take m s) sep = g # gs" using Split_nonempty by (meson list.exhaust)
    show ?thesis
    proof (cases "c = sep")
      case True
      then show ?thesis using Suc k f g by (intro exI [of _ "Suc k"]) simp
    next
      case False
      show ?thesis
      proof (cases "gs = []")
        case True
        then show ?thesis using Suc False f g by (intro exI [of _ 0]) simp
      next
        case gs: False
        then have "take k (butlast (f # fs)) = g # butlast gs" using k f g by simp
        moreover from this have "fs \<noteq> []" "k \<noteq> 0" by (cases "fs = []"; cases k; simp)+
        ultimately have "f = g" "take k (butlast ((c # f) # fs)) = (c # g) # butlast gs" by (cases k; simp)+
        then show ?thesis using Suc False f g gs by (intro exI [of _ k]) simp
      qed
    qed
  qed
qed simp

lemma Split_Join: "fs \<noteq> [] \<Longrightarrow> (\<And>f. f \<in> set fs \<Longrightarrow> sep \<notin> set f) \<Longrightarrow> Split (Join fs sep) sep = fs"
proof (induction fs)
  case (Cons f fs)
  have one: "Split (g @ sep # r) sep = g # Split r sep" if "sep \<notin> set g" for g r
    using that by (induction g) auto
  have self: "Split g sep = [g]" if "sep \<notin> set g" for g using that by (induction g) auto
  show ?case
  proof (cases fs)
    case Nil
    then show ?thesis using Cons.prems self by simp
  next
    case (Cons g gs)
    then show ?thesis using Cons.IH Cons.prems one [of f] by (auto simp: Join_Cons)
  qed
qed simp

section \<open>Numbers\<close>

definition is_digit :: "char \<Rightarrow> bool" where
  "is_digit c \<longleftrightarrow> CHR ''0'' \<le> c \<and> c \<le> CHR ''9''"

definition digit_value :: "char \<Rightarrow> int" where
  "digit_value c = of_char c - 48"

fun digits_value :: "int \<Rightarrow> string \<Rightarrow> int" where
  "digits_value n [] = n"
| "digits_value n (c # s) = digits_value (10 * n + digit_value c) s"

text \<open>\<open>strconv.Atoi\<close>: an optional sign and decimal digits, in the range of a 64-bit \<open>int\<close>.\<close>

definition int_range :: "int \<Rightarrow> int option" where
  "int_range n = (if - (2 ^ 63) \<le> n \<and> n < 2 ^ 63 then Some n else None)"

definition Atoi :: "string \<Rightarrow> int option" where
  "Atoi s =
     (let (neg, ds) =
        (case s of [] \<Rightarrow> (False, []) | c # r \<Rightarrow> if c = CHR ''-'' then (True, r)
                                       else if c = CHR ''+'' then (False, r) else (False, s))
      in if ds = [] \<or> \<not> list_all is_digit ds then None
         else int_range (if neg then - digits_value 0 ds else digits_value 0 ds))"

text \<open>\<open>hex.DecodeString\<close>: pairs of hexadecimal digits of either case.\<close>

definition hex_value :: "char \<Rightarrow> int option" where
  "hex_value c =
     (let n = of_char c in
      if 48 \<le> n \<and> n \<le> 57 then Some (n - 48)
      else if 97 \<le> n \<and> n \<le> 102 then Some (n - 87)
      else if 65 \<le> n \<and> n \<le> 70 then Some (n - 55)
      else None)"

fun hex_DecodeString :: "string \<Rightarrow> bytes option" where
  "hex_DecodeString [] = Some []"
| "hex_DecodeString [c] = None"
| "hex_DecodeString (a # b # s) =
     (case (hex_value a, hex_value b, hex_DecodeString s) of
        (Some x, Some y, Some r) \<Rightarrow> Some (byte (16 * x + y) # r)
      | _ \<Rightarrow> None)"

lemma hex_DecodeString_length: "hex_DecodeString s = Some b \<Longrightarrow> length s = 2 * length b"
  by (induction s arbitrary: b rule: hex_DecodeString.induct) (auto split: option.splits)

text \<open>The lower-case encoder, for the round trip.\<close>

definition hex_digit :: "nat \<Rightarrow> char" where
  "hex_digit n = char_of (if n < 10 then n + 48 else n + 87)"

definition hex_EncodeToString :: "bytes \<Rightarrow> string" where
  "hex_EncodeToString b = concat (map (\<lambda>w. [hex_digit (unat w div 16), hex_digit (unat w mod 16)]) b)"

lemma of_char_int: "m < 256 \<Longrightarrow> (of_char (char_of (m :: nat)) :: int) = int m"
  by (metis mod_less of_char_of of_nat_of_char)

lemma hex_value_digit: "n < 16 \<Longrightarrow> hex_value (hex_digit n) = Some (int n)"
  by (auto simp: hex_value_def hex_digit_def Let_def of_char_int)

lemma hex_EncodeToString_chars: "c \<in> set (hex_EncodeToString b) \<Longrightarrow> hex_value c \<noteq> None"
proof -
  assume "c \<in> set (hex_EncodeToString b)"
  then obtain w :: "8 word" where "c = hex_digit (unat w div 16) \<or> c = hex_digit (unat w mod 16)"
    by (auto simp: hex_EncodeToString_def)
  moreover have "unat w div 16 < 16" "unat w mod 16 < 16" using unsigned_less [of w, where ?'a = nat] by simp_all
  ultimately show ?thesis by (auto simp: hex_value_digit)
qed

lemma length_hex_EncodeToString [simp]: "length (hex_EncodeToString b) = 2 * length b"
  by (induction b) (simp_all add: hex_EncodeToString_def)

lemma hex_roundtrip: "hex_DecodeString (hex_EncodeToString b) = Some b"
proof (induction b)
  case (Cons w b)
  have "unat w div 16 < 16" "unat w mod 16 < 16" using unsigned_less [of w, where ?'a = nat] by simp_all
  moreover have "byte (16 * int (unat w div 16) + int (unat w mod 16)) = w"
  proof -
    have sum: "16 * int a + int b = int (16 * a + b)" for a b by simp
    have "16 * int (unat w div 16) + int (unat w mod 16) = int (16 * (unat w div 16) + unat w mod 16)" by (rule sum)
    also have "\<dots> = int (unat w)" by (simp only: mult_div_mod_eq)
    finally have "byte (16 * int (unat w div 16) + int (unat w mod 16)) = word_of_int (int (unat w))"
      by (simp only: byte_def)
    then show ?thesis by simp
  qed
  ultimately show ?case using Cons by (simp add: hex_EncodeToString_def hex_value_digit)
qed (simp add: hex_EncodeToString_def)

interpretation hex: codec hex_EncodeToString hex_DecodeString "\<lambda>_. True"
  by unfold_locales (rule hex_roundtrip)

end
