(* ===== verification/Json.thy ===== *)
theory Json
  imports Go_Strings Float64
begin

text \<open>
  The texts \<open>encoding/json\<close> writes for the values this program marshals: strings with their
  escapes, the dynamic values of a variable, objects with given fields. The text of a finite
  \<open>float64\<close> is a parameter. The lemmas show that a JSON text holds no control character, so it
  fits on one line, and that \<open>Atoi\<close> reads the decimal text of an \<open>int\<close> back.
\<close>

section \<open>Numbers\<close>

fun nat_digits :: "nat \<Rightarrow> string" where
  "nat_digits n = (if n < 10 then [char_of (48 + n)] else nat_digits (n div 10) @ [char_of (48 + n mod 10)])"

declare nat_digits.simps [simp del]

definition Itoa :: "int \<Rightarrow> string" where
  "Itoa n = (if n < 0 then CHR ''-'' # nat_digits (nat (- n)) else nat_digits (nat n))"

lemma is_digit_iff: "is_digit c \<longleftrightarrow> 48 \<le> (of_char c :: nat) \<and> (of_char c :: nat) \<le> 57"
  by (simp add: is_digit_def less_eq_char_def)

lemma digit_char: "n < 10 \<Longrightarrow> is_digit (char_of (48 + n)) \<and> digit_value (char_of (48 + n)) = int n"
  by (simp add: is_digit_iff digit_value_def of_char_int)

lemma digits_value_append: "digits_value n (s @ [c]) = 10 * digits_value n s + digit_value c"
  by (induction s arbitrary: n) simp_all

lemma nat_digits_value: "digits_value 0 (nat_digits n) = int n \<and> list_all is_digit (nat_digits n) \<and> nat_digits n \<noteq> []"
proof (induction n rule: nat_digits.induct)
  case (1 n)
  show ?case
  proof (cases "n < 10")
    case True
    then have "nat_digits n = [char_of (48 + n)]" by (subst nat_digits.simps) simp
    then show ?thesis using True digit_char [of n] by simp
  next
    case False
    have sum: "10 * int a + int b = int (10 * a + b)" for a b by simp
    have "10 * int (n div 10) + int (n mod 10) = int (10 * (n div 10) + n mod 10)" by (rule sum)
    also have "\<dots> = int n" by (simp only: mult_div_mod_eq)
    finally have "10 * int (n div 10) + int (n mod 10) = int n" .
    moreover have "nat_digits n = nat_digits (n div 10) @ [char_of (48 + n mod 10)]"
      using False by (subst nat_digits.simps) simp
    ultimately show ?thesis using 1 [OF False] digit_char [of "n mod 10"] by (simp add: digits_value_append)
  qed
qed

lemma Itoa_nonempty [simp]: "Itoa n \<noteq> []" "[] \<noteq> Itoa n"
  using nat_digits_value [of "nat n"] by (auto simp: Itoa_def dest: sym)

lemma Atoi_Itoa:
  assumes "- (2 ^ 63) \<le> n" and "n < 2 ^ 63"
  shows "Atoi (Itoa n) = Some n"
proof (cases "n < 0")
  case True
  then show ?thesis using assms nat_digits_value [of "nat (- n)"] by (simp add: Atoi_def Itoa_def int_range_def)
next
  case False
  obtain c s where s: "nat_digits (nat n) = c # s" using nat_digits_value [of "nat n"] by (cases "nat_digits (nat n)") auto
  then have "is_digit c" using nat_digits_value [of "nat n"] by simp
  then have "c \<noteq> CHR ''-''" "c \<noteq> CHR ''+''" by (auto simp: is_digit_iff)
  then show ?thesis using False s assms nat_digits_value [of "nat n"] by (simp add: Atoi_def Itoa_def int_range_def)
qed

section \<open>Strings\<close>

text \<open>The length of the UTF-8 sequence at the head of a string, if there is a valid one.\<close>

definition cont :: "nat \<Rightarrow> bool" where
  "cont b \<longleftrightarrow> 0x80 \<le> b \<and> b \<le> 0xBF"

fun utf8_len :: "nat list \<Rightarrow> nat option" where
  "utf8_len [] = None"
| "utf8_len (a # s) =
     (if a < 0x80 then Some 1
      else if 0xC2 \<le> a \<and> a \<le> 0xDF then
        (case s of b # _ \<Rightarrow> if cont b then Some 2 else None | _ \<Rightarrow> None)
      else if 0xE0 \<le> a \<and> a \<le> 0xEF then
        (case s of
           b # c # _ \<Rightarrow>
             if cont b \<and> cont c \<and> (a = 0xE0 \<longrightarrow> 0xA0 \<le> b) \<and> (a = 0xED \<longrightarrow> b \<le> 0x9F) then Some 3 else None
         | _ \<Rightarrow> None)
      else if 0xF0 \<le> a \<and> a \<le> 0xF4 then
        (case s of
           b # c # d # _ \<Rightarrow>
             if cont b \<and> cont c \<and> cont d \<and> (a = 0xF0 \<longrightarrow> 0x90 \<le> b) \<and> (a = 0xF4 \<longrightarrow> b \<le> 0x8F)
             then Some 4 else None
         | _ \<Rightarrow> None)
      else None)"

lemma utf8_len_pos: "utf8_len s = Some n \<Longrightarrow> 0 < n"
  by (cases s) (auto split: if_splits list.splits)

definition unicode_escape :: "nat \<Rightarrow> string" where
  "unicode_escape n =
     [CHR 0x5C, CHR ''u'', hex_digit (n div 4096 mod 16), hex_digit (n div 256 mod 16), hex_digit (n div 16 mod 16),
              hex_digit (n mod 16)]"

text \<open>An ASCII character; \<open><\<close>, \<open>>\<close> and \<open>&\<close> are escaped too, as \<open>json.Marshal\<close> does.\<close>

definition ascii_escape :: "char \<Rightarrow> string" where
  "ascii_escape c =
     (let n = (of_char c :: nat) in
      if c = CHR 0x22 \<or> c = CHR 0x5C then [CHR 0x5C, c]
      else if n = 8 then [CHR 0x5C, CHR ''b'']
      else if n = 12 then [CHR 0x5C, CHR ''f'']
      else if n = 10 then [CHR 0x5C, CHR ''n'']
      else if n = 13 then [CHR 0x5C, CHR ''r'']
      else if n = 9 then [CHR 0x5C, CHR ''t'']
      else if n < 32 \<or> c = CHR ''<'' \<or> c = CHR ''>'' \<or> c = CHR ''&'' then unicode_escape n
      else [c])"

definition line_separators :: "string list" where
  "line_separators = [[CHR 0xE2, CHR 0x80, CHR 0xA8], [CHR 0xE2, CHR 0x80, CHR 0xA9]]"

function escape :: "string \<Rightarrow> string" where
  "escape [] = []"
| "escape (c # s) =
     (case utf8_len (map of_char (c # s)) of
        None \<Rightarrow> unicode_escape 0xFFFD @ escape s
      | Some n \<Rightarrow>
          if n = 1 then ascii_escape c @ escape s
          else let r = take n (c # s)
               in (if r = line_separators ! 0 then unicode_escape 0x2028
                   else if r = line_separators ! 1 then unicode_escape 0x2029 else r) @ escape (drop n (c # s)))"
  by pat_completeness auto
termination
proof (relation "measure length")
  fix c s n
  assume "utf8_len (map of_char (c # s)) = Some n"
  then have "0 < n" by (rule utf8_len_pos)
  then show "(drop n (c # s), c # s) \<in> measure length" by simp
qed auto

declare escape.simps(2) [simp del]

definition quote :: "string \<Rightarrow> string" where
  "quote s = CHR 0x22 # escape s @ [CHR 0x22]"

section \<open>Values\<close>

fun commas :: "string list \<Rightarrow> string" where
  "commas [] = []"
| "commas [s] = s"
| "commas (s # t # r) = s @ CHR '','' # commas (t # r)"

definition object :: "(string \<times> string) list \<Rightarrow> string" where
  "object fs = ''{'' @ commas (map (\<lambda>(k, t). quote k @ CHR '':'' # t) fs) @ ''}''"

text \<open>
  \<open>json.Marshal\<close> of a dynamic value: it fails on a NaN or an infinity anywhere inside; the keys of
  a map come out sorted.
\<close>

fun all_some :: "'a option list \<Rightarrow> 'a list option" where
  "all_some [] = Some []"
| "all_some (x # xs) = (case x of None \<Rightarrow> None | Some y \<Rightarrow> map_option ((#) y) (all_some xs))"

fun marshal_any :: "(f64 \<Rightarrow> string) \<Rightarrow> any \<Rightarrow> string option" where
  "marshal_any fmt ANil = Some ''null''"
| "marshal_any fmt (ABool b) = Some (if b then ''true'' else ''false'')"
| "marshal_any fmt (AInt n) = Some (Itoa n)"
| "marshal_any fmt (AInt64 n) = Some (Itoa n)"
| "marshal_any fmt (AFloat x) = (case x of Fin _ \<Rightarrow> Some (fmt x) | _ \<Rightarrow> None)"
| "marshal_any fmt (AStr s) = Some (quote s)"
| "marshal_any fmt (AArr xs) = map_option (\<lambda>ts. ''['' @ commas ts @ '']'') (all_some (map (marshal_any fmt) xs))"
| "marshal_any fmt (AObj kvs) =
     map_option object
       (all_some (map (\<lambda>(k, t). map_option (Pair k) t) (sort_key fst (map (\<lambda>(k, v). (k, marshal_any fmt v)) kvs))))"

section \<open>One line\<close>

text \<open>No control character: in particular no line feed and no carriage return.\<close>

definition one_line :: "string \<Rightarrow> bool" where
  "one_line s \<longleftrightarrow> (\<forall>c \<in> set s. 32 \<le> (of_char c :: nat))"

lemma one_line_simps [simp]:
  "one_line []" "one_line (s @ t) \<longleftrightarrow> one_line s \<and> one_line t"
  "one_line (c # s) \<longleftrightarrow> 32 \<le> (of_char c :: nat) \<and> one_line s"
  by (auto simp: one_line_def)

lemma one_line_no_newline: "one_line s \<Longrightarrow> CHR 0x0A \<notin> set s"
  by (auto simp: one_line_def)

lemma of_char_nat: "n < 256 \<Longrightarrow> (of_char (char_of (n :: nat)) :: nat) = n"
  by simp

lemma hex_digit_line: "n < 16 \<Longrightarrow> 32 \<le> (of_char (hex_digit n) :: nat)"
  by (simp add: hex_digit_def)

lemma unicode_escape_line: "one_line (unicode_escape n)"
  by (simp add: unicode_escape_def hex_digit_line)

lemma ascii_escape_line: "one_line (ascii_escape c)"
  by (auto simp: ascii_escape_def Let_def unicode_escape_line)

lemma utf8_take_high:
  assumes "utf8_len (map of_char s) = Some n" and "n \<noteq> 1"
  shows "one_line (take n s)"
proof (cases s)
  case (Cons c r)
  note len = assms(1) [unfolded Cons]
  from len assms(2) consider "n = 2" | "n = 3" | "n = 4" by (auto split: if_splits list.splits)
  then show ?thesis
    using len
    by cases (auto simp: Cons cont_def numeral_2_eq_2 numeral_3_eq_3 eval_nat_numeral take_Suc_Cons map_eq_Cons_conv
        split: if_splits list.splits)
qed simp

lemma escape_line: "one_line (escape s)"
proof (induction s rule: escape.induct)
  case (2 c s)
  show ?case
  proof (cases "utf8_len (map of_char (c # s))")
    case None
    then show ?thesis using 2(1) by (simp add: escape.simps(2) unicode_escape_line)
  next
    case (Some n)
    show ?thesis
    proof (cases "n = 1")
      case True
      then show ?thesis using 2(2) [OF Some True] Some by (simp add: escape.simps(2) ascii_escape_line)
    next
      case False
      then show ?thesis
        using 2(3) [OF Some False refl] Some utf8_take_high [OF Some False]
        by (simp add: escape.simps(2) Let_def unicode_escape_line)
    qed
  qed
qed simp

lemma quote_line: "one_line (quote s)"
  by (simp add: quote_def escape_line)

lemma nat_digits_line: "one_line (nat_digits n)"
proof (induction n rule: nat_digits.induct)
  case (1 n)
  then show ?case by (subst nat_digits.simps) simp
qed

lemma Itoa_line: "one_line (Itoa n)"
  by (simp add: Itoa_def nat_digits_line)

lemma commas_line: "(\<And>t. t \<in> set ts \<Longrightarrow> one_line t) \<Longrightarrow> one_line (commas ts)"
  by (induction ts rule: commas.induct) auto

lemma object_line: "(\<And>k t. (k, t) \<in> set fs \<Longrightarrow> one_line t) \<Longrightarrow> one_line (object fs)"
  by (auto simp: object_def quote_line intro!: commas_line)

lemma all_some_eq: "all_some xs = Some ys \<longleftrightarrow> xs = map Some ys"
  by (induction xs arbitrary: ys) (auto split: option.splits)

lemma marshal_any_line:
  assumes "\<And>q. one_line (fmt (Fin q))"
  shows "marshal_any fmt v = Some t \<Longrightarrow> one_line t"
proof (induction v arbitrary: t)
  case (AFloat x)
  then show ?case using assms by (auto split: f64.splits)
next
  case (AArr xs)
  then obtain ts where ts: "map (marshal_any fmt) xs = map Some ts" "t = ''['' @ commas ts @ '']''"
    by (auto simp: all_some_eq)
  have "one_line u" if "u \<in> set ts" for u
  proof -
    have "Some u \<in> set (map (marshal_any fmt) xs)" using that ts(1) by simp
    then show ?thesis using AArr(1) by auto
  qed
  then show ?case using ts(2) commas_line by simp
next
  case (AObj kvs)
  then obtain ts where ts: "map (\<lambda>(k, t). map_option (Pair k) t) (sort_key fst (map (\<lambda>(k, v). (k, marshal_any fmt v)) kvs)) =
      map Some ts" "t = object ts"
    by (auto simp: all_some_eq)
  have "one_line u" if "(k, u) \<in> set ts" for k u
  proof -
    have "Some (k, u) \<in> set (map (\<lambda>(k, t). map_option (Pair k) t) (sort_key fst (map (\<lambda>(k, v). (k, marshal_any fmt v)) kvs)))"
      using that ts(1) by simp
    then obtain k' v where v: "(k', v) \<in> set kvs" "Some (k, u) = map_option (Pair k') (marshal_any fmt v)" by auto
    then have "k' = k" "marshal_any fmt v = Some u" by (cases "marshal_any fmt v"; simp)+
    with v(1) show ?thesis using AObj(1) [of "(k, v)" v] by (simp add: snds.simps)
  qed
  then show ?case using ts(2) object_line by blast
qed (auto simp: quote_line Itoa_line split: if_splits)

end
