(* ===== verification/Der.thy ===== *)
theory Der
  imports Go_Strings
begin

text \<open>
  The distinguished encoding of ASN.1 values, as a reference for the certificate builder: values
  as trees of primitive and constructed elements, their encoder with minimal definite lengths, a
  strict reader that accepts nothing but that encoding, and the round trip. The value of an
  INTEGER's contents is its big-endian number.
\<close>

section \<open>Values and their encoding\<close>

datatype der =
    Primitive "8 word" bytes
  | Constructed "8 word" "der list"

text \<open>Bit 6 of the identifier octet tells constructed from primitive.\<close>

definition constructed_tag :: "8 word \<Rightarrow> bool" where
  "constructed_tag t = bit t 5"

definition der_length :: "nat \<Rightarrow> bytes" where
  "der_length n =
     (if n < 128 then [of_nat n]
      else if n < 256 then [0x81, of_nat n]
      else [0x82, of_nat (n div 256), of_nat (n mod 256)])"

definition tlv :: "8 word \<Rightarrow> bytes \<Rightarrow> bytes" where
  "tlv t content = t # der_length (length content) @ content"

fun der_encode :: "der \<Rightarrow> bytes" and der_encodes :: "der list \<Rightarrow> bytes" where
  "der_encode (Primitive t b) = tlv t b"
| "der_encode (Constructed t ds) = tlv t (der_encodes ds)"
| "der_encodes [] = []"
| "der_encodes (d # ds) = der_encode d @ der_encodes ds"

fun der_ok :: "der \<Rightarrow> bool" where
  "der_ok (Primitive t b) \<longleftrightarrow> \<not> constructed_tag t \<and> length b < 65536"
| "der_ok (Constructed t ds) \<longleftrightarrow>
     constructed_tag t \<and> length (der_encodes ds) < 65536 \<and> list_all der_ok ds"

section \<open>The strict reader\<close>

text \<open>A length and the bytes after it; a longer form than needed is refused.\<close>

definition read_length :: "bytes \<Rightarrow> (nat \<times> bytes) option" where
  "read_length bs =
     (case bs of
        [] \<Rightarrow> None
      | a # r \<Rightarrow>
          if unat a < 128 then Some (unat a, r)
          else if a = 0x81 then
            (case r of b # r \<Rightarrow> if unat b < 128 then None else Some (unat b, r) | [] \<Rightarrow> None)
          else if a = 0x82 then
            (case r of
               b # c # r \<Rightarrow> if unat b = 0 then None else Some (256 * unat b + unat c, r)
             | _ \<Rightarrow> None)
          else None)"

text \<open>The fuel bounds the nesting and the number of elements; the length of the input is enough.\<close>

fun der_read :: "nat \<Rightarrow> bytes \<Rightarrow> (der \<times> bytes) option"
  and der_reads :: "nat \<Rightarrow> bytes \<Rightarrow> der list option" where
  "der_read 0 bs = None"
| "der_read (Suc n) [] = None"
| "der_read (Suc n) (t # bs) =
     (case read_length bs of
        None \<Rightarrow> None
      | Some (k, r) \<Rightarrow>
          if length r < k then None
          else if constructed_tag t then
            (case der_reads n (take k r) of
               None \<Rightarrow> None | Some ds \<Rightarrow> Some (Constructed t ds, drop k r))
          else Some (Primitive t (take k r), drop k r))"
| "der_reads n [] = Some []"
| "der_reads 0 (b # bs) = None"
| "der_reads (Suc n) (b # bs) =
     (case der_read n (b # bs) of
        None \<Rightarrow> None
      | Some (d, r) \<Rightarrow> (case der_reads n r of None \<Rightarrow> None | Some ds \<Rightarrow> Some (d # ds)))"

definition der_parse :: "bytes \<Rightarrow> der option" where
  "der_parse bs =
     (case der_read (2 * length bs) bs of Some (d, []) \<Rightarrow> Some d | _ \<Rightarrow> None)"

section \<open>Round trip\<close>

lemma read_length_encode: "n < 65536 \<Longrightarrow> read_length (der_length n @ r) = Some (n, r)"
proof -
  assume n: "n < 65536"
  consider "n < 128" | "128 \<le> n" "n < 256" | "256 \<le> n" by linarith
  then show ?thesis
  proof cases
    case 1
    then show ?thesis by (simp add: der_length_def read_length_def unat_of_nat)
  next
    case 2
    then show ?thesis by (simp add: der_length_def read_length_def unat_of_nat)
  next
    case 3
    have "n div 256 < 256" "n div 256 \<noteq> 0" using n 3 by auto
    then show ?thesis using n 3 by (simp add: der_length_def read_length_def unat_of_nat)
  qed
qed

lemma der_length_pos: "0 < length (der_length n)"
  by (simp add: der_length_def)

lemma tlv_read:
  assumes "length b < 65536"
  shows "\<exists>u. tlv t b = t # u \<and> read_length (u @ r) = Some (length b, b @ r)"
  using read_length_encode [OF assms, of "b @ r"] by (simp add: tlv_def)

lemma der_encode_length: "2 \<le> length (der_encode d)"
  using der_length_pos by (cases d) (auto simp: tlv_def Suc_le_eq)

lemma der_roundtrip_fuel:
  "der_ok d \<Longrightarrow> 2 * length (der_encode d) \<le> Suc n \<Longrightarrow> der_read n (der_encode d @ r) = Some (d, r)"
  "list_all der_ok ds \<Longrightarrow> 2 * length (der_encodes ds) \<le> n \<Longrightarrow> der_reads n (der_encodes ds) = Some ds"
proof (induction d and ds arbitrary: n r and n rule: der_encode_der_encodes.induct)
  case (1 t b)
  then obtain m where n: "n = Suc m" using der_encode_length [of "Primitive t b"] by (cases n) auto
  obtain u where u: "tlv t b = t # u" "read_length (u @ r) = Some (length b, b @ r)"
    using tlv_read [of b t r] 1 by auto
  then show ?case using 1 n by simp
next
  case (2 t ds)
  then obtain m where n: "n = Suc m" using der_encode_length [of "Constructed t ds"] by (cases n) auto
  obtain u where u: "tlv t (der_encodes ds) = t # u"
    "read_length (u @ r) = Some (length (der_encodes ds), der_encodes ds @ r)"
    using tlv_read [of "der_encodes ds" t r] 2 by auto
  have "2 * length (der_encodes ds) \<le> m" using 2(3) n by (simp add: tlv_def)
  then have "der_reads m (der_encodes ds) = Some ds" using 2 by simp
  then show ?case using 2 n u by simp
next
  case (3)
  then show ?case by simp
next
  case (4 d ds)
  have len: "2 \<le> length (der_encode d)" by (rule der_encode_length)
  obtain m where n: "n = Suc m" using 4(4) len by (cases n) auto
  obtain b bs where e: "der_encode d @ der_encodes ds = b # bs" using len by (cases "der_encode d") auto
  have fuel: "2 * length (der_encode d) \<le> Suc m" "2 * length (der_encodes ds) \<le> m" using 4(4) n len by simp_all
  have "der_read m (der_encode d @ der_encodes ds) = Some (d, der_encodes ds)" using 4(1,3) fuel by simp
  moreover have "der_reads m (der_encodes ds) = Some ds" using 4(2,3) fuel by simp
  ultimately show ?case using n e by simp
qed

lemma der_roundtrip: "der_ok d \<Longrightarrow> der_parse (der_encode d) = Some d"
  using der_roundtrip_fuel(1) [of d "2 * length (der_encode d)" "[]"] by (simp add: der_parse_def)

interpretation der: codec der_encode der_parse der_ok
  by unfold_locales (rule der_roundtrip)

section \<open>Integers\<close>

text \<open>The number of a big-endian octet string.\<close>

definition octets_value :: "bytes \<Rightarrow> nat" where
  "octets_value bs = foldl (\<lambda>n b. 256 * n + unat b) 0 bs"

text \<open>Contents of a non-negative INTEGER: not negative, and no superfluous leading octet.\<close>

definition unsigned_integer :: "bytes \<Rightarrow> bool" where
  "unsigned_integer bs \<longleftrightarrow>
     (case bs of
        [] \<Rightarrow> False
      | b # r \<Rightarrow> \<not> bit b 7 \<and> (b = 0 \<longrightarrow> (case r of [] \<Rightarrow> True | c # _ \<Rightarrow> bit c 7)))"

lemma octets_value_zero [simp]: "octets_value (0 # bs) = octets_value bs"
  by (simp add: octets_value_def)

lemma octets_value_drop_zeros: "octets_value (dropWhile (\<lambda>b. b = 0) bs) = octets_value bs"
  by (induction bs) auto

end
