(* ===== verification/Cbor.thy ===== *)
theory Cbor
  imports Json Der
begin

text \<open>
  CBOR data items, the wire format of \<open>internal/senml\<close> and \<open>internal/mqtt/command\<close>. The library the
  program calls (\<open>fxamacker/cbor\<close>) is not part of the repository: its encoder and its decoder are
  arguments of the definitions that use them, and what the program relies on is \<open>cbor_library\<close>: an
  item within the limits the library documents decodes to itself. The encoding of RFC 8949 (integers
  and lengths in their shortest form, floats in eight bytes) is one such library: it is defined here
  with a reader, and the witnesses use it.
\<close>

section \<open>Data items\<close>

text \<open>The items the program's values become. The keys of a map are integers (\<open>keyasint\<close>).\<close>

datatype cbor_item =
    CInt int
  | CBytes bytes
  | CText string
  | CArray "cbor_item list"
  | CMap "(int \<times> cbor_item) list"
  | CTag nat cbor_item
  | CBool bool
  | CNull
  | CFloat f64

datatype cbor_error = CborError string

text \<open>A valid UTF-8 text.\<close>

function utf8_valid :: "string \<Rightarrow> bool" where
  "utf8_valid [] = True"
| "utf8_valid (c # s) =
     (case utf8_len (map of_char (c # s)) of None \<Rightarrow> False | Some n \<Rightarrow> utf8_valid (drop n (c # s)))"
  by pat_completeness auto
termination
proof (relation "measure length")
  fix c s n
  assume "utf8_len (map of_char (c # s)) = Some n"
  then have "0 < n" by (rule utf8_len_pos)
  then show "(drop n (c # s), c # s) \<in> measure length" by simp
qed simp

lemma utf8_valid_ascii: "list_all (\<lambda>c. of_char c < (0x80 :: nat)) s \<Longrightarrow> utf8_valid s"
  by (induction s) simp_all

text \<open>
  The limits of the library's decoder in its default configuration: 64-bit heads, valid texts,
  at most 131072 elements or pairs, distinct keys, and 32 levels of nesting.
\<close>

definition maxElements :: nat where
  "maxElements = 131072"

definition maxNesting :: nat where
  "maxNesting = 32"

definition head_range :: "nat \<Rightarrow> bool" where
  "head_range n \<longleftrightarrow> n < 2 ^ 64"

definition text_ok :: "string \<Rightarrow> bool" where
  "text_ok s \<longleftrightarrow> head_range (length s) \<and> utf8_valid s"

fun cbor_wf :: "cbor_item \<Rightarrow> bool" where
  "cbor_wf (CInt i) \<longleftrightarrow> - (2 ^ 64) \<le> i \<and> i < 2 ^ 64"
| "cbor_wf (CBytes b) \<longleftrightarrow> head_range (length b)"
| "cbor_wf (CText s) \<longleftrightarrow> text_ok s"
| "cbor_wf (CArray xs) \<longleftrightarrow> length xs \<le> maxElements \<and> list_all cbor_wf xs"
| "cbor_wf (CMap kvs) \<longleftrightarrow> length kvs \<le> maxElements \<and> distinct (map fst kvs) \<and>
     list_all (\<lambda>(k, v). - (2 ^ 64) \<le> k \<and> k < 2 ^ 64 \<and> cbor_wf v) kvs"
| "cbor_wf (CTag t i) \<longleftrightarrow> head_range t \<and> cbor_wf i"
| "cbor_wf (CBool b) \<longleftrightarrow> True"
| "cbor_wf CNull \<longleftrightarrow> True"
| "cbor_wf (CFloat x) \<longleftrightarrow> is_f64 x"

fun nesting :: "cbor_item \<Rightarrow> nat" where
  "nesting (CArray xs) = Suc (fold max (map nesting xs) 0)"
| "nesting (CMap kvs) = Suc (fold max (map (\<lambda>(k, v). nesting v) kvs) 0)"
| "nesting (CTag t i) = Suc (nesting i)"
| "nesting _ = 0"

definition cbor_ok :: "cbor_item \<Rightarrow> bool" where
  "cbor_ok i \<longleftrightarrow> cbor_wf i \<and> nesting i \<le> maxNesting"

fun text_field :: "cbor_item \<Rightarrow> string option" where
  "text_field (CText s) = Some s"
| "text_field _ = None"

text \<open>What the program relies on of the library.\<close>

type_synonym cbor_enc = "cbor_item \<Rightarrow> (cbor_error, bytes) result"
type_synonym cbor_dec = "bytes \<Rightarrow> (cbor_error, cbor_item) result"

definition cbor_library :: "cbor_enc \<Rightarrow> cbor_dec \<Rightarrow> bool" where
  "cbor_library enc dec \<longleftrightarrow> (\<forall>i b. cbor_ok i \<and> enc i = Inr b \<longrightarrow> dec b = Inr i)"

lemma cbor_libraryD: "cbor_library enc dec \<Longrightarrow> cbor_ok i \<Longrightarrow> enc i = Inr b \<Longrightarrow> dec b = Inr i"
  by (simp add: cbor_library_def)

section \<open>RFC 8949\<close>

text \<open>
  The head of an item: its major type and an argument, in the initial byte or in the 1, 2, 4 or 8
  bytes that follow it.
\<close>

fun be_bytes :: "nat \<Rightarrow> nat \<Rightarrow> bytes" where
  "be_bytes 0 n = []"
| "be_bytes (Suc k) n = be_bytes k (n div 256) @ [of_nat n]"

definition initial_byte :: "nat \<Rightarrow> nat \<Rightarrow> 8 word" where
  "initial_byte major info = of_nat (32 * major + info)"

definition wide_head :: "nat \<Rightarrow> nat \<Rightarrow> nat \<Rightarrow> bytes" where
  "wide_head major info n = initial_byte major info # be_bytes (2 ^ (info - 24)) n"

definition cbor_head :: "nat \<Rightarrow> nat \<Rightarrow> bytes" where
  "cbor_head major n =
     (if n < 24 then [initial_byte major n]
      else wide_head major (if n < 2 ^ 8 then 24 else if n < 2 ^ 16 then 25 else if n < 2 ^ 32 then 26 else 27) n)"

definition int_head :: "int \<Rightarrow> bytes" where
  "int_head i = (if 0 \<le> i then cbor_head 0 (nat i) else cbor_head 1 (nat (- 1 - i)))"

fun cbor_encode :: "cbor_item \<Rightarrow> bytes"
  and cbor_encodes :: "cbor_item list \<Rightarrow> bytes"
  and cbor_encode_pairs :: "(int \<times> cbor_item) list \<Rightarrow> bytes" where
  "cbor_encode (CInt i) = int_head i"
| "cbor_encode (CBytes b) = cbor_head 2 (length b) @ b"
| "cbor_encode (CText s) = cbor_head 3 (length s) @ bytes_of s"
| "cbor_encode (CArray xs) = cbor_head 4 (length xs) @ cbor_encodes xs"
| "cbor_encode (CMap kvs) = cbor_head 5 (length kvs) @ cbor_encode_pairs kvs"
| "cbor_encode (CTag t i) = cbor_head 6 t @ cbor_encode i"
| "cbor_encode (CBool b) = [if b then 0xF5 else 0xF4]"
| "cbor_encode CNull = [0xF6]"
| "cbor_encode (CFloat x) = wide_head 7 27 (f64_bits x)"
| "cbor_encodes [] = []"
| "cbor_encodes (x # xs) = cbor_encode x @ cbor_encodes xs"
| "cbor_encode_pairs [] = []"
| "cbor_encode_pairs ((k, v) # kvs) = int_head k @ cbor_encode v @ cbor_encode_pairs kvs"

text \<open>The reader. The fuel bounds the nesting and the number of items; twice the input is enough.\<close>

definition read_head :: "bytes \<Rightarrow> (nat \<times> nat \<times> nat \<times> bytes) option" where
  "read_head bs =
     (case bs of
        [] \<Rightarrow> None
      | b # r \<Rightarrow>
          let major = unat b div 32; info = unat b mod 32; k = 2 ^ (info - 24)
          in if info < 24 then Some (major, info, info, r)
             else if 27 < info \<or> length r < k then None
             else Some (major, info, octets_value (take k r), drop k r))"

definition read_int :: "bytes \<Rightarrow> (int \<times> bytes) option" where
  "read_int bs =
     (case read_head bs of
        Some (major, info, n, r) \<Rightarrow>
          if major = 0 then Some (int n, r) else if major = 1 then Some (- 1 - int n, r) else None
      | None \<Rightarrow> None)"

definition read_simple :: "nat \<Rightarrow> nat \<Rightarrow> cbor_item option" where
  "read_simple info n =
     (if info = 20 then Some (CBool False) else if info = 21 then Some (CBool True)
      else if info = 22 then Some CNull else if info = 27 then Some (CFloat (f64_of_bits n)) else None)"

fun cbor_read :: "nat \<Rightarrow> bytes \<Rightarrow> (cbor_item \<times> bytes) option"
  and cbor_reads :: "nat \<Rightarrow> nat \<Rightarrow> bytes \<Rightarrow> (cbor_item list \<times> bytes) option"
  and cbor_read_pairs :: "nat \<Rightarrow> nat \<Rightarrow> bytes \<Rightarrow> ((int \<times> cbor_item) list \<times> bytes) option" where
  "cbor_read 0 bs = None"
| "cbor_read (Suc f) bs =
     (case read_head bs of
        None \<Rightarrow> None
      | Some (major, info, n, r) \<Rightarrow>
          if major = 0 then Some (CInt (int n), r)
          else if major = 1 then Some (CInt (- 1 - int n), r)
          else if major = 2 then if length r < n then None else Some (CBytes (take n r), drop n r)
          else if major = 3 then
            if length r < n then None else Some (CText (map (\<lambda>b. char_of (unat b)) (take n r)), drop n r)
          else if major = 4 then map_option (map_prod CArray id) (cbor_reads f n r)
          else if major = 5 then map_option (map_prod CMap id) (cbor_read_pairs f n r)
          else if major = 6 then map_option (map_prod (CTag n) id) (cbor_read f r)
          else map_option (\<lambda>i. (i, r)) (read_simple info n))"
| "cbor_reads f 0 bs = Some ([], bs)"
| "cbor_reads 0 (Suc k) bs = None"
| "cbor_reads (Suc f) (Suc k) bs =
     (case cbor_read f bs of
        None \<Rightarrow> None
      | Some (x, r) \<Rightarrow> map_option (map_prod (Cons x) id) (cbor_reads f k r))"
| "cbor_read_pairs f 0 bs = Some ([], bs)"
| "cbor_read_pairs 0 (Suc k) bs = None"
| "cbor_read_pairs (Suc f) (Suc k) bs =
     (case read_int bs of
        None \<Rightarrow> None
      | Some (i, r) \<Rightarrow>
          (case cbor_read f r of
             None \<Rightarrow> None
           | Some (v, r) \<Rightarrow> map_option (map_prod (Cons (i, v)) id) (cbor_read_pairs f k r)))"

definition cbor_parse :: "bytes \<Rightarrow> cbor_item option" where
  "cbor_parse bs = (case cbor_read (2 * length bs) bs of Some (i, []) \<Rightarrow> Some i | _ \<Rightarrow> None)"

section \<open>Round trip\<close>

lemma length_be_bytes [simp]: "length (be_bytes k n) = k"
  by (induction k n rule: be_bytes.induct) simp_all

lemma be_bytes_4: "be_bytes 4 n = [of_nat (n div 16777216), of_nat (n div 65536), of_nat (n div 256), of_nat n]"
proof -
  have four: "(4 :: nat) = Suc (Suc (Suc (Suc 0)))" by simp
  show ?thesis unfolding four be_bytes.simps by (simp flip: div_mult2_eq)
qed

lemma octets_value_snoc: "octets_value (bs @ [b]) = 256 * octets_value bs + unat b"
  by (simp add: octets_value_def)

lemma be_bytes_value: "n < 256 ^ k \<Longrightarrow> octets_value (be_bytes k n) = n"
proof (induction k n rule: be_bytes.induct)
  case (2 k n)
  then have "n div 256 < 256 ^ k" by (simp add: less_mult_imp_div_less mult.commute)
  then show ?case using 2 by (simp add: octets_value_snoc unat_of_nat)
qed (simp add: octets_value_def)

lemma unat_initial_byte: "major < 8 \<Longrightarrow> info < 32 \<Longrightarrow> unat (initial_byte major info) = 32 * major + info"
  unfolding initial_byte_def unat_of_nat by simp

lemma read_wide_head:
  assumes "major < 8" and "24 \<le> info" "info \<le> 27" and "n < 256 ^ 2 ^ (info - 24)"
  shows "read_head (wide_head major info n @ r) = Some (major, info, n, r)"
  using assms by (simp add: read_head_def wide_head_def be_bytes_value unat_initial_byte Let_def)

lemma read_cbor_head:
  assumes "major < 8" and "n < 2 ^ 64"
  obtains info where "read_head (cbor_head major n @ r) = Some (major, info, n, r)"
proof (cases "n < 24")
  case True
  then show ?thesis
    using assms(1) that [of n] by (simp add: read_head_def cbor_head_def unat_initial_byte Let_def)
next
  case False
  define info :: nat where
    "info = (if n < 2 ^ 8 then 24 else if n < 2 ^ 16 then 25 else if n < 2 ^ 32 then 26 else 27)"
  have "n < 256 ^ 2 ^ (info - 24)" using assms(2) by (simp add: info_def)
  moreover have "24 \<le> info" "info \<le> 27" by (simp_all add: info_def)
  ultimately have "read_head (wide_head major info n @ r) = Some (major, info, n, r)"
    using read_wide_head assms(1) by blast
  moreover have "cbor_head major n = wide_head major info n" using False unfolding cbor_head_def info_def by simp
  ultimately show ?thesis using that by simp
qed

lemma cbor_head_nonempty [simp]: "cbor_head major n \<noteq> []" "int_head i \<noteq> []" "wide_head major info n \<noteq> []"
  by (simp_all add: cbor_head_def int_head_def wide_head_def)

lemma cbor_encode_nonempty [simp]: "cbor_encode i \<noteq> []"
  by (cases i) simp_all

lemma read_int_head:
  assumes "- (2 ^ 64) \<le> i" and "i < 2 ^ 64"
  shows "read_int (int_head i @ r) = Some (i, r)"
proof (cases "0 \<le> i")
  case True
  then have "nat i < 2 ^ 64" using assms(2) by (simp add: nat_less_iff)
  then obtain info where "read_head (cbor_head 0 (nat i) @ r) = Some (0, info, nat i, r)"
    using read_cbor_head [of 0 "nat i" r] by auto
  then show ?thesis using True by (simp add: read_int_def int_head_def)
next
  case False
  then have "nat (- 1 - i) < 2 ^ 64" using assms(1) by (simp add: nat_less_iff)
  then obtain info where "read_head (cbor_head 1 (nat (- 1 - i)) @ r) = Some (1, info, nat (- 1 - i), r)"
    using read_cbor_head [of 1 "nat (- 1 - i)" r] by auto
  then show ?thesis using False by (simp add: read_int_def int_head_def)
qed

lemma cbor_read_int: "read_int bs = Some (i, r) \<Longrightarrow> cbor_read (Suc f) bs = Some (CInt i, r)"
  by (auto simp: read_int_def split: option.splits if_splits)

lemma unat_of_char: "unat (of_char c :: 8 word) = of_char c"
proof -
  have "unat (of_nat (of_char c) :: 8 word) = of_char c"
    using nat_of_char_less_256 [of c] by (simp only: unat_of_nat) simp
  then show ?thesis by (simp only: of_nat_of_char)
qed

lemma text_bytes [simp]: "map (\<lambda>b. char_of (unat b)) (bytes_of s) = s"
  by (simp add: bytes_of_def unat_of_char comp_def)


lemma fuel_left: "bs \<noteq> [] \<Longrightarrow> 2 * length bs \<le> Suc f \<Longrightarrow> \<exists>g. f = Suc g"
  by (cases bs; cases f) auto

lemma head_step:
  assumes "2 * length (cbor_head major n @ body) \<le> Suc f" and "major < 8" and "n < 2 ^ 64"
  obtains g info where "f = Suc g" "2 * length body \<le> g"
    "read_head (cbor_head major n @ body @ r) = Some (major, info, n, body @ r)"
proof -
  have "1 \<le> length (cbor_head major n)" by (cases "cbor_head major n") simp_all
  then have "f = Suc (f - 1)" "2 * length body \<le> f - 1" using assms(1) by simp_all
  then show ?thesis using read_cbor_head [OF assms(2,3), of "body @ r"] that by blast
qed

lemma list_step:
  assumes "2 * length (pre @ cbor_encode x @ body) \<le> f"
  obtains g where "f = Suc g" "2 * length (cbor_encode x) \<le> Suc g" "2 * length body \<le> g"
proof -
  have "1 \<le> length (cbor_encode x)" by (cases "cbor_encode x") simp_all
  then show ?thesis using assms that [of "f - 1"] by simp
qed

lemma cbor_roundtrip_fuel:
  "cbor_wf i \<Longrightarrow> 2 * length (cbor_encode i) \<le> Suc f \<Longrightarrow> cbor_read f (cbor_encode i @ r) = Some (i, r)"
  "list_all cbor_wf xs \<Longrightarrow> 2 * length (cbor_encodes xs) \<le> f \<Longrightarrow>
     cbor_reads f (length xs) (cbor_encodes xs @ r) = Some (xs, r)"
  "list_all (\<lambda>(k, v). - (2 ^ 64) \<le> k \<and> k < 2 ^ 64 \<and> cbor_wf v) kvs \<Longrightarrow> 2 * length (cbor_encode_pairs kvs) \<le> f \<Longrightarrow>
     cbor_read_pairs f (length kvs) (cbor_encode_pairs kvs @ r) = Some (kvs, r)"
proof (induction i and xs and kvs arbitrary: f r and f r and f r
    rule: cbor_encode_cbor_encodes_cbor_encode_pairs.induct)
  case (1 i)
  then obtain g where "f = Suc g" using fuel_left [of "int_head i"] by auto
  then show ?case using cbor_read_int [OF read_int_head] 1 by simp
next
  case (2 b)
  from 2(2) have "2 * length (cbor_head 2 (length b) @ b) \<le> Suc f" by simp
  then show ?case using 2(1) by (elim head_step [of 2 _ _ _ r]) (simp_all add: head_range_def)
next
  case (3 s)
  from 3(2) have "2 * length (cbor_head 3 (length s) @ bytes_of s) \<le> Suc f" by simp
  then show ?case using 3(1) by (elim head_step [of 3 _ _ _ r]) (simp_all add: text_ok_def head_range_def)
next
  case (4 xs)
  from 4(3) have "2 * length (cbor_head 4 (length xs) @ cbor_encodes xs) \<le> Suc f" by simp
  then show ?case using 4(1,2) by (elim head_step [of 4 _ _ _ r]) (simp_all add: maxElements_def)
next
  case (5 kvs)
  from 5(3) have "2 * length (cbor_head 5 (length kvs) @ cbor_encode_pairs kvs) \<le> Suc f" by simp
  then show ?case using 5(1,2) by (elim head_step [of 5 _ _ _ r]) (simp_all add: maxElements_def)
next
  case (6 t i)
  from 6(3) have "2 * length (cbor_head 6 t @ cbor_encode i) \<le> Suc f" by simp
  then show ?case using 6(1,2) by (elim head_step [of 6 _ _ _ r]) (simp_all add: head_range_def)
next
  case (9 x)
  then obtain g where "f = Suc g" using fuel_left [of "wide_head 7 27 (f64_bits x)"] by auto
  moreover have "read_head (wide_head 7 27 (f64_bits x) @ r) = Some (7, 27, f64_bits x, r)"
    using f64_bits_roundtrip(2) [of x] 9 by (intro read_wide_head) simp_all
  ultimately show ?case using f64_bits_roundtrip(1) [of x] 9 by (simp add: read_simple_def)
next
  case (11 x xs)
  obtain g where "f = Suc g" "2 * length (cbor_encode x) \<le> Suc g" "2 * length (cbor_encodes xs) \<le> g"
    using list_step [of "[]" x "cbor_encodes xs" f] 11(4) by auto
  then show ?case using 11 by simp
next
  case (13 k v kvs)
  obtain g where "f = Suc g" "2 * length (cbor_encode v) \<le> Suc g" "2 * length (cbor_encode_pairs kvs) \<le> g"
    using list_step [of "int_head k" v "cbor_encode_pairs kvs" f] 13(4) by auto
  then show ?case using 13 read_int_head [of k "cbor_encode v @ cbor_encode_pairs kvs @ r"] by simp
qed (auto simp: read_head_def read_simple_def Suc_le_eq gr0_conv_Suc)

lemma cbor_roundtrip: "cbor_ok i \<Longrightarrow> cbor_parse (cbor_encode i) = Some i"
  using cbor_roundtrip_fuel(1) [of i "2 * length (cbor_encode i)" "[]"] by (simp add: cbor_parse_def cbor_ok_def)

interpretation rfc8949: codec cbor_encode cbor_parse cbor_ok
  by unfold_locales (rule cbor_roundtrip)

text \<open>The library of the witnesses.\<close>

definition rfc_enc :: cbor_enc where
  "rfc_enc i = Inr (cbor_encode i)"

definition rfc_dec :: cbor_dec where
  "rfc_dec b = (case cbor_parse b of Some i \<Rightarrow> Inr i | None \<Rightarrow> Inl (CborError ''malformed''))"

lemma rfc_library: "cbor_library rfc_enc rfc_dec"
  by (auto simp: cbor_library_def rfc_enc_def rfc_dec_def rfc8949.dec_enc)

end
