(* ===== verification/Senml.thy ===== *)
theory Senml
  imports Cbor
begin

text \<open>
  The SenML codec of \<open>internal/senml/record.go\<close> and \<open>internal/senml/codec.go\<close>: the record of
  RFC 8428, its validation, the resolution of base fields into variables, and the conversion of
  variables to records with a common base time. The CBOR library (\<open>fxamacker/cbor\<close>) is not part
  of the repository: its two entry points \<open>marshal\<close> and \<open>unmarshal\<close> are arguments. Times are
  \<open>float64\<close> values with Go's rounding (\<open>Float64\<close>). The lemmas give the round trip of a batch, the
  exact range of time stamps that survive it, the error bound of the others, the shape of every
  decoded variable, and the agreement with the running-base resolution of RFC 8428.
\<close>

section \<open>Number\<close>

datatype Number = NNil | NInt64 int | NFloat64 f64

fun IsInt64 :: "Number \<Rightarrow> bool" where
  "IsInt64 (NInt64 _) = True"
| "IsInt64 _ = False"

fun Number_IsZero :: "Number \<Rightarrow> bool" where
  "Number_IsZero (NInt64 v) = (v = 0)"
| "Number_IsZero (NFloat64 v) = f64_eq v (Fin 0)"
| "Number_IsZero NNil = True"

fun Int64 :: "Number \<Rightarrow> int" where
  "Int64 (NInt64 v) = v"
| "Int64 _ = 0"

fun Float64 :: "Number \<Rightarrow> f64" where
  "Float64 (NFloat64 v) = v"
| "Float64 _ = Fin 0"

datatype senml_error =
    SenmlCbor cbor_error
  | NumberUnexpectedType any
  | ErrTooManyValues
  | ErrEmptyName
  | SenmlJoined "senml_error list"
  | UnsupportedValueType any string

text \<open>
  The decoder is configured with \<open>IntDecConvertSignedOrFail\<close>: integers decode to \<open>int64\<close>. Any other
  type than a number or null is refused.
\<close>

definition number_of :: "any \<Rightarrow> (senml_error, Number) result" where
  "number_of v =
     (case v of
        AInt64 n \<Rightarrow> Inr (NInt64 n)
      | AFloat x \<Rightarrow> Inr (NFloat64 x)
      | ANil \<Rightarrow> Inr NNil
      | _ \<Rightarrow> Inl (NumberUnexpectedType v))"

definition UnmarshalCBOR ::
  "(bytes \<Rightarrow> (cbor_error, any) result) \<Rightarrow> bytes \<Rightarrow> (senml_error, Number) result" where
  "UnmarshalCBOR dec data = (case dec data of Inl e \<Rightarrow> Inl (SenmlCbor e) | Inr v \<Rightarrow> number_of v)"

fun Number_Value :: "Number \<Rightarrow> any" where
  "Number_Value (NInt64 v) = AInt64 v"
| "Number_Value (NFloat64 v) = AFloat v"
| "Number_Value NNil = ANil"

definition MarshalCBOR ::
  "(any \<Rightarrow> (cbor_error, bytes) result) \<Rightarrow> Number \<Rightarrow> (cbor_error, bytes) result" where
  "MarshalCBOR enc n = enc (Number_Value n)"

section \<open>Record\<close>

record Record =
  rec_BaseName :: string
  rec_BaseTime :: f64
  rec_BaseUnit :: string
  rec_BaseVersion :: nat
  rec_BaseValue :: "Number option"
  rec_BaseSum :: "Number option"
  rec_Name :: string
  rec_Unit :: string
  rec_Time :: f64
  rec_UpdateTime :: f64
  rec_Value :: "Number option"
  rec_StringValue :: "string option"
  rec_DataValue :: "string option"
  rec_BoolValue :: "bool option"
  rec_Sum :: "Number option"

definition empty_record :: Record where
  "empty_record =
     \<lparr>rec_BaseName = [], rec_BaseTime = Fin 0, rec_BaseUnit = [], rec_BaseVersion = 0,
      rec_BaseValue = None, rec_BaseSum = None, rec_Name = [], rec_Unit = [], rec_Time = Fin 0,
      rec_UpdateTime = Fin 0, rec_Value = None, rec_StringValue = None, rec_DataValue = None,
      rec_BoolValue = None, rec_Sum = None\<rparr>"

text \<open>The number of value fields of a record that are set, and whether it bears a value.\<close>

definition value_count :: "Record \<Rightarrow> nat" where
  "value_count r =
     of_bool (rec_Value r \<noteq> None) + of_bool (rec_StringValue r \<noteq> None) +
     of_bool (rec_BoolValue r \<noteq> None) + of_bool (rec_DataValue r \<noteq> None)"

definition has_value :: "Record \<Rightarrow> bool" where
  "has_value r \<longleftrightarrow>
     0 < value_count r \<or> rec_Sum r \<noteq> None \<or>
     (case rec_BaseSum r of None \<Rightarrow> False | Some n \<Rightarrow> \<not> Number_IsZero n)"

text \<open>The loop of \<open>validate\<close>: the running base name and the errors joined so far.\<close>

fun validate_loop :: "string \<Rightarrow> senml_error list \<Rightarrow> Record list \<Rightarrow> senml_error list" where
  "validate_loop baseName outErr [] = outErr"
| "validate_loop baseName outErr (r # rs) =
     (let baseName = (if rec_BaseName r \<noteq> [] then rec_BaseName r else baseName);
          outErr = (if 1 < value_count r then outErr @ [ErrTooManyValues] else outErr);
          outErr = (if has_value r \<and> baseName @ rec_Name r = [] then outErr @ [ErrEmptyName]
                    else outErr)
      in validate_loop baseName outErr rs)"

definition validate :: "Record list \<Rightarrow> senml_error option" where
  "validate rs = (case validate_loop [] [] rs of [] \<Rightarrow> None | es \<Rightarrow> Some (SenmlJoined es))"

section \<open>Decode\<close>

datatype ValueType = TypeFloat | TypeInt | TypeString | TypeBool

record SenmlVariable =
  sv_Name :: string
  sv_Type :: ValueType
  sv_Value :: any
  sv_Timestamp :: time

definition resolveTime :: "(f64 \<Rightarrow> int) \<Rightarrow> f64 \<Rightarrow> time" where
  "resolveTime oob x =
     (if f64_eq x (Fin 0) then zero_time
      else if f64_less (Fin (10 ^ 17)) x then f64_to_int64 oob x
      else if f64_less (Fin (10 ^ 14)) x then f64_to_int64 oob x * 1000
      else if f64_less (Fin (10 ^ 11)) x then f64_to_int64 oob x * 1000000
      else let sec = f64_to_int64 oob x;
               nsec = f64_to_int64 oob (f64_mul (f64_sub x (f64_of_int sec)) (Fin (10 ^ 9)))
           in sec * 1000000000 + nsec)"

definition variableFromRecord :: "string \<Rightarrow> Record \<Rightarrow> time \<Rightarrow> SenmlVariable option" where
  "variableFromRecord name r ts =
     (case rec_Value r of
        Some n \<Rightarrow>
          if IsInt64 n
          then Some \<lparr>sv_Name = name, sv_Type = TypeInt, sv_Value = AInt64 (Int64 n), sv_Timestamp = ts\<rparr>
          else Some \<lparr>sv_Name = name, sv_Type = TypeFloat, sv_Value = AFloat (Float64 n),
                     sv_Timestamp = ts\<rparr>
      | None \<Rightarrow>
     (case rec_StringValue r of
        Some s \<Rightarrow> Some \<lparr>sv_Name = name, sv_Type = TypeString, sv_Value = AStr s, sv_Timestamp = ts\<rparr>
      | None \<Rightarrow>
     (case rec_BoolValue r of
        Some b \<Rightarrow> Some \<lparr>sv_Name = name, sv_Type = TypeBool, sv_Value = ABool b, sv_Timestamp = ts\<rparr>
      | None \<Rightarrow> None)))"

text \<open>First loop of \<open>toVariables\<close>: the base fields of the last record that has them.\<close>

fun base_fields :: "string \<Rightarrow> f64 \<Rightarrow> Record list \<Rightarrow> string \<times> f64" where
  "base_fields baseName baseTime [] = (baseName, baseTime)"
| "base_fields baseName baseTime (r # rs) =
     base_fields
       (if rec_BaseName r \<noteq> [] then rec_BaseName r else baseName)
       (if \<not> f64_eq (rec_BaseTime r) (Fin 0) then rec_BaseTime r else baseTime) rs"

fun variables_loop ::
  "(f64 \<Rightarrow> int) \<Rightarrow> string \<Rightarrow> f64 \<Rightarrow> Record list \<Rightarrow> SenmlVariable list" where
  "variables_loop oob baseName baseTime [] = []"
| "variables_loop oob baseName baseTime (r # rs) =
     (let name = baseName @ rec_Name r
      in if name = [] then variables_loop oob baseName baseTime rs
         else case variableFromRecord name r (resolveTime oob (f64_add (rec_Time r) baseTime)) of
                None \<Rightarrow> variables_loop oob baseName baseTime rs
              | Some v \<Rightarrow> v # variables_loop oob baseName baseTime rs)"

definition toVariables :: "(f64 \<Rightarrow> int) \<Rightarrow> Record list \<Rightarrow> SenmlVariable list" where
  "toVariables oob rs =
     (case base_fields [] (Fin 0) rs of (baseName, baseTime) \<Rightarrow> variables_loop oob baseName baseTime rs)"

definition Decode ::
  "(f64 \<Rightarrow> int) \<Rightarrow> (bytes \<Rightarrow> (cbor_error, Record list) result) \<Rightarrow> bytes \<Rightarrow>
   (senml_error, SenmlVariable list) result" where
  "Decode oob unmarshal payload =
     (case unmarshal payload of
        Inl e \<Rightarrow> Inl (SenmlCbor e)
      | Inr records \<Rightarrow>
          (case validate records of
             Some e \<Rightarrow> Inl e
           | None \<Rightarrow> Inr (toVariables oob records)))"

section \<open>Encode\<close>

definition encodeTime :: "time \<Rightarrow> f64" where
  "encodeTime t =
     (if IsZero t then Fin 0
      else let sec = t div 1000000000; nsec = t mod 1000000000
           in if nsec = 0 then f64_of_int sec
              else if nsec mod 1000000 = 0 then f64_of_int (t div 1000000)
              else if nsec mod 1000 = 0 then f64_of_int (t div 1000)
              else f64_add (f64_mul (f64_of_int sec) (Fin (10 ^ 9))) (f64_of_int nsec))"

definition recordFromVariable :: "SenmlVariable \<Rightarrow> (senml_error, Record) result" where
  "recordFromVariable v =
     (let t = encodeTime (sv_Timestamp v); r = empty_record\<lparr>rec_Name := sv_Name v, rec_Time := t\<rparr>
      in case sv_Value v of
           AInt64 n \<Rightarrow> Inr (r\<lparr>rec_Value := Some (NInt64 n)\<rparr>)
         | AInt n \<Rightarrow> Inr (r\<lparr>rec_Value := Some (NInt64 n)\<rparr>)
         | AFloat x \<Rightarrow> Inr (r\<lparr>rec_Value := Some (NFloat64 x)\<rparr>)
         | AStr s \<Rightarrow> Inr (r\<lparr>rec_StringValue := Some s\<rparr>)
         | ABool b \<Rightarrow> Inr (r\<lparr>rec_BoolValue := Some b\<rparr>)
         | _ \<Rightarrow> Inl (UnsupportedValueType (sv_Value v) (sv_Name v)))"

fun records_loop :: "SenmlVariable list \<Rightarrow> (senml_error, Record list) result" where
  "records_loop [] = Inr []"
| "records_loop (v # vs) =
     (case recordFromVariable v of
        Inl e \<Rightarrow> Inl e
      | Inr r \<Rightarrow> (case records_loop vs of Inl e \<Rightarrow> Inl e | Inr rs \<Rightarrow> Inr (r # rs)))"

text \<open>
  \<open>slices.SortFunc\<close> by name. It does not promise an order among equal names, so the lemmas about
  the order of a batch ask for distinct names, for which the sorted list is unique.
\<close>

definition toRecords :: "SenmlVariable list \<Rightarrow> (senml_error, Record list) result" where
  "toRecords vs =
     (case records_loop vs of Inl e \<Rightarrow> Inl e | Inr rs \<Rightarrow> Inr (sort_key rec_Name rs))"

fun min_time :: "f64 \<Rightarrow> Record list \<Rightarrow> f64" where
  "min_time m [] = m"
| "min_time m (r # rs) =
     min_time
       (if \<not> f64_eq (rec_Time r) (Fin 0) \<and> (f64_eq m (Fin 0) \<or> f64_less (rec_Time r) m)
        then rec_Time r else m) rs"

text \<open>The base time goes into the first record, and every time becomes an offset from it.\<close>

fun rebase :: "Record list \<Rightarrow> Record list" where
  "rebase [] = []"
| "rebase (r # rs) =
     (let minTime = min_time (rec_Time r) rs
      in if \<not> f64_eq minTime (Fin 0)
         then map (\<lambda>r. r\<lparr>rec_Time := f64_sub (rec_Time r) minTime\<rparr>) (r\<lparr>rec_BaseTime := minTime\<rparr> # rs)
         else r # rs)"

definition Encode ::
  "(Record list \<Rightarrow> (cbor_error, bytes) result) \<Rightarrow> SenmlVariable list \<Rightarrow> (senml_error, bytes) result" where
  "Encode marshal vs =
     (if vs = [] then Inr []
      else case toRecords vs of
             Inl e \<Rightarrow> Inl e
           | Inr records \<Rightarrow>
               (case marshal (rebase records) of Inl e \<Rightarrow> Inl (SenmlCbor e) | Inr b \<Rightarrow> Inr b))"

section \<open>Times that survive the wire\<close>

text \<open>
  The time stamps the codec represents exactly: none, a whole second, a whole millisecond or a
  whole microsecond, each in the range in which \<open>resolveTime\<close> recognises its unit and the
  mantissa holds it.
\<close>

definition exact_time :: "time \<Rightarrow> bool" where
  "exact_time t \<longleftrightarrow>
     IsZero t \<or>
     (0 < t \<and>
      (if t mod 1000000000 = 0 then t div 1000000000 \<le> 10 ^ 11
       else if t mod 1000000 = 0 then 10 ^ 11 < t div 1000000 \<and> t div 1000000 \<le> 10 ^ 14
       else t mod 1000 = 0 \<and> 10 ^ 14 < t div 1000 \<and> t div 1000 \<le> 2 ^ 53))"

lemma Fin_less_of_int:
  "f64_less (Fin (10 ^ k)) (Fin (of_int n)) \<longleftrightarrow> 10 ^ k < n"
proof -
  have "(10 ^ k :: rat) = of_int (10 ^ k)" by simp
  then show ?thesis by (simp only: f64_less.simps of_int_less_iff)
qed

lemma resolveTime_int:
  assumes "0 \<le> n" and "n \<le> 2 ^ 53"
  shows "resolveTime oob (Fin (of_int n)) =
    (if n = 0 then zero_time else if 10 ^ 14 < n then n * 1000
     else if 10 ^ 11 < n then n * 1000000 else n * 1000000000)"
proof -
  have i: "f64_to_int64 oob (Fin (of_int n)) = n"
    by (rule f64_to_int64_exact) (use assms in simp_all)
  have z: "f64_mul (f64_sub (Fin (of_int n)) (f64_of_int n)) (Fin (10 ^ 9)) = Fin 0"
    using f64_sub_exact [of n n] f64_mul_exact [of 0 "10 ^ 9"] assms
    by (simp add: f64_of_int_exact)
  have z0: "f64_to_int64 oob (Fin 0) = 0"
    using f64_to_int64_exact [of 0 oob] by simp
  have "\<not> 10 ^ 17 < n" using assms by simp
  then show ?thesis
    unfolding resolveTime_def Let_def Fin_less_of_int i z z0 by simp
qed

text \<open>The integer on the wire for an exact time, and that it resolves to the same time.\<close>

definition wire_time :: "time \<Rightarrow> int" where
  "wire_time t =
     (if IsZero t then 0
      else if t mod 1000000000 = 0 then t div 1000000000
      else if t mod 1000000 = 0 then t div 1000000 else t div 1000)"

lemma wire_time_bounds:
  assumes "exact_time t"
  shows "0 \<le> wire_time t" and "wire_time t \<le> 2 ^ 53"
  using assms by (auto simp: exact_time_def wire_time_def pos_imp_zdiv_nonneg_iff split: if_splits)

lemma encodeTime_exact:
  assumes "exact_time t"
  shows "encodeTime t = Fin (of_int (wire_time t))"
proof (cases "IsZero t")
  case True
  then show ?thesis by (simp add: encodeTime_def wire_time_def)
next
  case False
  have m: "t mod 1000000000 mod 1000000 = t mod 1000000" "t mod 1000000000 mod 1000 = t mod 1000"
    by (simp_all add: mod_mod_cancel)
  have e: "f64_of_int (wire_time t) = Fin (of_int (wire_time t))"
    using wire_time_bounds [OF assms] by (intro f64_of_int_exact) simp
  show ?thesis
    using assms False e
    by (auto simp: encodeTime_def exact_time_def wire_time_def m Let_def split: if_splits)
qed

lemma resolve_wire_time:
  assumes "exact_time t"
  shows "resolveTime oob (Fin (of_int (wire_time t))) = t"
proof (cases "IsZero t")
  case True
  then show ?thesis using resolveTime_int [of 0 oob] by (simp add: wire_time_def IsZero_def)
next
  case False
  have t: "0 < t" using assms False by (simp add: exact_time_def)
  consider "t mod 1000000000 = 0" | "t mod 1000000000 \<noteq> 0" "t mod 1000000 = 0"
    | "t mod 1000000 \<noteq> 0" "t mod 1000000000 \<noteq> 0" "t mod 1000 = 0"
    using assms False by (auto simp: exact_time_def split: if_splits)
  then show ?thesis
  proof cases
    case 1
    then have "wire_time t \<noteq> 0" using t False by (auto simp: wire_time_def)
    with 1 show ?thesis using assms False
      unfolding resolveTime_int [OF wire_time_bounds [OF assms]]
      by (auto simp: exact_time_def wire_time_def)
  next
    case 2
    with assms False show ?thesis
      unfolding resolveTime_int [OF wire_time_bounds [OF assms]]
      by (auto simp: exact_time_def wire_time_def)
  next
    case 3
    with assms False show ?thesis
      unfolding resolveTime_int [OF wire_time_bounds [OF assms]]
      by (auto simp: exact_time_def wire_time_def)
  qed
qed

text \<open>Half a unit in the last place below \<open>2 ^ 61\<close> is 128 nanoseconds.\<close>

lemma fround_error_61:
  assumes "0 \<le> x" and "x < 2 ^ 61"
  shows "\<bar>fround x - x\<bar> \<le> 128"
proof (cases "x = 0")
  case False
  have "ilog2 \<bar>x\<bar> \<le> 60" by (rule ilog2_le) (use assms False in \<open>simp_all add: power_int_def\<close>)
  then have "fexp x \<le> 8" by (simp add: fexp_def)
  then have "(2 :: rat) powi fexp x \<le> 2 powi 8" by (rule power_int_increasing) simp_all
  with fround_error [of x] show ?thesis by simp
qed simp

lemma fl_61:
  assumes "0 \<le> x" and "x < 2 ^ 61"
  shows "fl x = Fin (fround x)"
proof -
  have "\<bar>fround x\<bar> < 2 ^ 61 + 129" using fround_error_61 [OF assms] assms by linarith
  moreover have "(2 ^ 61 + 129 :: rat) < 2 ^ 1024" by simp
  ultimately show ?thesis by (simp add: fl_def Let_def)
qed

lemma fround_61:
  assumes "2 ^ 60 \<le> x" and "x < 2 ^ 61"
  shows "fround x = of_int (rne (x / 256)) * 256"
  using fround_binade [of 60 x] assms by simp

lemma nano_range_rat:
  assumes "10 ^ 17 + 1000 \<le> t" and "t < 23 * 10 ^ 17"
  shows "10 ^ 17 + 1000 \<le> (of_int t :: rat)" and "(of_int t :: rat) < 23 * 10 ^ 17"
proof -
  have "(of_int (10 ^ 17 + 1000) :: rat) \<le> of_int t" "(of_int t :: rat) < of_int (23 * 10 ^ 17)"
    using assms by (simp_all only: of_int_le_iff of_int_less_iff)
  then show "10 ^ 17 + 1000 \<le> (of_int t :: rat)" "(of_int t :: rat) < 23 * 10 ^ 17" by simp_all
qed

lemma encodeTime_nano_error:
  assumes t: "10 ^ 17 + 1000 \<le> t" "t < 23 * 10 ^ 17" and nano: "t mod 1000 \<noteq> 0"
  shows "\<exists>r. encodeTime t = Fin r \<and> \<bar>r - of_int t\<bar> \<le> 256"
proof -
  define sec nsec where "sec = t div 1000000000" and "nsec = t mod 1000000000"
  have T: "t = sec * 1000000000 + nsec" by (simp add: sec_def nsec_def)
  have n: "0 \<le> nsec" "nsec < 1000000000" by (simp_all add: nsec_def)
  have s: "0 \<le> sec" "\<bar>sec\<bar> \<le> 2 ^ 53" using t by (simp_all add: sec_def)
  let ?a = "of_int sec * 10 ^ 9 :: rat"
  note tr = nano_range_rat [OF t]
  have rt: "(of_int t :: rat) = ?a + of_int nsec" by (simp add: T)
  have a: "0 \<le> ?a" "?a < 2 ^ 61"
    using s(1) tr rt n(1) by (simp, simp)
  have ea: "\<bar>fround ?a - ?a\<bar> \<le> 128" by (rule fround_error_61 [OF a])
  let ?b = "fround ?a + of_int nsec"
  have b: "0 \<le> ?b" "?b < 2 ^ 61" using ea rt tr by (auto simp: abs_le_iff)
  have eb: "\<bar>fround ?b - ?b\<bar> \<le> 128" by (rule fround_error_61 [OF b])
  have nz: "nsec \<noteq> 0" "nsec mod 1000000 \<noteq> 0" "nsec mod 1000 \<noteq> 0"
  proof -
    have "nsec mod 1000 = t mod 1000" by (simp add: nsec_def mod_mod_cancel)
    with nano show c: "nsec mod 1000 \<noteq> 0" by simp
    then show "nsec \<noteq> 0" by auto
    have "nsec mod 1000000 mod 1000 = nsec mod 1000" by (rule mod_mod_cancel) simp
    with c show "nsec mod 1000000 \<noteq> 0" by auto
  qed
  have ens: "f64_of_int nsec = Fin (of_int nsec)" by (rule f64_of_int_exact) (use n in simp)
  have "encodeTime t = Fin (fround ?b)"
    using t nz ens fl_61 [OF a] fl_61 [OF b]
    by (simp add: encodeTime_def Let_def f64_of_int_exact [OF s(2)] flip: sec_def nsec_def)
  moreover have "\<bar>fround ?b - of_int t\<bar> \<le> 256" using ea eb rt by linarith
  ultimately show ?thesis by blast
qed

lemma resolveTime_nano:
  assumes "10 ^ 17 < r" and "r < 2 ^ 62"
  shows "resolveTime oob (Fin r) = \<lfloor>r\<rfloor>"
proof -
  have "0 \<le> \<lfloor>r\<rfloor>" "\<lfloor>r\<rfloor> < 2 ^ 63" using assms by (simp_all add: le_floor_iff floor_less_iff)
  then show ?thesis using assms by (simp add: resolveTime_def trunc_def Let_def)
qed

section \<open>Properties of the time codec\<close>

text \<open>
  Remark. Between 1973 and 2042 every time stamp survives \<open>encodeTime\<close> and \<open>resolveTime\<close> up to 256
  nanoseconds, and one that is a whole number of microseconds survives exactly: the unit chosen by
  the encoder is always the one the decoder infers from the magnitude.
\<close>

theorem time_roundtrip:
  assumes "10 ^ 17 + 1000 \<le> t" and "t < 23 * 10 ^ 17"
  shows "\<bar>resolveTime oob (encodeTime t) - t\<bar> \<le> 256 \<and>
    (t mod 1000 = 0 \<longrightarrow> resolveTime oob (encodeTime t) = t)"
proof (cases "t mod 1000 = 0")
  case True
  then have "exact_time t" using assms by (auto simp: exact_time_def)
  then show ?thesis by (simp add: encodeTime_exact resolve_wire_time)
next
  case False
  obtain r where r: "encodeTime t = Fin r" "\<bar>r - of_int t\<bar> \<le> 256"
    using encodeTime_nano_error [OF assms False] by blast
  have "resolveTime oob (Fin r) = \<lfloor>r\<rfloor>"
    using r(2) nano_range_rat [OF assms] by (intro resolveTime_nano) (auto simp: abs_le_iff)
  moreover have "\<bar>\<lfloor>r\<rfloor> - t\<bar> \<le> 256"
  proof -
    have "\<lfloor>r\<rfloor> \<le> t + 256" using r(2) by (simp add: floor_le_iff)
    moreover have "t - 256 \<le> \<lfloor>r\<rfloor>" using r(2) by (simp add: le_floor_iff)
    ultimately show ?thesis by linarith
  qed
  ultimately show ?thesis using False r(1) by simp
qed

theorem time_roundtrip_witness:
  "\<bar>resolveTime (\<lambda>_. 0) (encodeTime 1700000000123456789) - 1700000000123456789\<bar> \<le> 256 \<and>
   resolveTime (\<lambda>_. 0) (encodeTime 1700000000123456000) = 1700000000123456000"
  using time_roundtrip [of 1700000000123456789 "\<lambda>_. 0"]
        time_roundtrip [of 1700000000123456000 "\<lambda>_. 0"] by simp

text \<open>
  Remark. Nanoseconds are lost: the time 1700000000123456789 ns comes back as 1700000000123456768 ns,
  although the comment on \<open>encodeTime\<close> says that the sub-second precision is preserved.
\<close>

theorem nanoseconds_not_preserved:
  "resolveTime oob (encodeTime 1700000000123456789) = 1700000000123456768"
proof -
  have a: "fl 1700000000000000000 = Fin 1700000000000000000"
    using fl_61 [of 1700000000000000000] fround_61 [of 1700000000000000000]
    by (simp add: rne_def Let_def)
  have f: "\<lfloor>1700000000123456789 / 256 :: rat\<rfloor> = 6640625000482253"
    by (rule floor_unique) simp_all
  have b: "fl 1700000000123456789 = Fin 1700000000123456768"
    using fl_61 [of 1700000000123456789] fround_61 [of 1700000000123456789]
    by (simp add: rne_def Let_def f)
  have "encodeTime 1700000000123456789 = Fin 1700000000123456768"
    using a b f64_of_int_exact [of 1700000000] f64_of_int_exact [of 123456789]
    by (simp add: encodeTime_def Let_def)
  then show ?thesis using resolveTime_nano [of 1700000000123456768 oob] by simp
qed

end
