(* ===== verification/Mqtt_Command.thy ===== *)
theory Mqtt_Command
  imports Senml
begin

text \<open>
  The command channel of \<open>internal/mqtt/command\<close> and the topics of \<open>internal/mqtt/client.go\<close>: the
  typed commands, the table of CBOR tags, the wrapper with its constrained constructor, encoding
  and decoding over the CBOR library (an argument), and the hand-written encoding of the network
  configuration. The lemmas show that the tag table is one-to-one, that \<open>Decode\<close> accepts exactly
  the registered types and inverts \<open>Encode\<close>, and that the four topic families never collide.
\<close>

section \<open>Commands\<close>

type_synonym ThingID = string

text \<open>\<open>NetworkType\<close> is a \<open>uint8\<close>; the constants name some of its values.\<close>

type_synonym NetworkType = "8 word"

definition NetworkTypeWiFi :: NetworkType where
  "NetworkTypeWiFi = 1"

definition NetworkTypeEthernet :: NetworkType where
  "NetworkTypeEthernet = 6"

record DeviceNetConfig =
  nc_Type :: NetworkType
  nc_SSID :: string
  nc_IP :: bytes
  nc_DNS :: bytes
  nc_Gateway :: bytes
  nc_Netmask :: bytes

text \<open>
  The dynamic value inside a \<open>Cmd\<close>: one of the registered command structs, or anything else the
  decoder may produce for a payload that is not a registered command.
\<close>

datatype inner =
    OTABeginCmd bytes
  | OTAUpdateCmd bytes string bytes bytes
  | OTAProgressCmd bytes "8 word" "32 word" "64 word"
  | ThingBeginCmd ThingID
  | ThingUpdateCmd ThingID
  | LastValuesBeginCmd
  | LastValuesUpdateCmd bytes
  | DeviceBeginCmd string
  | TimezoneRequestCmd
  | TimezoneUpdateCmd "32 word" "32 word"
  | ThingDetachCmd ThingID
  | DeviceNetConfigCmd DeviceNetConfig
  | OtherType any

datatype cmd_type =
    TyOTABegin | TyOTAUpdate | TyOTAProgress | TyThingBegin | TyThingUpdate | TyLastValuesBegin
  | TyLastValuesUpdate | TyDeviceBegin | TyTimezoneRequest | TyTimezoneUpdate | TyThingDetach
  | TyDeviceNetConfig | TyOther

fun TypeOf :: "inner \<Rightarrow> cmd_type" where
  "TypeOf (OTABeginCmd _) = TyOTABegin"
| "TypeOf (OTAUpdateCmd _ _ _ _) = TyOTAUpdate"
| "TypeOf (OTAProgressCmd _ _ _ _) = TyOTAProgress"
| "TypeOf (ThingBeginCmd _) = TyThingBegin"
| "TypeOf (ThingUpdateCmd _) = TyThingUpdate"
| "TypeOf LastValuesBeginCmd = TyLastValuesBegin"
| "TypeOf (LastValuesUpdateCmd _) = TyLastValuesUpdate"
| "TypeOf (DeviceBeginCmd _) = TyDeviceBegin"
| "TypeOf TimezoneRequestCmd = TyTimezoneRequest"
| "TypeOf (TimezoneUpdateCmd _ _) = TyTimezoneUpdate"
| "TypeOf (ThingDetachCmd _) = TyThingDetach"
| "TypeOf (DeviceNetConfigCmd _) = TyDeviceNetConfig"
| "TypeOf (OtherType _) = TyOther"

definition registeredTags :: "(nat \<times> cmd_type) list" where
  "registeredTags =
     [(0x10000, TyOTABegin), (0x10100, TyOTAUpdate), (0x10200, TyOTAProgress),
      (0x10300, TyThingBegin), (0x10400, TyThingUpdate), (0x10500, TyLastValuesBegin),
      (0x10600, TyLastValuesUpdate), (0x10700, TyDeviceBegin), (0x10800, TyTimezoneRequest),
      (0x10900, TyTimezoneUpdate), (0x11000, TyThingDetach), (0x11100, TyDeviceNetConfig)]"

text \<open>A \<open>Cmd\<close> holds a possibly nil value.\<close>

type_synonym Cmd = "inner option"

text \<open>The type constraint of \<open>From\<close>: the uplink commands.\<close>

definition uplink :: "cmd_type list" where
  "uplink =
     [TyDeviceBegin, TyDeviceNetConfig, TyThingBegin, TyLastValuesBegin, TyOTABegin,
      TyOTAProgress, TyTimezoneRequest]"

definition From :: "inner \<Rightarrow> Cmd option" where
  "From v = (if TypeOf v \<in> set uplink then Some (Some v) else None)"

text \<open>The tag \<open>Cmd.String\<close> prints, when the value is a registered command.\<close>

definition cmd_tag :: "Cmd \<Rightarrow> nat option" where
  "cmd_tag c =
     (case c of
        None \<Rightarrow> None
      | Some v \<Rightarrow> map_option fst (List.find (\<lambda>e. snd e = TypeOf v) registeredTags))"

datatype command_error = CommandCbor cbor_error | UnrecognisedType inner | NilCmd

definition Decode_cmd :: "(bytes \<Rightarrow> (cbor_error, inner) result) \<Rightarrow> bytes \<Rightarrow> (command_error, Cmd) result" where
  "Decode_cmd unmarshal data =
     (case unmarshal data of
        Inl e \<Rightarrow> Inl (CommandCbor e)
      | Inr v \<Rightarrow>
          if \<not> list_ex (\<lambda>e. snd e = TypeOf v) registeredTags then Inl (UnrecognisedType v)
          else Inr (Some v))"

definition Encode_cmd :: "(inner \<Rightarrow> (cbor_error, bytes) result) \<Rightarrow> Cmd \<Rightarrow> (command_error, bytes) result" where
  "Encode_cmd marshal c =
     (case c of
        None \<Rightarrow> Inl NilCmd
      | Some v \<Rightarrow> (case marshal v of Inl e \<Rightarrow> Inl (CommandCbor e) | Inr b \<Rightarrow> Inr b))"

section \<open>The network configuration\<close>

text \<open>
  The data item \<open>MarshalCBOR\<close> hands to the library: an array whose first element is the adapter
  type, wrapped in the tag. The encoder is configured so that an unset (nil) address is the empty
  byte string.
\<close>

definition netconfig_item :: "DeviceNetConfig \<Rightarrow> cbor_item" where
  "netconfig_item c =
     (let content =
            (if nc_Type c = NetworkTypeWiFi then [CInt (uint (nc_Type c)), CText (nc_SSID c)]
             else if nc_Type c = NetworkTypeEthernet
             then [CInt (uint (nc_Type c)), CBytes (nc_IP c), CBytes (nc_DNS c),
                   CBytes (nc_Gateway c), CBytes (nc_Netmask c)]
             else [CInt (uint (nc_Type c))])
      in CTag 0x11100 (CArray content))"

definition MarshalCBOR_netconfig :: "cbor_enc \<Rightarrow> DeviceNetConfig \<Rightarrow> (cbor_error, bytes) result" where
  "MarshalCBOR_netconfig enc c = enc (netconfig_item c)"

section \<open>Commands on the wire\<close>

text \<open>
  The fields of a command struct as array elements, in the order of their declaration (\<open>toarray\<close>):
  an array of bytes and a slice are byte strings, integers keep their sign.
\<close>

fun cmd_fields :: "inner \<Rightarrow> cbor_item list" where
  "cmd_fields (OTABeginCmd sha256) = [CBytes sha256]"
| "cmd_fields (OTAUpdateCmd ident url initialSHA finalSHA) = [CBytes ident, CText url, CBytes initialSHA, CBytes finalSHA]"
| "cmd_fields (OTAProgressCmd ident state stateData timestamp) =
     [CBytes ident, CInt (uint state), CInt (sint stateData), CInt (uint timestamp)]"
| "cmd_fields (ThingBeginCmd thingID) = [CText thingID]"
| "cmd_fields (ThingUpdateCmd thingID) = [CText thingID]"
| "cmd_fields LastValuesBeginCmd = []"
| "cmd_fields (LastValuesUpdateCmd values) = [CBytes values]"
| "cmd_fields (DeviceBeginCmd libVersion) = [CText libVersion]"
| "cmd_fields TimezoneRequestCmd = []"
| "cmd_fields (TimezoneUpdateCmd offset until) = [CInt (sint offset), CInt (uint until)]"
| "cmd_fields (ThingDetachCmd thingID) = [CText thingID]"
| "cmd_fields _ = []"

text \<open>
  The encoder with the tag set: a registered struct is its array under its tag, the network
  configuration marshals itself. What the library does with any other type is \<open>other\<close>.
\<close>

definition cmd_marshal :: "cbor_enc \<Rightarrow> (any \<Rightarrow> (cbor_error, bytes) result) \<Rightarrow> inner \<Rightarrow> (cbor_error, bytes) result" where
  "cmd_marshal enc other v =
     (case v of
        DeviceNetConfigCmd c \<Rightarrow> MarshalCBOR_netconfig enc c
      | OtherType x \<Rightarrow> other x
      | _ \<Rightarrow> (case cmd_tag (Some v) of
                Some t \<Rightarrow> enc (CTag t (CArray (cmd_fields v)))
              | None \<Rightarrow> enc (CArray (cmd_fields v))))"

text \<open>
  The struct of a registered type from the elements of an array, when their number is that of its
  fields and each fits the Go type of its field.
\<close>

fun slice_field :: "cbor_item \<Rightarrow> bytes option" where
  "slice_field (CBytes b) = Some b"
| "slice_field _ = None"

definition array_field :: "nat \<Rightarrow> cbor_item \<Rightarrow> bytes option" where
  "array_field n i = Option.bind (slice_field i) (\<lambda>b. if length b = n then Some b else None)"

fun unsigned_field :: "cbor_item \<Rightarrow> 'w::len word option" where
  "unsigned_field (CInt n) = (if uint (word_of_int n :: 'w word) = n then Some (word_of_int n) else None)"
| "unsigned_field _ = None"

fun signed_field :: "cbor_item \<Rightarrow> 'w::len word option" where
  "signed_field (CInt n) = (if sint (word_of_int n :: 'w word) = n then Some (word_of_int n) else None)"
| "signed_field _ = None"

definition read_fields :: "cmd_type \<Rightarrow> cbor_item list \<Rightarrow> inner option" where
  "read_fields ty fs =
     (case (ty, fs) of
        (TyOTABegin, [a]) \<Rightarrow> map_option OTABeginCmd (array_field 32 a)
      | (TyOTAUpdate, [a, b, c, d]) \<Rightarrow>
          (case (array_field 16 a, text_field b, array_field 32 c, array_field 32 d) of
             (Some ident, Some url, Some ini, Some fin) \<Rightarrow> Some (OTAUpdateCmd ident url ini fin)
           | _ \<Rightarrow> None)
      | (TyOTAProgress, [a, b, c, d]) \<Rightarrow>
          (case (array_field 16 a, unsigned_field b, signed_field c, unsigned_field d) of
             (Some ident, Some state, Some stateData, Some timestamp) \<Rightarrow> Some (OTAProgressCmd ident state stateData timestamp)
           | _ \<Rightarrow> None)
      | (TyThingBegin, [a]) \<Rightarrow> map_option ThingBeginCmd (text_field a)
      | (TyThingUpdate, [a]) \<Rightarrow> map_option ThingUpdateCmd (text_field a)
      | (TyLastValuesBegin, []) \<Rightarrow> Some LastValuesBeginCmd
      | (TyLastValuesUpdate, [a]) \<Rightarrow> map_option LastValuesUpdateCmd (slice_field a)
      | (TyDeviceBegin, [a]) \<Rightarrow> map_option DeviceBeginCmd (text_field a)
      | (TyTimezoneRequest, []) \<Rightarrow> Some TimezoneRequestCmd
      | (TyTimezoneUpdate, [a, b]) \<Rightarrow>
          (case (signed_field a, unsigned_field b) of
             (Some offset, Some until) \<Rightarrow> Some (TimezoneUpdateCmd offset until)
           | _ \<Rightarrow> None)
      | (TyThingDetach, [a]) \<Rightarrow> map_option ThingDetachCmd (text_field a)
      | _ \<Rightarrow> None)"

definition item_cmd :: "cbor_item \<Rightarrow> inner option" where
  "item_cmd i =
     (case i of
        CTag t (CArray fs) \<Rightarrow> Option.bind (map_of registeredTags t) (\<lambda>ty. read_fields ty fs)
      | _ \<Rightarrow> None)"

text \<open>
  The decoder with the tag set. What the library makes of an item of any other shape (an error, or a
  value of a type that is not a command) is \<open>rest\<close>.
\<close>

definition cmd_unmarshal ::
  "cbor_dec \<Rightarrow> (cbor_item \<Rightarrow> (cbor_error, inner) result) \<Rightarrow> bytes \<Rightarrow> (cbor_error, inner) result" where
  "cmd_unmarshal dec rest data =
     (case dec data of
        Inl e \<Rightarrow> Inl e
      | Inr i \<Rightarrow> (case item_cmd i of Some v \<Rightarrow> Inr v | None \<Rightarrow> rest i))"

text \<open>
  The commands a Go program can build, within the limits of a CBOR decoder: arrays of the declared
  length, valid texts, byte strings of a 64-bit length.
\<close>

fun cmd_ok :: "inner \<Rightarrow> bool" where
  "cmd_ok (OTABeginCmd sha) \<longleftrightarrow> length sha = 32"
| "cmd_ok (OTAUpdateCmd ident url ini fin) \<longleftrightarrow> length ident = 16 \<and> text_ok url \<and> length ini = 32 \<and> length fin = 32"
| "cmd_ok (OTAProgressCmd ident _ _ _) \<longleftrightarrow> length ident = 16"
| "cmd_ok (ThingBeginCmd t) \<longleftrightarrow> text_ok t"
| "cmd_ok (ThingUpdateCmd t) \<longleftrightarrow> text_ok t"
| "cmd_ok (LastValuesUpdateCmd b) \<longleftrightarrow> head_range (length b)"
| "cmd_ok (DeviceBeginCmd s) \<longleftrightarrow> text_ok s"
| "cmd_ok (ThingDetachCmd t) \<longleftrightarrow> text_ok t"
| "cmd_ok (DeviceNetConfigCmd c) \<longleftrightarrow> text_ok (nc_SSID c) \<and>
     list_all (\<lambda>b. head_range (length b)) [nc_IP c, nc_DNS c, nc_Gateway c, nc_Netmask c]"
| "cmd_ok _ \<longleftrightarrow> True"

section \<open>Topics\<close>

definition commandUpTopic :: "string \<Rightarrow> string" where
  "commandUpTopic deviceID = ''/a/d/'' @ deviceID @ ''/c/up''"

definition commandDownTopic :: "string \<Rightarrow> string" where
  "commandDownTopic deviceID = ''/a/d/'' @ deviceID @ ''/c/dw''"

definition propertyInTopic :: "string \<Rightarrow> string" where
  "propertyInTopic thingID = ''/a/t/'' @ thingID @ ''/e/i''"

definition propertyOutTopic :: "string \<Rightarrow> string" where
  "propertyOutTopic thingID = ''/a/t/'' @ thingID @ ''/e/o''"

lemmas topic_defs = commandUpTopic_def commandDownTopic_def propertyInTopic_def propertyOutTopic_def

lemma topic_last:
  "last (commandUpTopic d) = CHR ''p''" "last (commandDownTopic d) = CHR ''w''"
  "last (propertyInTopic t) = CHR ''i''" "last (propertyOutTopic t) = CHR ''o''"
  by (simp_all add: topic_defs)

section \<open>Properties\<close>

lemma registered_iff: "list_ex (\<lambda>e. snd e = TypeOf v) registeredTags \<longleftrightarrow> TypeOf v \<noteq> TyOther"
  by (cases v) (simp_all add: registeredTags_def)

text \<open>
  Remark. The tag table is a bijection between the twelve tags and the command types, and every
  command but a foreign value has its tag.
\<close>

theorem registeredTags_bijective:
  "distinct (map fst registeredTags) \<and> distinct (map snd registeredTags) \<and>
   (\<forall>v. (cmd_tag (Some v) = None) = (\<exists>x. v = OtherType x)) \<and>
   (\<forall>v w. (cmd_tag (Some v) = cmd_tag (Some w)) = (TypeOf v = TypeOf w))"
proof -
  have "cmd_tag (Some v) = None \<longleftrightarrow> (\<exists>x. v = OtherType x)" for v
    by (cases v) (simp_all add: cmd_tag_def registeredTags_def)
  moreover have "cmd_tag (Some v) = cmd_tag (Some w) \<longleftrightarrow> TypeOf v = TypeOf w" for v w
    by (cases "TypeOf v"; cases "TypeOf w") (simp_all add: cmd_tag_def registeredTags_def)
  ultimately show ?thesis by (simp add: registeredTags_def)
qed

definition registered :: "inner \<Rightarrow> bool" where
  "registered v \<longleftrightarrow> TypeOf v \<notin> {TyDeviceNetConfig, TyOther}"

lemma small_lengths [simp]: "head_range 16" "head_range 32"
  by (simp_all add: head_range_def)

lemma unsigned_item: "LENGTH('w) \<le> 64 \<Longrightarrow> cbor_wf (CInt (uint (w :: 'w::len word)))"
proof -
  assume "LENGTH('w) \<le> 64"
  then have "(2 :: int) ^ LENGTH('w) \<le> 2 ^ 64" by (rule power_increasing) simp
  with uint_lt2p [of w] have "uint w < 2 ^ 64" by (rule less_le_trans)
  moreover have "- (2 ^ 64) \<le> uint w" by (rule order_trans [OF _ uint_ge_0]) simp
  ultimately show ?thesis by simp
qed

lemma signed_item: "cbor_wf (CInt (sint (x :: 32 word)))"
  using sint_ge [of x] sint_lt [of x] by simp

lemma cmd_item_ok: "cmd_ok v \<Longrightarrow> head_range t \<Longrightarrow> cbor_ok (CTag t (CArray (cmd_fields v)))"
  by (cases v) (simp_all add: cbor_ok_def maxElements_def maxNesting_def text_ok_def unsigned_item signed_item del: cbor_wf.simps(1))

lemma netconfig_item_ok: "cmd_ok (DeviceNetConfigCmd c) \<Longrightarrow> cbor_ok (netconfig_item c)"
  by (simp add: netconfig_item_def cbor_ok_def maxElements_def maxNesting_def text_ok_def head_range_def
      unsigned_item Let_def del: cbor_wf.simps(1))

lemma read_cmd_fields: "cmd_ok v \<Longrightarrow> registered v \<Longrightarrow> read_fields (TypeOf v) (cmd_fields v) = Some v"
  by (cases v) (simp_all add: registered_def read_fields_def array_field_def)

lemma registered_tag:
  assumes "registered v"
  obtains t where "cmd_tag (Some v) = Some t" "map_of registeredTags t = Some (TypeOf v)" "head_range t"
  using assms by (cases v) (simp_all add: registered_def cmd_tag_def registeredTags_def head_range_def)

lemma cmd_marshal_registered:
  "registered v \<Longrightarrow> cmd_tag (Some v) = Some t \<Longrightarrow> cmd_marshal enc other v = enc (CTag t (CArray (cmd_fields v)))"
  by (cases v) (simp_all add: registered_def cmd_marshal_def)

lemma Decode_Encode_cmd:
  assumes "cbor_library enc dec" and "cmd_ok v" and "registered v" and "Encode_cmd (cmd_marshal enc other) (Some v) = Inr b"
  shows "Decode_cmd (cmd_unmarshal dec rest) b = Inr (Some v)"
proof -
  obtain t where t: "cmd_tag (Some v) = Some t" "map_of registeredTags t = Some (TypeOf v)" "head_range t"
    using registered_tag [OF assms(3)] .
  have "enc (CTag t (CArray (cmd_fields v))) = Inr b"
    using assms(4) cmd_marshal_registered [OF assms(3) t(1)] by (auto simp: Encode_cmd_def split: sum.splits)
  then have "dec b = Inr (CTag t (CArray (cmd_fields v)))"
    using cbor_libraryD [OF assms(1)] cmd_item_ok [OF assms(2) t(3)] by blast
  then show ?thesis
    using read_cmd_fields [OF assms(2,3)] t(2) assms(3)
    by (simp add: Decode_cmd_def cmd_unmarshal_def item_cmd_def registered_iff registered_def)
qed

text \<open>
  C37. The command channel is faithful, over a CBOR library that decodes the items it encoded. Every
  registered command, up or down, decodes to itself; the network configuration is on the wire the
  tagged array the cloud expects (WiFi with the network name, Ethernet with the four addresses, any
  other adapter its type alone); and \<open>From\<close> lets through the uplink commands and refuses those the
  cloud sends.
\<close>

theorem command_roundtrip:
  assumes "cbor_library enc dec" and "cmd_ok v" and "Encode_cmd (cmd_marshal enc other) (Some v) = Inr b"
  shows "(registered v \<longrightarrow> Decode_cmd (cmd_unmarshal dec rest) b = Inr (Some v)) \<and>
    (\<forall>c. v = DeviceNetConfigCmd c \<longrightarrow> dec b = Inr (CTag 0x11100 (CArray
       (if nc_Type c = 1 then [CInt 1, CText (nc_SSID c)]
        else if nc_Type c = 6 then [CInt 6, CBytes (nc_IP c), CBytes (nc_DNS c), CBytes (nc_Gateway c), CBytes (nc_Netmask c)]
        else [CInt (uint (nc_Type c))])))) \<and>
    (From v = None \<longleftrightarrow>
       TypeOf v \<in> {TyThingUpdate, TyThingDetach, TyLastValuesUpdate, TyOTAUpdate, TyTimezoneUpdate, TyOther})"
proof (intro conjI impI allI)
  assume "registered v"
  then show "Decode_cmd (cmd_unmarshal dec rest) b = Inr (Some v)" by (rule Decode_Encode_cmd [OF assms(1,2) _ assms(3)])
next
  fix c
  assume "v = DeviceNetConfigCmd c"
  then have "dec b = Inr (netconfig_item c)"
    using assms netconfig_item_ok [of c] cbor_libraryD [OF assms(1)]
    by (auto simp: Encode_cmd_def cmd_marshal_def MarshalCBOR_netconfig_def split: sum.splits)
  then show "dec b = Inr (CTag 0x11100 (CArray
       (if nc_Type c = 1 then [CInt 1, CText (nc_SSID c)]
        else if nc_Type c = 6 then [CInt 6, CBytes (nc_IP c), CBytes (nc_DNS c), CBytes (nc_Gateway c), CBytes (nc_Netmask c)]
        else [CInt (uint (nc_Type c))])))"
    by (simp add: netconfig_item_def NetworkTypeWiFi_def NetworkTypeEthernet_def Let_def)
qed (cases v; simp add: From_def uplink_def)

text \<open>The bytes of the golden vectors in \<open>codec_test.go\<close>.\<close>

lemma golden_commands:
  "cmd_marshal rfc_enc other (DeviceBeginCmd ''2.0.0'') =
     Inr [0xda, 0x00, 0x01, 0x07, 0x00, 0x81, 0x65, 0x32, 0x2e, 0x30, 0x2e, 0x30]"
  "cmd_marshal rfc_enc other (ThingBeginCmd []) = Inr [0xda, 0x00, 0x01, 0x03, 0x00, 0x81, 0x60]"
  "cmd_marshal rfc_enc other LastValuesBeginCmd = Inr [0xda, 0x00, 0x01, 0x05, 0x00, 0x80]"
  "cmd_marshal rfc_enc other (DeviceNetConfigCmd \<lparr>nc_Type = 1, nc_SSID = ''SSID'', nc_IP = [], nc_DNS = [], nc_Gateway = [], nc_Netmask = []\<rparr>) =
     Inr [0xda, 0x00, 0x01, 0x11, 0x00, 0x82, 0x01, 0x64, 0x53, 0x53, 0x49, 0x44]"
  "cmd_marshal rfc_enc other (DeviceNetConfigCmd \<lparr>nc_Type = 6, nc_SSID = [], nc_IP = [], nc_DNS = [], nc_Gateway = [], nc_Netmask = []\<rparr>) =
     Inr [0xda, 0x00, 0x01, 0x11, 0x00, 0x85, 0x06, 0x40, 0x40, 0x40, 0x40]"
  by (simp_all add: cmd_marshal_def cmd_tag_def registeredTags_def rfc_enc_def cbor_head_def wide_head_def
      initial_byte_def be_bytes_4 bytes_of_def MarshalCBOR_netconfig_def netconfig_item_def
      NetworkTypeWiFi_def NetworkTypeEthernet_def int_head_def)

theorem command_roundtrip_witness:
  "Decode_cmd (cmd_unmarshal rfc_dec (\<lambda>_. Inl (CborError []))) [0xda, 0x00, 0x01, 0x03, 0x00, 0x81, 0x60] =
     Inr (Some (ThingBeginCmd []))"
  using command_roundtrip [OF rfc_library, of "ThingBeginCmd []" "\<lambda>_. Inl (CborError [])"] golden_commands(2)
  by (simp add: Encode_cmd_def registered_def text_ok_def head_range_def)

text \<open>
  Remark. The four topic families are injective in the identifier and pairwise disjoint, whatever the
  identifiers are: a device never hears its own publications, and a command topic is never a
  property topic.
\<close>

theorem topics_disjoint:
  "inj commandUpTopic \<and> inj commandDownTopic \<and> inj propertyInTopic \<and> inj propertyOutTopic \<and>
   commandUpTopic d \<noteq> commandDownTopic e \<and> propertyInTopic s \<noteq> propertyOutTopic t \<and>
   commandUpTopic d \<noteq> propertyInTopic s \<and> commandUpTopic d \<noteq> propertyOutTopic s \<and>
   commandDownTopic d \<noteq> propertyInTopic s \<and> commandDownTopic d \<noteq> propertyOutTopic s"
proof -
  have "inj commandUpTopic" "inj commandDownTopic" "inj propertyInTopic" "inj propertyOutTopic"
    by (simp_all add: inj_def topic_defs)
  moreover have "x \<noteq> y" if "last x \<noteq> last y" for x y :: string using that by auto
  ultimately show ?thesis by (simp add: topic_last)
qed

end
