(* ===== verification/Cloud_FSM.thy ===== *)
theory Cloud_FSM
  imports Variables Mqtt_Command
begin

text \<open>
  The cloud lifecycle state machine of \<open>internal/daemon/cloud/fsm.go\<close>. Each state function is an
  entry part (what runs up to its \<open>select\<close>) and a handler per case of the \<open>select\<close>; the locals
  of a waiting state function (its delays, phase, attempt counter) are part of the control point.
  The MQTT client is an oracle: every call is recorded with the answer it got. The environment of
  a step also holds the clock reading, the random seed, the detected network and whether the
  context is cancelled. Callbacks of the client enqueue events at any moment through \<open>send\<close>.
\<close>

section \<open>States, events and client calls\<close>

datatype State =
    StateNone | StateDisconnected | StateReconnecting | StateConnecting | StateAnnouncingDevice
  | StateAwaitingThingID | StateSyncingLastValues | StateSteady

text \<open>\<open>StateNone\<close> is the zero value of the Go string, before the first transition.\<close>

datatype event =
    evCommandMessage Cmd
  | evPropertyMessage bytes
  | evConnectionLost string

datatype mcall =
    Connect
  | Disconnect
  | SubscribeCommandChannel string
  | SubscribePropertyTopic string
  | UnsubscribePropertyTopic string
  | PublishCommand string Cmd

text \<open>The answer of a call: \<open>None\<close> for success, or the error.\<close>

type_synonym answer = "string option"

record env =
  env_ans :: "mcall \<Rightarrow> answer"
  env_cancelled :: bool
  env_netConfig :: "DeviceNetConfig option"
  env_seed :: "nat option"
  env_now :: time

record timers =
  tm_connBackoffBase :: duration
  tm_thingBeginRetry :: duration
  tm_lastValuesTimeout :: duration

datatype phase = phasePending | phaseRegistered

text \<open>
  The control point of \<open>Run\<close>: a state function to enter, the \<open>select\<close> it waits at, the end of
  the loop (a state function returned nil), or the end of \<open>Run\<close> after the deferred shutdown.
\<close>

datatype stateFn =
    runReconnecting | WaitBackoff duration
  | runConnecting
  | runAnnouncingDevice
  | runAwaitingThingID | WaitThingID duration duration phase
  | runSyncingLastValues | WaitLastValues nat duration
  | runSteady | WaitSteady
  | Returned | Finished

record Snapshot =
  snap_State :: State
  snap_ThingID :: string

record FSM =
  f_version :: string
  f_deviceID :: string
  f_state :: State
  f_thingID :: ThingID
  f_connBackoff :: duration
  f_snapshot :: Snapshot
  f_events :: "event list"
  f_reg :: Registry
  f_timers :: timers
  f_pc :: stateFn
  f_calls :: "(mcall \<times> answer) list"

section \<open>Back-off\<close>

definition connBackoffBase :: duration where
  "connBackoffBase = 1 * second"

definition connBackoffMax :: duration where
  "connBackoffMax = 300 * second"

definition thingIDPhase1Base :: duration where
  "thingIDPhase1Base = 2 * second"

definition thingIDPhase1Max :: duration where
  "thingIDPhase1Max = 32 * second"

definition thingIDPhase2Base :: duration where
  "thingIDPhase2Base = 20 * second"

definition thingIDPhase2Max :: duration where
  "thingIDPhase2Max = 1280 * second"

definition lastValuesRetryInterval :: duration where
  "lastValuesRetryInterval = 15 * second"

definition lastValuesMaxRetries :: nat where
  "lastValuesMaxRetries = 10"

text \<open>
  The constants 2.0 and 0.10 as float64; \<open>0.10\<close> rounds to 3602879701896397 / 2 ^ 55. The seed is
  uniform in 0 to 9, or 0 when the random source fails. Both conversions to \<open>Duration\<close> are in
  range for every delay the machine computes; \<open>oob\<close> is what an out-of-range one would give.
\<close>

definition connBackoffJitter :: f64 where
  "connBackoffJitter = Fin (3602879701896397 / 2 ^ 55)"

definition nextConnBackoff :: "(f64 \<Rightarrow> int) \<Rightarrow> nat option \<Rightarrow> duration \<Rightarrow> duration" where
  "nextConnBackoff oob randomSeed current =
     (let next = f64_to_int64 oob (f64_mul (f64_of_int current) (Fin 2));
          next = (if connBackoffMax < next then connBackoffMax else next);
          seed = (case randomSeed of None \<Rightarrow> 0 | Some s \<Rightarrow> int s);
          jitter = f64_mul (f64_mul (f64_of_int next) connBackoffJitter)
                     (f64_sub (f64_mul (f64_of_int seed) (Fin 2)) (Fin 1))
      in next + f64_to_int64 oob jitter)"

definition nextThingIDBackoff :: "duration \<Rightarrow> duration \<Rightarrow> duration" where
  "nextThingIDBackoff current maxDelay =
     (let next = current * 2 in if maxDelay < next then maxDelay else next)"

section \<open>Helpers\<close>

definition transition :: "State \<Rightarrow> ThingID \<Rightarrow> FSM \<Rightarrow> FSM" where
  "transition state thingID f =
     f\<lparr>f_state := state, f_snapshot := \<lparr>snap_State = state, snap_ThingID = thingID\<rparr>\<rparr>"

text \<open>The event channel has capacity 64; a full channel drops the event.\<close>

definition send :: "event \<Rightarrow> FSM \<Rightarrow> FSM" where
  "send ev f = (if length (f_events f) < 64 then f\<lparr>f_events := f_events f @ [ev]\<rparr> else f)"

function drainEvents :: "FSM \<Rightarrow> FSM" where
  "drainEvents f = (case f_events f of [] \<Rightarrow> f | e # es \<Rightarrow> drainEvents (f\<lparr>f_events := es\<rparr>))"
  by pat_completeness auto
termination
  by (relation "measure (\<lambda>f. length (f_events f))") auto

declare drainEvents.simps [simp del]

definition call :: "env \<Rightarrow> mcall \<Rightarrow> FSM \<Rightarrow> answer \<times> FSM" where
  "call en c f = (env_ans en c, f\<lparr>f_calls := f_calls f @ [(c, env_ans en c)]\<rparr>)"

definition goto :: "stateFn \<Rightarrow> FSM \<Rightarrow> FSM" where
  "goto pc f = f\<lparr>f_pc := pc\<rparr>"

text \<open>\<open>f.client.Disconnect(); return f.runReconnecting\<close>.\<close>

definition disconnect_and_reconnect :: "env \<Rightarrow> FSM \<Rightarrow> FSM" where
  "disconnect_and_reconnect en f = goto runReconnecting (snd (call en Disconnect f))"

fun set_values :: "time \<Rightarrow> SenmlVariable list \<Rightarrow> Registry \<Rightarrow> Registry" where
  "set_values now [] r = r"
| "set_values now (v # vs) r =
     set_values now vs (SetValue now r (sv_Name v) (sv_Value v) (sv_Timestamp v) [])"

definition to_registry :: "SenmlVariable \<Rightarrow> Variable" where
  "to_registry v = \<lparr>var_Name = sv_Name v, var_Value = sv_Value v, var_Timestamp = sv_Timestamp v\<rparr>"

type_synonym decoder = "bytes \<Rightarrow> (senml_error, SenmlVariable list) result"

text \<open>The second component is the error \<open>applyProperties\<close> returns.\<close>

definition applyProperties ::
  "decoder \<Rightarrow> time \<Rightarrow> bytes \<Rightarrow> bool \<Rightarrow> Registry \<Rightarrow> Registry \<times> senml_error option" where
  "applyProperties decode now payload isLastValues r =
     (let (vars, err) =
            (if payload \<noteq> []
             then (case decode payload of Inl e \<Rightarrow> ([], Some e) | Inr vs \<Rightarrow> (vs, None))
             else ([], None))
      in if \<not> isLastValues then
           (case err of Some e \<Rightarrow> (r, Some e) | None \<Rightarrow> (set_values now vars r, None))
         else (ApplyLastValues now r (map to_registry vars), err))"

definition apply_to :: "decoder \<Rightarrow> env \<Rightarrow> bytes \<Rightarrow> bool \<Rightarrow> FSM \<Rightarrow> FSM" where
  "apply_to decode en payload isLastValues f =
     f\<lparr>f_reg := fst (applyProperties decode (env_now en) payload isLastValues (f_reg f))\<rparr>"

section \<open>State functions\<close>

definition Reconnecting_entry :: "(f64 \<Rightarrow> int) \<Rightarrow> env \<Rightarrow> FSM \<Rightarrow> FSM" where
  "Reconnecting_entry oob en f =
     (let f = drainEvents (transition StateReconnecting [] f);
          base = tm_connBackoffBase (f_timers f);
          delay = f_connBackoff f;
          delay = (if delay = 0 then base else nextConnBackoff oob (env_seed en) delay)
      in goto (WaitBackoff delay) (f\<lparr>f_connBackoff := delay\<rparr>))"

definition Connecting_entry :: "env \<Rightarrow> FSM \<Rightarrow> FSM" where
  "Connecting_entry en f =
     (case call en Connect (transition StateConnecting [] f) of
        (Some _, f) \<Rightarrow> if env_cancelled en then goto Returned f else goto runReconnecting f
      | (None, f) \<Rightarrow> goto runAnnouncingDevice (f\<lparr>f_connBackoff := 0\<rparr>))"

definition publishNetConfig :: "env \<Rightarrow> FSM \<Rightarrow> FSM" where
  "publishNetConfig en f =
     (case env_netConfig en of
        None \<Rightarrow> f
      | Some nc \<Rightarrow> snd (call en (PublishCommand (f_deviceID f) (Some (DeviceNetConfigCmd nc))) f))"

definition AnnouncingDevice_entry :: "env \<Rightarrow> FSM \<Rightarrow> FSM" where
  "AnnouncingDevice_entry en f =
     (case call en (SubscribeCommandChannel (f_deviceID f)) (transition StateAnnouncingDevice [] f) of
        (Some _, f) \<Rightarrow> disconnect_and_reconnect en f
      | (None, f) \<Rightarrow>
     (case call en (PublishCommand (f_deviceID f) (Some (DeviceBeginCmd (f_version f)))) f of
        (Some _, f) \<Rightarrow> disconnect_and_reconnect en f
      | (None, f) \<Rightarrow> goto runAwaitingThingID (publishNetConfig en f)))"

definition AwaitingThingID_entry :: "env \<Rightarrow> FSM \<Rightarrow> FSM" where
  "AwaitingThingID_entry en f =
     (case call en (PublishCommand (f_deviceID f) (Some (ThingBeginCmd [])))
             (transition StateAwaitingThingID [] (f\<lparr>f_thingID := []\<rparr>)) of
        (Some _, f) \<Rightarrow> disconnect_and_reconnect en f
      | (None, f) \<Rightarrow>
          let phase1Base = (if 0 < tm_thingBeginRetry (f_timers f)
                            then tm_thingBeginRetry (f_timers f) else thingIDPhase1Base)
          in goto (WaitThingID phase1Base thingIDPhase1Max phasePending) f)"

definition AwaitingThingID_timer :: "env \<Rightarrow> duration \<Rightarrow> duration \<Rightarrow> phase \<Rightarrow> FSM \<Rightarrow> FSM" where
  "AwaitingThingID_timer en delay maxDelay ph f =
     (case call en (PublishCommand (f_deviceID f) (Some (ThingBeginCmd []))) f of
        (Some _, f) \<Rightarrow> disconnect_and_reconnect en f
      | (None, f) \<Rightarrow> goto (WaitThingID (nextThingIDBackoff delay maxDelay) maxDelay ph) f)"

definition AwaitingThingID_event :: "duration \<Rightarrow> duration \<Rightarrow> phase \<Rightarrow> event \<Rightarrow> FSM \<Rightarrow> FSM" where
  "AwaitingThingID_event delay maxDelay ph ev f =
     (case ev of
        evConnectionLost _ \<Rightarrow> goto runReconnecting f
      | evCommandMessage c \<Rightarrow>
          (case c of
             Some (ThingUpdateCmd tid) \<Rightarrow>
               if tid = [] then
                 (if ph = phasePending
                  then goto (WaitThingID thingIDPhase2Base thingIDPhase2Max phaseRegistered) f
                  else f)
               else goto runSyncingLastValues (f\<lparr>f_thingID := tid\<rparr>)
           | _ \<Rightarrow> f)
      | evPropertyMessage _ \<Rightarrow> f)"

definition requestLastValues :: "env \<Rightarrow> FSM \<Rightarrow> answer \<times> FSM" where
  "requestLastValues en f = call en (PublishCommand (f_deviceID f) (Some LastValuesBeginCmd)) f"

definition SyncingLastValues_entry :: "env \<Rightarrow> FSM \<Rightarrow> FSM" where
  "SyncingLastValues_entry en f =
     (case call en (SubscribePropertyTopic (f_thingID f))
             (transition StateSyncingLastValues (f_thingID f) f) of
        (Some _, f) \<Rightarrow> disconnect_and_reconnect en f
      | (None, f) \<Rightarrow>
     (case requestLastValues en f of
        (Some _, f) \<Rightarrow> disconnect_and_reconnect en f
      | (None, f) \<Rightarrow>
          let lvTimeout = (if 0 < tm_lastValuesTimeout (f_timers f)
                           then tm_lastValuesTimeout (f_timers f) else lastValuesRetryInterval)
          in goto (WaitLastValues 1 lvTimeout) f))"

definition SyncingLastValues_timer :: "env \<Rightarrow> nat \<Rightarrow> FSM \<Rightarrow> FSM" where
  "SyncingLastValues_timer en attempts f =
     (if lastValuesMaxRetries \<le> attempts
      then goto runSteady (f\<lparr>f_reg := ApplyLastValues (env_now en) (f_reg f) []\<rparr>)
      else case requestLastValues en f of
             (Some _, f) \<Rightarrow> disconnect_and_reconnect en f
           | (None, f) \<Rightarrow> goto (WaitLastValues (Suc attempts) (tm_lastValuesTimeout (f_timers f))) f)"

definition SyncingLastValues_event :: "decoder \<Rightarrow> env \<Rightarrow> event \<Rightarrow> FSM \<Rightarrow> FSM" where
  "SyncingLastValues_event decode en ev f =
     (case ev of
        evConnectionLost _ \<Rightarrow> goto runReconnecting f
      | evCommandMessage c \<Rightarrow>
          (case c of
             Some (LastValuesUpdateCmd values) \<Rightarrow> goto runSteady (apply_to decode en values True f)
           | Some (ThingDetachCmd _) \<Rightarrow>
               goto runAwaitingThingID (snd (call en (UnsubscribePropertyTopic (f_thingID f)) f))
           | _ \<Rightarrow> f)
      | evPropertyMessage _ \<Rightarrow> f)"

definition handleSteadyCommand :: "decoder \<Rightarrow> env \<Rightarrow> Cmd \<Rightarrow> FSM \<Rightarrow> FSM" where
  "handleSteadyCommand decode en c f =
     (case c of
        Some (ThingDetachCmd _) \<Rightarrow>
          goto runAwaitingThingID (snd (call en (UnsubscribePropertyTopic (f_thingID f)) f))
      | Some (ThingUpdateCmd tid) \<Rightarrow>
          if tid = f_thingID f then f
          else if tid = [] then
            goto runAwaitingThingID (snd (call en (UnsubscribePropertyTopic (f_thingID f)) f))
          else
            (let f = snd (call en (UnsubscribePropertyTopic (f_thingID f)) f);
                 f = transition StateSteady tid (f\<lparr>f_thingID := tid\<rparr>)
             in case call en (SubscribePropertyTopic tid) f of
                  (Some _, f) \<Rightarrow> disconnect_and_reconnect en f
                | (None, f) \<Rightarrow> snd (requestLastValues en f))
      | Some (LastValuesUpdateCmd values) \<Rightarrow> apply_to decode en values True f
      | _ \<Rightarrow> f)"

definition Steady_entry :: "FSM \<Rightarrow> FSM" where
  "Steady_entry f = goto WaitSteady (transition StateSteady (f_thingID f) f)"

definition Steady_event :: "decoder \<Rightarrow> env \<Rightarrow> event \<Rightarrow> FSM \<Rightarrow> FSM" where
  "Steady_event decode en ev f =
     (case ev of
        evConnectionLost _ \<Rightarrow> goto runReconnecting f
      | evCommandMessage c \<Rightarrow> handleSteadyCommand decode en c f
      | evPropertyMessage payload \<Rightarrow> apply_to decode en payload False f)"

definition shutdown :: "env \<Rightarrow> FSM \<Rightarrow> FSM" where
  "shutdown en f =
     (let f = (if f_thingID f \<noteq> [] then snd (call en (UnsubscribePropertyTopic (f_thingID f)) f) else f);
          f = snd (call en Disconnect f)
      in transition StateDisconnected [] f)"

section \<open>Construction and the run loop\<close>

definition newFSM :: "string \<Rightarrow> string \<Rightarrow> Registry \<Rightarrow> FSM" where
  "newFSM version deviceID reg =
     \<lparr>f_version = version, f_deviceID = deviceID, f_state = StateNone, f_thingID = [],
      f_connBackoff = 0, f_snapshot = \<lparr>snap_State = StateDisconnected, snap_ThingID = []\<rparr>,
      f_events = [], f_reg = reg,
      f_timers = \<lparr>tm_connBackoffBase = connBackoffBase, tm_thingBeginRetry = thingIDPhase1Base,
                  tm_lastValuesTimeout = lastValuesRetryInterval\<rparr>,
      f_pc = runReconnecting, f_calls = []\<rparr>"

datatype cloud_error = ReadDeviceID string

definition New :: "string \<Rightarrow> (string, string) result \<Rightarrow> Registry \<Rightarrow> (cloud_error, FSM) result" where
  "New version deviceID reg =
     (case deviceID of Inl e \<Rightarrow> Inl (ReadDeviceID e) | Inr d \<Rightarrow> Inr (newFSM version d reg))"

text \<open>The entry part of the state function at the control point, if there is one to run.\<close>

definition fsm_enter :: "(f64 \<Rightarrow> int) \<Rightarrow> env \<Rightarrow> FSM \<Rightarrow> FSM option" where
  "fsm_enter oob en f =
     (case f_pc f of
        runReconnecting \<Rightarrow> Some (Reconnecting_entry oob en f)
      | runConnecting \<Rightarrow> Some (Connecting_entry en f)
      | runAnnouncingDevice \<Rightarrow> Some (AnnouncingDevice_entry en f)
      | runAwaitingThingID \<Rightarrow> Some (AwaitingThingID_entry en f)
      | runSyncingLastValues \<Rightarrow> Some (SyncingLastValues_entry en f)
      | runSteady \<Rightarrow> Some (Steady_entry f)
      | _ \<Rightarrow> None)"

text \<open>The timer case of the \<open>select\<close> at the control point.\<close>

definition fsm_timer :: "env \<Rightarrow> FSM \<Rightarrow> FSM option" where
  "fsm_timer en f =
     (case f_pc f of
        WaitBackoff _ \<Rightarrow> Some (goto runConnecting f)
      | WaitThingID delay maxDelay ph \<Rightarrow> Some (AwaitingThingID_timer en delay maxDelay ph f)
      | WaitLastValues attempts _ \<Rightarrow> Some (SyncingLastValues_timer en attempts f)
      | _ \<Rightarrow> None)"

text \<open>The events case: the first event of the channel is taken, when the \<open>select\<close> listens to it.\<close>

definition fsm_recv :: "decoder \<Rightarrow> env \<Rightarrow> FSM \<Rightarrow> FSM option" where
  "fsm_recv decode en f =
     (case f_events f of
        [] \<Rightarrow> None
      | ev # evs \<Rightarrow>
          (case f_pc f of
             WaitThingID delay maxDelay ph \<Rightarrow>
               Some (AwaitingThingID_event delay maxDelay ph ev (f\<lparr>f_events := evs\<rparr>))
           | WaitLastValues _ _ \<Rightarrow> Some (SyncingLastValues_event decode en ev (f\<lparr>f_events := evs\<rparr>))
           | WaitSteady \<Rightarrow> Some (Steady_event decode en ev (f\<lparr>f_events := evs\<rparr>))
           | _ \<Rightarrow> None))"

text \<open>The cancellation case, followed by the deferred \<open>shutdown\<close>.\<close>

definition waiting :: "stateFn \<Rightarrow> bool" where
  "waiting pc \<longleftrightarrow>
     (case pc of WaitBackoff _ \<Rightarrow> True | WaitThingID _ _ _ \<Rightarrow> True | WaitLastValues _ _ \<Rightarrow> True
      | WaitSteady \<Rightarrow> True | _ \<Rightarrow> False)"

definition fsm_cancel :: "FSM \<Rightarrow> FSM option" where
  "fsm_cancel f = (if waiting (f_pc f) then Some (goto Returned f) else None)"

section \<open>Bounds of the back-off\<close>

lemma fround_rel_bounds:
  assumes "1 \<le> \<bar>x\<bar>"
  shows "\<bar>fround x - x\<bar> \<le> \<bar>x\<bar> / 2 ^ 53"
proof -
  have "(2 :: rat) powi (- 1022) \<le> 2 powi 0" by (rule power_int_increasing) simp_all
  then have "2 powi (- 1022) \<le> \<bar>x\<bar>" using assms unfolding power_int_0_right by (rule order_trans)
  then have "\<bar>fround x - x\<bar> \<le> \<bar>x\<bar> * 2 powi (- 53)" by (rule fround_rel_error)
  moreover have "\<bar>x\<bar> * 2 powi (- 53) = \<bar>x\<bar> / 2 ^ 53"
    by (simp add: power_int_def power_divide)
  ultimately show ?thesis by (simp only:)
qed

lemma fl_small:
  assumes "1 \<le> \<bar>x\<bar>" and "\<bar>x\<bar> \<le> 2 ^ 60"
  shows "fl x = Fin (fround x)"
proof -
  have "\<bar>fround x\<bar> \<le> \<bar>x\<bar> + \<bar>x\<bar> / 2 ^ 53" using fround_rel_bounds [OF assms(1)] by linarith
  then have "\<bar>fround x\<bar> \<le> 2 ^ 61" using assms by (simp add: field_simps)
  moreover have "(2 ^ 61 :: rat) < 2 ^ 1024" by simp
  ultimately have "\<bar>fround x\<bar> < 2 ^ 1024" by (rule le_less_trans)
  then show ?thesis by (simp add: fl_def Let_def)
qed

lemma trunc_abs_le: "\<bar>of_int (trunc x)\<bar> \<le> \<bar>x\<bar>" and trunc_sign: "0 \<le> x \<Longrightarrow> 0 \<le> trunc x"
proof -
  show "0 \<le> x \<Longrightarrow> 0 \<le> trunc x" by (simp add: trunc_def)
  show "\<bar>of_int (trunc x)\<bar> \<le> \<bar>x\<bar>"
  proof (cases "0 \<le> x")
    case True
    then show ?thesis using trunc_nonneg_le [of x] by simp
  next
    case False
    then show ?thesis using trunc_neg_ge [of x] by (simp add: abs_if)
  qed
qed

lemma f64_mul_relative:
  assumes "1 \<le> \<bar>x * y\<bar>" and "\<bar>x * y\<bar> \<le> 2 ^ 60"
  obtains r where "f64_mul (Fin x) (Fin y) = Fin r" "\<bar>r - x * y\<bar> \<le> (1 / 1000000) * \<bar>x * y\<bar>"
proof
  show "f64_mul (Fin x) (Fin y) = Fin (fround (x * y))" using fl_small [OF assms] by simp
  have "\<bar>x * y\<bar> / 2 ^ 53 \<le> (1 / 1000000) * \<bar>x * y\<bar>" by simp
  with fround_rel_bounds [OF assms(1)] show "\<bar>fround (x * y) - x * y\<bar> \<le> (1 / 1000000) * \<bar>x * y\<bar>"
    by (rule order_trans)
qed

text \<open>The jitter factor, the float nearest 0.1, times a delay between one second and the cap.\<close>

lemma jitter_scaled:
  assumes "1000000000 \<le> n" and "n \<le> (300000000000 :: int)"
  obtains b where "f64_mul (Fin (of_int n)) connBackoffJitter = Fin b" "1 \<le> b"
    "b \<le> (10002 / 100000) * of_int n"
proof -
  define c :: rat where "c = 3602879701896397 / 2 ^ 55"
  have c: "0 < c" "c \<le> (10001 / 100000)" "(9999 / 100000) \<le> c" by (simp_all add: c_def)
  have nr: "1000000000 \<le> (of_int n :: rat)" "(of_int n :: rat) \<le> 300000000000"
    using assms by simp_all
  define a where "a = of_int n * c"
  have "1000000000 * (9999 / 100000) \<le> of_int n * c" using nr c by (intro mult_mono) auto
  then have lo: "100 \<le> a" by (simp add: a_def)
  have hi: "a \<le> (10001 / 100000) * of_int n" using nr c by (simp add: a_def mult.commute mult_left_mono)
  obtain b where b: "f64_mul (Fin (of_int n)) (Fin c) = Fin b" "\<bar>b - a\<bar> \<le> (1 / 1000000) * \<bar>a\<bar>"
    using f64_mul_relative [of "of_int n" c] lo hi nr unfolding a_def [symmetric] by auto
  show ?thesis
  proof (rule that [of b])
    show "f64_mul (Fin (of_int n)) connBackoffJitter = Fin b"
      using b(1) by (simp add: connBackoffJitter_def c_def)
    show "1 \<le> b" "b \<le> (10002 / 100000) * of_int n"
      using abs_le_D1 [OF b(2)] abs_le_D2 [OF b(2)] lo hi nr by (simp, simp)
  qed
qed

text \<open>The jitter is at most 0.101 of the delay for the seed 0, and 1.71 times the delay otherwise.\<close>

lemma jitter_bounds:
  fixes n k :: int
  assumes n: "1000000000 \<le> n" "n \<le> 300000000000" and k: "k = - 1 \<or> 1 \<le> k \<and> k \<le> 17"
  obtains r where "f64_mul (f64_mul (Fin (of_int n)) connBackoffJitter) (Fin (of_int k)) = Fin r"
    "\<bar>r\<bar> \<le> (201 / 2000) * of_int (\<bar>k\<bar> * n)" "0 \<le> r \<longleftrightarrow> 0 \<le> k"
proof -
  obtain b where b: "f64_mul (Fin (of_int n)) connBackoffJitter = Fin b" "1 \<le> b"
      "b \<le> (10002 / 100000) * of_int n"
    by (rule jitter_scaled [OF n])
  define x where "x = b * of_int k"
  define m :: rat where "m = of_int (\<bar>k\<bar> * n)"
  have ax: "\<bar>x\<bar> = b * of_int \<bar>k\<bar>" using b(2) by (simp add: x_def abs_mult)
  have k1: "1 \<le> (of_int \<bar>k\<bar> :: rat)" "(of_int \<bar>k\<bar> :: rat) \<le> 17" using k by auto
  have x1: "1 \<le> \<bar>x\<bar>" using mult_mono [of 1 b 1 "of_int \<bar>k\<bar>"] b(2) k1 by (simp add: ax)
  have xm: "\<bar>x\<bar> \<le> (10002 / 100000) * m"
    using mult_right_mono [OF b(3), of "of_int \<bar>k\<bar>"] k1 by (simp add: ax m_def mult_ac)
  have "\<bar>k\<bar> * n \<le> 17 * 300000000000" using n k by (intro mult_mono) auto
  then have "m \<le> of_int (17 * 300000000000)" unfolding m_def by (simp only: of_int_le_iff)
  then have m: "m \<le> 17 * 300000000000" "0 \<le> m" using n by (simp_all add: m_def)
  obtain r where r: "f64_mul (Fin b) (Fin (of_int k)) = Fin r" "\<bar>r - x\<bar> \<le> (1 / 1000000) * \<bar>x\<bar>"
    using f64_mul_relative [of b "of_int k"] x1 xm m unfolding x_def [symmetric] by auto
  show ?thesis
  proof (rule that [of r])
    show "f64_mul (f64_mul (Fin (of_int n)) connBackoffJitter) (Fin (of_int k)) = Fin r"
      using b(1) r(1) by simp
    show "\<bar>r\<bar> \<le> (201 / 2000) * of_int (\<bar>k\<bar> * n)" using r(2) xm m unfolding m_def [symmetric] by linarith
    have "0 \<le> r \<longleftrightarrow> 0 \<le> x" using r(2) x1 by linarith
    also have "\<dots> \<longleftrightarrow> 0 \<le> k" using b(2) by (simp add: x_def zero_le_mult_iff)
    finally show "0 \<le> r \<longleftrightarrow> 0 \<le> k" .
  qed
qed

text \<open>The jitter as the duration the code adds: between minus 0.11 and 1.71 times the delay.\<close>

lemma jitter_duration:
  fixes n k :: int
  assumes n: "2000000000 \<le> n" "n \<le> 300000000000" and k: "k = - 1 \<or> 1 \<le> k \<and> k \<le> 17"
  obtains t where
    "f64_to_int64 oob (f64_mul (f64_mul (f64_of_int n) connBackoffJitter) (Fin (of_int k))) = t"
    "- 11 * n \<le> 100 * t" "100 * t \<le> 171 * n"
proof -
  obtain r where r: "f64_mul (f64_mul (Fin (of_int n)) connBackoffJitter) (Fin (of_int k)) = Fin r"
      "\<bar>r\<bar> \<le> (201 / 2000) * of_int (\<bar>k\<bar> * n)" "0 \<le> r \<longleftrightarrow> 0 \<le> k"
    using jitter_bounds [of n k] n k by auto
  have "\<bar>of_int (trunc r)\<bar> \<le> (201 / 2000) * (of_int (\<bar>k\<bar> * n) :: rat)"
    using trunc_abs_le [of r] r(2) by (rule order_trans)
  then have "(of_int (2000 * \<bar>trunc r\<bar>) :: rat) \<le> of_int (201 * (\<bar>k\<bar> * n))" by simp
  then have tr: "2000 * \<bar>trunc r\<bar> \<le> 201 * (\<bar>k\<bar> * n)" by (simp only: of_int_le_iff)
  have kn: "\<bar>k\<bar> * n \<le> 17 * n" using k n by (intro mult_right_mono) auto
  have "f64_of_int n = Fin (of_int n)" using n by (intro f64_of_int_exact) simp
  moreover have "\<bar>trunc r\<bar> < 9223372036854775808" using tr kn n by linarith
  ultimately have
    "f64_to_int64 oob (f64_mul (f64_mul (f64_of_int n) connBackoffJitter) (Fin (of_int k))) = trunc r"
    using r(1) by (simp add: Let_def abs_less_iff)
  moreover have "- 11 * n \<le> 100 * trunc r"
  proof (cases "0 \<le> k")
    case True
    then have "0 \<le> trunc r" using r(3) trunc_sign by blast
    then show ?thesis using n by simp
  next
    case False
    then have "\<bar>k\<bar> * n = n" using k by auto
    then show ?thesis using tr n abs_ge_minus_self [of "trunc r"] by simp
  qed
  moreover have "100 * trunc r \<le> 171 * n"
    using order_trans [OF tr, of "201 * (17 * n)"] kn abs_ge_self [of "trunc r"] n by simp
  ultimately show ?thesis by (rule that)
qed

lemma nextConnBackoff_range:
  assumes cur: "1 * second \<le> current" "current \<le> 813 * second"
    and seed: "randomSeed = None \<or> (\<exists>s < 10. randomSeed = Some s)"
  shows "let nxt = min (2 * current) connBackoffMax; d = nextConnBackoff oob randomSeed current
    in 89 * nxt \<le> 100 * d \<and> 100 * d \<le> 271 * nxt \<and> 1 * second \<le> d \<and> d \<le> 813 * second"
proof -
  define nxt where "nxt = min (2 * current) connBackoffMax"
  have nx: "2000000000 \<le> nxt" "nxt \<le> 300000000000"
    using cur by (simp_all add: nxt_def connBackoffMax_def second_def)
  have c53: "\<bar>current\<bar> \<le> 2 ^ 53" using cur by (simp add: second_def)
  have "f64_mul (f64_of_int current) (Fin 2) = Fin (of_int (current * 2))"
    using f64_mul_exact [of current 2] cur by (simp add: f64_of_int_exact [OF c53] second_def)
  then have dbl: "f64_to_int64 oob (f64_mul (f64_of_int current) (Fin 2)) = 2 * current"
    using f64_to_int64_exact [of "current * 2" oob] cur by (simp add: second_def)
  define sd where "sd = (case randomSeed of None \<Rightarrow> 0 | Some s \<Rightarrow> int s)"
  have sd: "0 \<le> sd" "sd < 10" using seed by (auto simp: sd_def)
  define k where "k = 2 * sd - 1"
  have "f64_mul (f64_of_int sd) (Fin 2) = Fin (of_int (sd * 2))"
    using f64_mul_exact [of sd 2] sd by (simp add: f64_of_int_exact)
  then have kf: "f64_sub (f64_mul (f64_of_int sd) (Fin 2)) (Fin 1) = Fin (of_int k)"
    using f64_sub_exact [of "sd * 2" 1] sd by (simp add: k_def mult.commute)
  have k: "k = - 1 \<or> 1 \<le> k \<and> k \<le> 17" using sd by (auto simp: k_def)
  obtain t where
    t: "f64_to_int64 oob (f64_mul (f64_mul (f64_of_int nxt) connBackoffJitter) (Fin (of_int k))) = t"
      "- 11 * nxt \<le> 100 * t" "100 * t \<le> 171 * nxt"
    by (rule jitter_duration [OF nx k])
  have "connBackoffMax < 2 * current \<Longrightarrow> connBackoffMax = nxt"
    "\<not> connBackoffMax < 2 * current \<Longrightarrow> 2 * current = nxt" by (simp_all add: nxt_def)
  then have d: "nextConnBackoff oob randomSeed current = nxt + t"
    unfolding nextConnBackoff_def Let_def dbl sd_def [symmetric] kf using t(1) by auto
  show ?thesis
    using t(2,3) nx unfolding Let_def d nxt_def [symmetric] by (simp add: second_def)
qed

lemma nextConnBackoff_in_range:
  "1 * second \<le> current \<Longrightarrow> current \<le> 813 * second \<Longrightarrow>
   randomSeed = None \<or> (\<exists>s < 10. randomSeed = Some s) \<Longrightarrow>
   1 * second \<le> nextConnBackoff oob randomSeed current \<and>
   nextConnBackoff oob randomSeed current \<le> 813 * second"
  using nextConnBackoff_range [of current randomSeed oob] by (simp add: Let_def)

text \<open>
  Remark. The broker back-off on its working range: from a delay of at least one second, the next one
  is at least 0.89 and at most 2.71 times the doubled (and capped) delay, so it never shrinks below
  a second and never exceeds 813 seconds, and the conversions between durations and \<open>float64\<close> stay
  in range.
\<close>

theorem nextConnBackoff_bounds:
  assumes cur: "1 * second \<le> current" "current \<le> 813 * second"
    and seed: "randomSeed = None \<or> (\<exists>s < 10. randomSeed = Some s)"
  shows "let nxt = min (2 * current) connBackoffMax; d = nextConnBackoff oob randomSeed current
    in 89 * nxt \<le> 100 * d \<and> 100 * d \<le> 271 * nxt \<and> 1 * second \<le> d \<and> d \<le> 813 * second"
  using assms by (rule nextConnBackoff_range)

theorem nextConnBackoff_bounds_witness:
  "1 * second \<le> nextConnBackoff (\<lambda>_. 0) (Some 3) (1 * second) \<and>
   nextConnBackoff (\<lambda>_. 0) (Some 3) (1 * second) \<le> 813 * second"
  using nextConnBackoff_bounds [of "1 * second" "Some 3" "\<lambda>_. 0"] by (simp add: second_def Let_def)

text \<open>
  Remark. The jitter is not the 10 percent the constant announces, and the cap is not a cap: from a
  delay of five minutes, the seed 9 gives thirteen and a half minutes.
\<close>

theorem nextConnBackoff_exceeds_max:
  "nextConnBackoff oob (Some 9) connBackoffMax = 810 * second \<and> connBackoffMax < 810 * second"
proof -
  define a :: rat where "a = 300000000000 * (3602879701896397 / 2 ^ 55)"
  have fl1: "\<lfloor>a * 2 ^ 18\<rfloor> = 7864320000000000" by (rule floor_unique) (simp_all add: a_def)
  have "rne (a * 2 ^ 18) = 7864320000000000"
    using fl1 by (simp add: rne_def Let_def) (simp add: a_def)
  moreover have "a / 2 powi (34 - 52) = a * 2 ^ 18" "(2 :: rat) powi (34 - 52) = 1 / 2 ^ 18"
    by (simp_all add: power_int_def power_divide)
  moreover have "2 powi 34 \<le> a" "a < 2 powi (34 + 1)" by (simp_all add: a_def)
  ultimately have "fround a = 30000000000" using fround_binade [of 34 a] by simp
  moreover have "fl a = Fin (fround a)" by (rule fl_small) (simp_all add: a_def)
  ultimately have m: "f64_mul (Fin 300000000000) connBackoffJitter = Fin 30000000000"
    by (simp add: connBackoffJitter_def a_def)
  have "f64_mul (Fin 30000000000) (Fin 17) = Fin 510000000000"
    using f64_mul_exact [of 30000000000 17] by simp
  moreover have "f64_of_int 300000000000 = Fin 300000000000" "f64_of_int 9 = Fin 9"
    using f64_of_int_exact [of 300000000000] f64_of_int_exact [of 9] by simp_all
  moreover have "f64_mul (Fin 300000000000) (Fin 2) = Fin 600000000000" "f64_mul (Fin 9) (Fin 2) = Fin 18"
    using f64_mul_exact [of 300000000000 2] f64_mul_exact [of 9 2] by simp_all
  moreover have "f64_sub (Fin 18) (Fin 1) = Fin 17" using f64_sub_exact [of 18 1] by simp
  moreover have "f64_to_int64 oob (Fin 600000000000) = 600000000000"
    "f64_to_int64 oob (Fin 510000000000) = 510000000000"
    using f64_to_int64_exact [of 600000000000 oob] f64_to_int64_exact [of 510000000000 oob] by simp_all
  ultimately show ?thesis
    using m by (simp add: nextConnBackoff_def Let_def connBackoffMax_def second_def del: f64_mul.simps
        f64_to_int64.simps)
qed

end
