(* ===== verification/Cloud_Protocol.thy ===== *)
theory Cloud_Protocol
  imports Cloud_FSM
begin

text \<open>
  The cloud FSM as a transition system: its own steps interleave with the callbacks of the MQTT
  client (which enqueue events) and with the other users of the variable registry. The invariant
  ties the control point to the published state, the assigned thing, the back-off bounds and the
  session the client calls have built; from it follow the ordering of the handshake on every
  connection and the consistency of what \<open>Snapshot\<close> reports.
\<close>

section \<open>The transition system\<close>

datatype fsm_label =
    Enter env | Timer env | Recv env | Cancel | Callback event | RegistryOp reg_op | Shutdown env

definition valid_env :: "env \<Rightarrow> bool" where
  "valid_env en \<longleftrightarrow> (case env_seed en of None \<Rightarrow> True | Some s \<Rightarrow> s < 10)"

inductive fsm_step :: "(f64 \<Rightarrow> int) \<Rightarrow> decoder \<Rightarrow> FSM \<Rightarrow> fsm_label \<Rightarrow> FSM \<Rightarrow> bool"
  for oob :: "f64 \<Rightarrow> int" and decode :: decoder where
  step_enter: "fsm_enter oob en f = Some f' \<Longrightarrow> valid_env en \<Longrightarrow> fsm_step oob decode f (Enter en) f'"
| step_timer: "fsm_timer en f = Some f' \<Longrightarrow> fsm_step oob decode f (Timer en) f'"
| step_recv: "fsm_recv decode en f = Some f' \<Longrightarrow> fsm_step oob decode f (Recv en) f'"
| step_cancel: "fsm_cancel f = Some f' \<Longrightarrow> fsm_step oob decode f Cancel f'"
| step_callback: "fsm_step oob decode f (Callback ev) (send ev f)"
| step_registry: "reg_step (f_reg f) l r \<Longrightarrow> fsm_step oob decode f (RegistryOp l) (f\<lparr>f_reg := r\<rparr>)"
| step_shutdown: "f_pc f = Returned \<Longrightarrow>
     fsm_step oob decode f (Shutdown en) (goto Finished (shutdown en f))"

definition fsm_init :: "FSM \<Rightarrow> bool" where
  "fsm_init f \<longleftrightarrow> (\<exists>version deviceID reg. f = newFSM version deviceID reg)"

section \<open>The session the calls build\<close>

text \<open>
  The client's side of the broker session: a new connection starts without subscriptions (the
  Paho client is rebuilt), and \<open>Disconnect\<close> drops everything. An unsubscribe counts whatever its
  answer: the FSM ignores it.
\<close>

record session =
  ses_conn :: bool
  ses_cmd :: bool
  ses_begun :: bool
  ses_props :: "string list"

definition no_session :: session where
  "no_session = \<lparr>ses_conn = False, ses_cmd = False, ses_begun = False, ses_props = []\<rparr>"

fun ses_apply :: "mcall \<times> answer \<Rightarrow> session \<Rightarrow> session" where
  "ses_apply (Connect, None) s = no_session\<lparr>ses_conn := True\<rparr>"
| "ses_apply (Connect, Some _) s = no_session"
| "ses_apply (Disconnect, _) s = no_session"
| "ses_apply (SubscribeCommandChannel _, None) s = s\<lparr>ses_cmd := True\<rparr>"
| "ses_apply (SubscribePropertyTopic t, None) s = s\<lparr>ses_props := ses_props s @ [t]\<rparr>"
| "ses_apply (UnsubscribePropertyTopic t, _) s = s\<lparr>ses_props := removeAll t (ses_props s)\<rparr>"
| "ses_apply (PublishCommand _ (Some (DeviceBeginCmd _)), None) s = s\<lparr>ses_begun := True\<rparr>"
| "ses_apply _ s = s"

definition session_of :: "(mcall \<times> answer) list \<Rightarrow> session" where
  "session_of cs = fold ses_apply cs no_session"

text \<open>
  When a call is in order: the command channel before \<open>Device.begin\<close>, \<open>Device.begin\<close> before
  everything else, \<open>Thing.begin\<close> with no property topic, a property topic only for a thing and
  only one at a time, and \<open>LastValues.begin\<close> with exactly one. Every command is published under
  the device's own id.
\<close>

fun legal :: "string \<Rightarrow> session \<Rightarrow> mcall \<Rightarrow> bool" where
  "legal d s (SubscribeCommandChannel e) = (e = d \<and> ses_conn s \<and> \<not> ses_cmd s)"
| "legal d s (PublishCommand e (Some (DeviceBeginCmd _))) =
     (e = d \<and> ses_conn s \<and> ses_cmd s \<and> \<not> ses_begun s)"
| "legal d s (PublishCommand e (Some (DeviceNetConfigCmd _))) =
     (e = d \<and> ses_conn s \<and> ses_begun s \<and> ses_props s = [])"
| "legal d s (PublishCommand e (Some (ThingBeginCmd t))) =
     (e = d \<and> t = [] \<and> ses_conn s \<and> ses_cmd s \<and> ses_begun s \<and> ses_props s = [])"
| "legal d s (PublishCommand e (Some LastValuesBeginCmd)) =
     (e = d \<and> ses_conn s \<and> ses_cmd s \<and> ses_begun s \<and> length (ses_props s) = 1)"
| "legal d s (PublishCommand e _) = False"
| "legal d s (SubscribePropertyTopic t) =
     (t \<noteq> [] \<and> ses_conn s \<and> ses_cmd s \<and> ses_begun s \<and> ses_props s = [])"
| "legal d s Connect = True"
| "legal d s Disconnect = True"
| "legal d s (UnsubscribePropertyTopic t) = (t \<noteq> [])"

fun all_legal :: "string \<Rightarrow> session \<Rightarrow> (mcall \<times> answer) list \<Rightarrow> bool" where
  "all_legal d s [] = True"
| "all_legal d s (c # cs) = (legal d s (fst c) \<and> all_legal d (ses_apply c s) cs)"

definition protocol_ok :: "string \<Rightarrow> (mcall \<times> answer) list \<Rightarrow> bool" where
  "protocol_ok d cs = all_legal d no_session cs"

lemma session_of_append [simp]: "session_of (cs @ ds) = fold ses_apply ds (session_of cs)"
  by (simp add: session_of_def)

lemma protocol_ok_append [simp]:
  "protocol_ok d (cs @ ds) \<longleftrightarrow> protocol_ok d cs \<and> all_legal d (session_of cs) ds"
proof -
  have "all_legal d s (cs @ ds) \<longleftrightarrow> all_legal d s cs \<and> all_legal d (fold ses_apply cs s) ds" for s
    by (induction cs arbitrary: s) auto
  then show ?thesis by (simp add: protocol_ok_def session_of_def)
qed

section \<open>The invariant\<close>

definition attached :: "State \<Rightarrow> bool" where
  "attached st \<longleftrightarrow> st = StateSyncingLastValues \<or> st = StateSteady"

definition snapshot_ok :: "FSM \<Rightarrow> bool" where
  "snapshot_ok f \<longleftrightarrow>
     snap_State (f_snapshot f) = (if f_state f = StateNone then StateDisconnected else f_state f) \<and>
     (if attached (f_state f)
      then f_thingID f \<noteq> [] \<and> snap_ThingID (f_snapshot f) = f_thingID f
      else snap_ThingID (f_snapshot f) = [])"

definition backoff_ok :: "duration \<Rightarrow> bool" where
  "backoff_ok d \<longleftrightarrow> 1 * second \<le> d \<and> d \<le> 813 * second"

definition handshaken :: "session \<Rightarrow> string list \<Rightarrow> bool" where
  "handshaken s props \<longleftrightarrow> ses_conn s \<and> ses_cmd s \<and> ses_begun s \<and> ses_props s = props"

text \<open>What holds at each control point.\<close>

fun pc_ok :: "FSM \<Rightarrow> session \<Rightarrow> stateFn \<Rightarrow> bool" where
  "pc_ok f s runReconnecting = True"
| "pc_ok f s (WaitBackoff d) = (f_state f = StateReconnecting \<and> backoff_ok d \<and> f_connBackoff f = d)"
| "pc_ok f s runConnecting = (f_state f = StateReconnecting)"
| "pc_ok f s runAnnouncingDevice =
     (f_state f = StateConnecting \<and> s = no_session\<lparr>ses_conn := True\<rparr> \<and> f_connBackoff f = 0)"
| "pc_ok f s runAwaitingThingID = handshaken s []"
| "pc_ok f s (WaitThingID delay maxDelay ph) =
     (handshaken s [] \<and> f_state f = StateAwaitingThingID \<and> f_thingID f = [] \<and>
      2 * second \<le> delay \<and> delay \<le> maxDelay \<and>
      maxDelay = (if ph = phasePending then thingIDPhase1Max else thingIDPhase2Max))"
| "pc_ok f s runSyncingLastValues =
     (handshaken s [] \<and> f_state f = StateAwaitingThingID \<and> f_thingID f \<noteq> [])"
| "pc_ok f s (WaitLastValues attempts delay) =
     (handshaken s [f_thingID f] \<and> f_state f = StateSyncingLastValues \<and>
      1 \<le> attempts \<and> attempts \<le> lastValuesMaxRetries \<and> delay = lastValuesRetryInterval)"
| "pc_ok f s runSteady = (handshaken s [f_thingID f] \<and> f_state f = StateSyncingLastValues)"
| "pc_ok f s WaitSteady = (handshaken s [f_thingID f] \<and> f_state f = StateSteady)"
| "pc_ok f s Returned = True"
| "pc_ok f s Finished = (s = no_session \<and> f_state f = StateDisconnected)"

definition fsm_inv :: "FSM \<Rightarrow> bool" where
  "fsm_inv f \<longleftrightarrow>
     length (f_events f) \<le> 64 \<and>
     (f_connBackoff f = 0 \<or> backoff_ok (f_connBackoff f)) \<and>
     f_timers f = \<lparr>tm_connBackoffBase = connBackoffBase, tm_thingBeginRetry = thingIDPhase1Base,
                   tm_lastValuesTimeout = lastValuesRetryInterval\<rparr> \<and>
     snapshot_ok f \<and>
     protocol_ok (f_deviceID f) (f_calls f) \<and>
     pc_ok f (session_of (f_calls f)) (f_pc f)"

section \<open>Every handler keeps the invariant\<close>

lemmas fsm_base_defs = transition_def call_def goto_def

lemma fsm_inv_newFSM: "fsm_inv (newFSM version deviceID reg)"
  by (simp add: fsm_inv_def newFSM_def snapshot_ok_def attached_def protocol_ok_def)

lemma drainEvents_eq: "drainEvents f = f\<lparr>f_events := []\<rparr>"
proof (induction f rule: drainEvents.induct)
  case (1 f)
  then show ?case by (subst drainEvents.simps) (auto split: list.split)
qed

lemma send_inv: "fsm_inv f \<Longrightarrow> fsm_inv (send ev f)"
  by (cases "f_pc f") (auto simp: fsm_inv_def send_def snapshot_ok_def)

lemma registry_inv: "fsm_inv f \<Longrightarrow> fsm_inv (f\<lparr>f_reg := r\<rparr>)"
  by (cases "f_pc f") (auto simp: fsm_inv_def snapshot_ok_def)

text \<open>Taking an event leaves the rest of the state alone.\<close>

lemma take_event_inv: "fsm_inv f \<Longrightarrow> f_events f = ev # evs \<Longrightarrow> fsm_inv (f\<lparr>f_events := evs\<rparr>)"
  by (cases "f_pc f") (auto simp: fsm_inv_def snapshot_ok_def)

lemma reconnect_inv: "fsm_inv f \<Longrightarrow> fsm_inv (goto runReconnecting f)"
  by (simp add: fsm_inv_def goto_def snapshot_ok_def)

text \<open>A failed step on the way up disconnects: legal from any state.\<close>

definition base_ok :: "FSM \<Rightarrow> bool" where
  "base_ok f \<longleftrightarrow>
     length (f_events f) \<le> 64 \<and>
     (f_connBackoff f = 0 \<or> backoff_ok (f_connBackoff f)) \<and>
     f_timers f = \<lparr>tm_connBackoffBase = connBackoffBase, tm_thingBeginRetry = thingIDPhase1Base,
                   tm_lastValuesTimeout = lastValuesRetryInterval\<rparr> \<and>
     snapshot_ok f \<and>
     protocol_ok (f_deviceID f) (f_calls f)"

lemma fsm_inv_iff: "fsm_inv f \<longleftrightarrow> base_ok f \<and> pc_ok f (session_of (f_calls f)) (f_pc f)"
  by (auto simp: fsm_inv_def base_ok_def)

lemma base_ok_goto [simp]: "base_ok (goto pc f) = base_ok f"
  by (simp add: base_ok_def goto_def snapshot_ok_def)

lemma base_ok_call:
  "base_ok (snd (call en c f)) \<longleftrightarrow> base_ok f \<and> legal (f_deviceID f) (session_of (f_calls f)) c"
  by (auto simp: base_ok_def call_def snapshot_ok_def)

lemma disconnect_inv: "base_ok f \<Longrightarrow> fsm_inv (disconnect_and_reconnect en f)"
  by (simp add: fsm_inv_iff disconnect_and_reconnect_def base_ok_call) (simp add: goto_def)

lemma base_ok_transition:
  "base_ok f \<Longrightarrow> (attached st \<Longrightarrow> f_thingID f \<noteq> [] \<and> t = f_thingID f) \<Longrightarrow>
     (\<not> attached st \<Longrightarrow> t = []) \<Longrightarrow> st \<noteq> StateNone \<Longrightarrow> base_ok (transition st t f)"
  by (simp add: base_ok_def snapshot_ok_def transition_def)

lemma call_simps [simp]:
  "fst (call en c f) = env_ans en c"
  "f_calls (snd (call en c f)) = f_calls f @ [(c, env_ans en c)]"
  "f_state (snd (call en c f)) = f_state f" "f_thingID (snd (call en c f)) = f_thingID f"
  "f_deviceID (snd (call en c f)) = f_deviceID f" "f_pc (snd (call en c f)) = f_pc f"
  "f_connBackoff (snd (call en c f)) = f_connBackoff f" "f_timers (snd (call en c f)) = f_timers f"
  "f_reg (snd (call en c f)) = f_reg f" "f_events (snd (call en c f)) = f_events f"
  "f_version (snd (call en c f)) = f_version f"
  by (simp_all add: call_def)

lemma goto_simps [simp]:
  "f_calls (goto pc f) = f_calls f" "f_state (goto pc f) = f_state f"
  "f_thingID (goto pc f) = f_thingID f" "f_deviceID (goto pc f) = f_deviceID f"
  "f_pc (goto pc f) = pc" "f_connBackoff (goto pc f) = f_connBackoff f"
  "f_timers (goto pc f) = f_timers f" "f_reg (goto pc f) = f_reg f"
  by (simp_all add: goto_def)

lemma transition_simps [simp]:
  "f_calls (transition st t f) = f_calls f" "f_state (transition st t f) = st"
  "f_thingID (transition st t f) = f_thingID f" "f_deviceID (transition st t f) = f_deviceID f"
  "f_pc (transition st t f) = f_pc f" "f_connBackoff (transition st t f) = f_connBackoff f"
  "f_timers (transition st t f) = f_timers f" "f_reg (transition st t f) = f_reg f"
  "f_version (transition st t f) = f_version f" "f_events (transition st t f) = f_events f"
  by (simp_all add: transition_def)

lemma call_split:
  "(case call en c f of (Some _, f') \<Rightarrow> P f' | (None, f') \<Rightarrow> Q f') =
     (if env_ans en c = None then Q (snd (call en c f)) else P (snd (call en c f)))"
  by (simp add: call_def split: option.split)

lemma pc_ok_frame:
  "f_state g = f_state f \<Longrightarrow> f_thingID g = f_thingID f \<Longrightarrow> f_connBackoff g = f_connBackoff f \<Longrightarrow>
     pc_ok g s pc = pc_ok f s pc"
  by (cases pc) auto

lemma Reconnecting_inv:
  assumes "fsm_inv f" and "valid_env en"
  shows "fsm_inv (Reconnecting_entry oob en f)"
proof -
  have b: "base_ok f" using assms(1) by (simp add: fsm_inv_iff)
  define d where "d = (if f_connBackoff f = 0 then connBackoffBase
    else nextConnBackoff oob (env_seed en) (f_connBackoff f))"
  have seed: "env_seed en = None \<or> (\<exists>s < 10. env_seed en = Some s)"
    using assms(2) by (auto simp: valid_env_def split: option.splits)
  have d: "backoff_ok d"
  proof (cases "f_connBackoff f = 0")
    case True
    then show ?thesis by (simp add: d_def backoff_ok_def connBackoffBase_def second_def)
  next
    case False
    then have "backoff_ok (f_connBackoff f)" using b by (simp add: base_ok_def)
    then show ?thesis
      using nextConnBackoff_in_range [OF _ _ seed, of "f_connBackoff f" oob] False
      by (simp add: backoff_ok_def d_def)
  qed
  have "Reconnecting_entry oob en f = goto (WaitBackoff d)
      ((transition StateReconnecting [] f)\<lparr>f_events := [], f_connBackoff := d\<rparr>)"
    using b by (simp add: Reconnecting_entry_def drainEvents_eq Let_def d_def base_ok_def)
  then show ?thesis
    using b d by (simp add: fsm_inv_iff) (simp add: base_ok_def snapshot_ok_def transition_def attached_def)
qed

lemma Connecting_inv:
  assumes "fsm_inv f"
  shows "fsm_inv (Connecting_entry en f)"
proof -
  have b: "base_ok (snd (call en Connect (transition StateConnecting [] f)))"
    using assms by (simp add: base_ok_call fsm_inv_iff) (rule base_ok_transition, auto simp: attached_def)
  show ?thesis
  proof (cases "env_ans en Connect")
    case None
    have "base_ok (snd (call en Connect (transition StateConnecting [] f))\<lparr>f_connBackoff := 0\<rparr>)"
      using b by (simp add: base_ok_def snapshot_ok_def attached_def)
    then show ?thesis using None by (simp add: Connecting_entry_def call_split fsm_inv_iff)
  next
    case (Some e)
    with b show ?thesis by (simp add: Connecting_entry_def call_split fsm_inv_iff)
  qed
qed

lemma AnnouncingDevice_inv:
  assumes "fsm_inv f" and "f_pc f = runAnnouncingDevice"
  shows "fsm_inv (AnnouncingDevice_entry en f)"
proof -
  let ?f1 = "snd (call en (SubscribeCommandChannel (f_deviceID f)) (transition StateAnnouncingDevice [] f))"
  let ?devBegin = "PublishCommand (f_deviceID f) (Some (DeviceBeginCmd (f_version f)))"
  have "base_ok (transition StateAnnouncingDevice [] f)"
    using assms(1) by (intro base_ok_transition) (auto simp: fsm_inv_iff attached_def)
  moreover have ses: "session_of (f_calls f) = no_session\<lparr>ses_conn := True\<rparr>"
    using assms by (simp add: fsm_inv_iff)
  ultimately have 1: "base_ok ?f1" by (simp add: base_ok_call no_session_def)
  show ?thesis
  proof (cases "env_ans en (SubscribeCommandChannel (f_deviceID f)) = None")
    case False
    then show ?thesis using disconnect_inv [OF 1] by (auto simp: AnnouncingDevice_entry_def call_split)
  next
    case True
    have 2: "base_ok (snd (call en ?devBegin ?f1))" using 1 True ses by (simp add: base_ok_call no_session_def)
    show ?thesis
    proof (cases "env_ans en ?devBegin = None")
      case False
      then show ?thesis
        using True disconnect_inv [OF 2] by (auto simp: AnnouncingDevice_entry_def call_split)
    next
      case begun: True
      have "handshaken (session_of (f_calls (snd (call en ?devBegin ?f1)))) []"
        using True begun ses by (simp add: handshaken_def no_session_def)
      with 2 have "fsm_inv (goto runAwaitingThingID (publishNetConfig en (snd (call en ?devBegin ?f1))))"
        by (auto simp: publishNetConfig_def fsm_inv_iff base_ok_call handshaken_def split: option.split)
      then show ?thesis using True begun by (auto simp: AnnouncingDevice_entry_def call_split)
    qed
  qed
qed

lemma AwaitingThingID_entry_inv:
  assumes "fsm_inv f" and "f_pc f = runAwaitingThingID"
  shows "fsm_inv (AwaitingThingID_entry en f)"
proof -
  let ?c = "PublishCommand (f_deviceID f) (Some (ThingBeginCmd []))"
  let ?f1 = "snd (call en ?c (transition StateAwaitingThingID [] (f\<lparr>f_thingID := []\<rparr>)))"
  have ses: "handshaken (session_of (f_calls f)) []" using assms by (simp add: fsm_inv_iff)
  have "base_ok (transition StateAwaitingThingID [] (f\<lparr>f_thingID := []\<rparr>))"
    using assms(1) by (simp add: fsm_inv_iff base_ok_def snapshot_ok_def transition_def attached_def)
  then have 1: "base_ok ?f1" using ses by (simp add: base_ok_call handshaken_def)
  show ?thesis
  proof (cases "env_ans en ?c = None")
    case True
    with 1 ses assms(1) show ?thesis
      by (simp add: AwaitingThingID_entry_def call_split Let_def fsm_inv_iff handshaken_def
          base_ok_def [of f] thingIDPhase1Base_def thingIDPhase1Max_def second_def)
  next
    case False
    then show ?thesis using disconnect_inv [OF 1] by (auto simp: AwaitingThingID_entry_def call_split)
  qed
qed

lemma AwaitingThingID_timer_inv:
  assumes "fsm_inv f" and "f_pc f = WaitThingID delay maxDelay ph"
  shows "fsm_inv (AwaitingThingID_timer en delay maxDelay ph f)"
proof -
  let ?c = "PublishCommand (f_deviceID f) (Some (ThingBeginCmd []))"
  have pc: "pc_ok f (session_of (f_calls f)) (WaitThingID delay maxDelay ph)"
    using assms by (simp add: fsm_inv_iff)
  then have 1: "base_ok (snd (call en ?c f))"
    using assms(1) by (simp add: fsm_inv_iff base_ok_call handshaken_def)
  show ?thesis
  proof (cases "env_ans en ?c = None")
    case True
    with 1 pc show ?thesis
      by (auto simp: AwaitingThingID_timer_def call_split fsm_inv_iff handshaken_def second_def
          nextThingIDBackoff_def Let_def)
  next
    case False
    then show ?thesis using disconnect_inv [OF 1] by (auto simp: AwaitingThingID_timer_def call_split)
  qed
qed

lemma AwaitingThingID_event_inv:
  assumes "fsm_inv f" and "f_pc f = WaitThingID delay maxDelay ph"
  shows "fsm_inv (AwaitingThingID_event delay maxDelay ph ev f)"
proof -
  have b: "base_ok f" "pc_ok f (session_of (f_calls f)) (WaitThingID delay maxDelay ph)"
    using assms by (simp_all add: fsm_inv_iff)
  have "fsm_inv (goto (WaitThingID thingIDPhase2Base thingIDPhase2Max phaseRegistered) f)"
    using b by (simp add: fsm_inv_iff thingIDPhase2Base_def thingIDPhase2Max_def second_def)
  moreover have "fsm_inv (goto runSyncingLastValues (f\<lparr>f_thingID := tid\<rparr>))" if "tid \<noteq> []" for tid
    using b that by (simp add: fsm_inv_iff) (simp add: base_ok_def snapshot_ok_def attached_def)
  ultimately show ?thesis
    using assms(1) reconnect_inv [OF assms(1)]
    by (auto simp: AwaitingThingID_event_def split: event.split option.split inner.split)
qed

lemma SyncingLastValues_entry_inv:
  assumes "fsm_inv f" and "f_pc f = runSyncingLastValues"
  shows "fsm_inv (SyncingLastValues_entry en f)"
proof -
  let ?c = "SubscribePropertyTopic (f_thingID f)"
  let ?f1 = "snd (call en ?c (transition StateSyncingLastValues (f_thingID f) f))"
  let ?r = "PublishCommand (f_deviceID f) (Some LastValuesBeginCmd)"
  have pc: "handshaken (session_of (f_calls f)) []" "f_thingID f \<noteq> []"
    using assms by (simp_all add: fsm_inv_iff)
  have "base_ok (transition StateSyncingLastValues (f_thingID f) f)"
    by (rule base_ok_transition) (use assms(1) pc in \<open>auto simp: fsm_inv_iff attached_def\<close>)
  then have 1: "base_ok ?f1" using pc by (simp add: base_ok_call handshaken_def)
  show ?thesis
  proof (cases "env_ans en ?c = None")
    case False
    then show ?thesis using disconnect_inv [OF 1] by (auto simp: SyncingLastValues_entry_def call_split)
  next
    case True
    have 2: "base_ok (snd (call en ?r ?f1))" using 1 pc True by (simp add: base_ok_call handshaken_def)
    show ?thesis
    proof (cases "env_ans en ?r = None")
      case False
      then show ?thesis using True disconnect_inv [OF 2]
        by (auto simp: SyncingLastValues_entry_def requestLastValues_def call_split)
    next
      case req: True
      with 2 True pc assms(1) show ?thesis
        by (simp add: SyncingLastValues_entry_def requestLastValues_def call_split Let_def fsm_inv_iff
            handshaken_def base_ok_def [of f] lastValuesMaxRetries_def lastValuesRetryInterval_def
            second_def)
    qed
  qed
qed

lemma SyncingLastValues_timer_inv:
  assumes "fsm_inv f" and "f_pc f = WaitLastValues attempts delay"
  shows "fsm_inv (SyncingLastValues_timer en attempts f)"
proof -
  let ?r = "PublishCommand (f_deviceID f) (Some LastValuesBeginCmd)"
  have b: "base_ok f" "pc_ok f (session_of (f_calls f)) (WaitLastValues attempts delay)"
    using assms by (simp_all add: fsm_inv_iff)
  then have 1: "base_ok (snd (call en ?r f))" by (simp add: base_ok_call handshaken_def)
  show ?thesis
  proof (cases "lastValuesMaxRetries \<le> attempts")
    case True
    with b show ?thesis
      by (simp add: SyncingLastValues_timer_def fsm_inv_iff) (simp add: base_ok_def snapshot_ok_def)
  next
    case False
    show ?thesis
    proof (cases "env_ans en ?r = None")
      case True
      with 1 b False show ?thesis
        by (simp add: SyncingLastValues_timer_def requestLastValues_def call_split fsm_inv_iff handshaken_def
            base_ok_def [of f])
    next
      case req: False
      then show ?thesis using False disconnect_inv [OF 1]
        by (auto simp: SyncingLastValues_timer_def requestLastValues_def call_split)
    qed
  qed
qed

text \<open>Leaving the current thing: the property topic is dropped and the handshake starts over.\<close>

lemma detach_inv:
  assumes "base_ok f" and "handshaken (session_of (f_calls f)) [f_thingID f]" and "f_thingID f \<noteq> []"
  shows "fsm_inv (goto runAwaitingThingID (snd (call en (UnsubscribePropertyTopic (f_thingID f)) f)))"
  using assms by (simp add: fsm_inv_iff base_ok_call handshaken_def)

lemma base_ok_apply [simp]: "base_ok (apply_to decode en p b f) = base_ok f"
  by (simp add: base_ok_def apply_to_def snapshot_ok_def)

lemma apply_simps [simp]:
  "f_calls (apply_to decode en p b f) = f_calls f" "f_state (apply_to decode en p b f) = f_state f"
  "f_thingID (apply_to decode en p b f) = f_thingID f" "f_pc (apply_to decode en p b f) = f_pc f"
  "f_connBackoff (apply_to decode en p b f) = f_connBackoff f"
  by (simp_all add: apply_to_def)

lemma attached_thing: "base_ok f \<Longrightarrow> attached (f_state f) \<Longrightarrow> f_thingID f \<noteq> []"
  by (simp add: base_ok_def snapshot_ok_def)

lemma SyncingLastValues_event_inv:
  assumes "fsm_inv f" and "f_pc f = WaitLastValues attempts delay"
  shows "fsm_inv (SyncingLastValues_event decode en ev f)"
proof -
  have b: "base_ok f" "pc_ok f (session_of (f_calls f)) (WaitLastValues attempts delay)"
    using assms by (simp_all add: fsm_inv_iff)
  then have t: "f_thingID f \<noteq> []" by (intro attached_thing) (simp_all add: attached_def)
  have "fsm_inv (goto runSteady (apply_to decode en p True f))" for p
    using b by (simp add: fsm_inv_iff)
  then show ?thesis
    using assms(1) reconnect_inv [OF assms(1)] detach_inv [OF b(1) _ t] b(2)
    by (auto simp: SyncingLastValues_event_def split: event.split option.split inner.split)
qed

lemma Steady_entry_inv:
  assumes "fsm_inv f" and "f_pc f = runSteady"
  shows "fsm_inv (Steady_entry f)"
proof -
  have b: "base_ok f" "pc_ok f (session_of (f_calls f)) runSteady"
    using assms by (simp_all add: fsm_inv_iff)
  then have t: "f_thingID f \<noteq> []" by (intro attached_thing) (simp_all add: attached_def)
  have "base_ok (transition StateSteady (f_thingID f) f)"
    by (rule base_ok_transition) (use b t in \<open>simp_all add: attached_def\<close>)
  with b show ?thesis by (simp add: Steady_entry_def fsm_inv_iff)
qed

lemma reassign_inv:
  assumes b: "base_ok f" "handshaken (session_of (f_calls f)) [f_thingID f]" "f_thingID f \<noteq> []"
    and pc: "f_pc f = WaitSteady" and tid: "tid \<noteq> f_thingID f" "tid \<noteq> []"
  shows "fsm_inv (handleSteadyCommand decode en (Some (ThingUpdateCmd tid)) f)"
proof -
  let ?f1 = "snd (call en (UnsubscribePropertyTopic (f_thingID f)) f)"
  let ?f2 = "transition StateSteady tid (?f1\<lparr>f_thingID := tid\<rparr>)"
  let ?f3 = "snd (call en (SubscribePropertyTopic tid) ?f2)"
  have 1: "base_ok ?f1" using b by (simp add: base_ok_call)
  then have "base_ok ?f2" using tid by (simp add: base_ok_def snapshot_ok_def transition_def attached_def)
  then have 3: "base_ok ?f3" using b tid by (simp add: base_ok_call handshaken_def)
  show ?thesis
  proof (cases "env_ans en (SubscribePropertyTopic tid) = None")
    case True
    then have "fsm_inv (snd (requestLastValues en ?f3))"
      using 3 b tid pc by (simp add: fsm_inv_iff requestLastValues_def base_ok_call handshaken_def)
    then show ?thesis using tid True by (simp add: handleSteadyCommand_def Let_def call_split)
  next
    case False
    then show ?thesis using tid disconnect_inv [OF 3]
      by (auto simp: handleSteadyCommand_def Let_def call_split)
  qed
qed

lemma Steady_event_inv:
  assumes "fsm_inv f" and "f_pc f = WaitSteady"
  shows "fsm_inv (Steady_event decode en ev f)"
proof -
  have b: "base_ok f" "pc_ok f (session_of (f_calls f)) WaitSteady"
    using assms by (simp_all add: fsm_inv_iff)
  then have t: "f_thingID f \<noteq> []" by (intro attached_thing) (simp_all add: attached_def)
  have h: "handshaken (session_of (f_calls f)) [f_thingID f]" using b(2) by simp
  have ap: "fsm_inv (apply_to decode en p x f)" for p x
    using b assms(2) by (simp add: fsm_inv_iff)
  have "fsm_inv (handleSteadyCommand decode en c f)" for c
  proof (cases "\<exists>tid. c = Some (ThingUpdateCmd tid) \<and> tid \<noteq> f_thingID f \<and> tid \<noteq> []")
    case True
    then show ?thesis using reassign_inv [OF b(1) h t assms(2)] by blast
  next
    case False
    then show ?thesis
      using assms(1) ap detach_inv [OF b(1) h t]
      by (auto simp: handleSteadyCommand_def split: option.split inner.split)
  qed
  then show ?thesis
    using ap reconnect_inv [OF assms(1)] by (auto simp: Steady_event_def split: event.split)
qed

lemma shutdown_inv:
  assumes "fsm_inv f"
  shows "fsm_inv (goto Finished (shutdown en f))"
proof -
  let ?f1 = "if f_thingID f \<noteq> [] then snd (call en (UnsubscribePropertyTopic (f_thingID f)) f) else f"
  have 1: "base_ok ?f1" using assms by (simp add: fsm_inv_iff base_ok_call)
  then have "base_ok (snd (call en Disconnect ?f1))" unfolding base_ok_call by simp
  then have "base_ok (transition StateDisconnected [] (snd (call en Disconnect ?f1)))"
    by (rule base_ok_transition) (simp_all add: attached_def)
  then show ?thesis by (simp add: shutdown_def Let_def fsm_inv_iff)
qed

lemma fsm_step_inv: "fsm_step oob decode f l f' \<Longrightarrow> fsm_inv f \<Longrightarrow> fsm_inv f'"
proof (induction rule: fsm_step.induct)
  case (step_enter en f f')
  then show ?case
    by (auto simp: fsm_enter_def Reconnecting_inv Connecting_inv AnnouncingDevice_inv
        AwaitingThingID_entry_inv SyncingLastValues_entry_inv Steady_entry_inv split: stateFn.splits)
next
  case (step_timer en f f')
  have "fsm_inv (goto runConnecting f)" if "f_pc f = WaitBackoff d" for d
    using step_timer.prems that by (simp add: fsm_inv_iff)
  with step_timer show ?case
    by (auto simp: fsm_timer_def AwaitingThingID_timer_inv SyncingLastValues_timer_inv
        split: stateFn.splits)
next
  case (step_recv en f f')
  then obtain ev evs where ev: "f_events f = ev # evs" by (auto simp: fsm_recv_def split: list.splits)
  note inv = take_event_inv [OF step_recv.prems ev]
  show ?case
    using step_recv.hyps ev inv AwaitingThingID_event_inv [OF inv] SyncingLastValues_event_inv [OF inv]
      Steady_event_inv [OF inv]
    by (auto simp: fsm_recv_def split: stateFn.splits)
next
  case (step_cancel f f')
  then show ?case by (auto simp: fsm_cancel_def fsm_inv_iff split: if_splits)
next
  case (step_shutdown f en)
  then show ?case by (simp add: shutdown_inv)
qed (simp_all add: send_inv registry_inv)

interpretation fsm: invariant_system fsm_init "fsm_step oob decode" fsm_inv for oob decode
  by unfold_locales (auto simp: fsm_init_def fsm_inv_newFSM intro: fsm_step_inv)

section \<open>Running the machine\<close>

text \<open>The labels as an executable step, for concrete runs.\<close>

fun fsm_exec :: "(f64 \<Rightarrow> int) \<Rightarrow> decoder \<Rightarrow> fsm_label \<Rightarrow> FSM \<Rightarrow> FSM option" where
  "fsm_exec oob decode (Enter en) f = (if valid_env en then fsm_enter oob en f else None)"
| "fsm_exec oob decode (Timer en) f = fsm_timer en f"
| "fsm_exec oob decode (Recv en) f = fsm_recv decode en f"
| "fsm_exec oob decode Cancel f = fsm_cancel f"
| "fsm_exec oob decode (Callback ev) f = Some (send ev f)"
| "fsm_exec oob decode (RegistryOp _) f = None"
| "fsm_exec oob decode (Shutdown en) f =
     (if f_pc f = Returned then Some (goto Finished (shutdown en f)) else None)"

fun fsm_run :: "(f64 \<Rightarrow> int) \<Rightarrow> decoder \<Rightarrow> fsm_label list \<Rightarrow> FSM \<Rightarrow> FSM option" where
  "fsm_run oob decode [] f = Some f"
| "fsm_run oob decode (l # ls) f =
     (case fsm_exec oob decode l f of None \<Rightarrow> None | Some f' \<Rightarrow> fsm_run oob decode ls f')"

lemma fsm_exec_step: "fsm_exec oob decode l f = Some f' \<Longrightarrow> fsm_step oob decode f l f'"
  by (cases l) (auto intro: fsm_step.intros split: if_splits)

lemma fsm_run_reach:
  "fsm_run oob decode ls f = Some f' \<Longrightarrow> reach fsm_init (fsm_step oob decode) f \<Longrightarrow>
     reach fsm_init (fsm_step oob decode) f'"
proof (induction ls arbitrary: f)
  case (Cons l ls)
  then obtain g where g: "fsm_exec oob decode l f = Some g" "fsm_run oob decode ls g = Some f'"
    by (auto split: option.splits)
  have "reach fsm_init (fsm_step oob decode) g"
    using Cons.prems(2) fsm_exec_step [OF g(1)] by (rule reach_step)
  then show ?case using Cons.IH [OF g(2)] by blast
qed simp

definition good_env :: env where
  "good_env = \<lparr>env_ans = \<lambda>_. None, env_cancelled = False, env_netConfig = None, env_seed = Some 0,
     env_now = 1000\<rparr>"

definition demo_labels :: "fsm_label list" where
  "demo_labels =
     [Enter good_env, Timer good_env, Enter good_env, Enter good_env, Enter good_env,
      Callback (evCommandMessage (Some (ThingUpdateCmd ''t1''))), Recv good_env, Enter good_env,
      Callback (evCommandMessage (Some (LastValuesUpdateCmd []))), Recv good_env, Enter good_env]"

abbreviation no_decode :: decoder where
  "no_decode \<equiv> \<lambda>_. Inr []"

definition demo_fsm :: FSM where
  "demo_fsm = the (fsm_run (\<lambda>_. 0) no_decode demo_labels (newFSM ''1.0'' ''dev'' NewRegistry))"

lemma demo_check:
  "case fsm_run (\<lambda>_. 0) no_decode demo_labels (newFSM ''1.0'' ''dev'' NewRegistry) of
     None \<Rightarrow> False
   | Some f \<Rightarrow> f_pc f = WaitSteady \<and> f_thingID f = ''t1'' \<and> f_deviceID f = ''dev'' \<and>
       map fst (f_calls f) =
         [Connect, SubscribeCommandChannel ''dev'',
          PublishCommand ''dev'' (Some (DeviceBeginCmd ''1.0'')),
          PublishCommand ''dev'' (Some (ThingBeginCmd [])), SubscribePropertyTopic ''t1'',
          PublishCommand ''dev'' (Some LastValuesBeginCmd)]"
  by code_simp

lemma demo_fsm_facts:
  "reach fsm_init (fsm_step (\<lambda>_. 0) no_decode) demo_fsm"
  "f_pc demo_fsm = WaitSteady" "f_thingID demo_fsm = ''t1''" "f_deviceID demo_fsm = ''dev''"
  "map fst (f_calls demo_fsm) =
     [Connect, SubscribeCommandChannel ''dev'', PublishCommand ''dev'' (Some (DeviceBeginCmd ''1.0'')),
      PublishCommand ''dev'' (Some (ThingBeginCmd [])), SubscribePropertyTopic ''t1'',
      PublishCommand ''dev'' (Some LastValuesBeginCmd)]"
proof -
  obtain f where f: "fsm_run (\<lambda>_. 0) no_decode demo_labels (newFSM ''1.0'' ''dev'' NewRegistry) = Some f"
    using demo_check by (auto split: option.splits)
  then have d: "demo_fsm = f" by (simp add: demo_fsm_def)
  have "reach fsm_init (fsm_step (\<lambda>_. 0) no_decode) (newFSM ''1.0'' ''dev'' NewRegistry)"
    by (rule reach_init) (auto simp: fsm_init_def)
  with f show "reach fsm_init (fsm_step (\<lambda>_. 0) no_decode) demo_fsm"
    unfolding d by (rule fsm_run_reach)
  note chk = demo_check [unfolded f option.case]
  show "f_pc demo_fsm = WaitSteady" "f_thingID demo_fsm = ''t1''" "f_deviceID demo_fsm = ''dev''"
    using chk by (simp_all add: d)
  show "map fst (f_calls demo_fsm) =
     [Connect, SubscribeCommandChannel ''dev'', PublishCommand ''dev'' (Some (DeviceBeginCmd ''1.0'')),
      PublishCommand ''dev'' (Some (ThingBeginCmd [])), SubscribePropertyTopic ''t1'',
      PublishCommand ''dev'' (Some LastValuesBeginCmd)]"
    unfolding d using chk by blast
qed

section \<open>Properties of the cloud FSM\<close>

text \<open>
  C1. The handshake is always in order: whatever the broker answers, whenever the connection drops
  and however callbacks interleave, on every connection the command channel is subscribed before
  \<open>Device.begin\<close>, \<open>Device.begin\<close> succeeds before the network announcement and \<open>Thing.begin\<close>,
  \<open>Thing.begin\<close> is sent only while no property topic is subscribed, at most one property topic is
  subscribed at a time, and \<open>LastValues.begin\<close> is sent only with one; every command goes out
  under the device's own id.
\<close>

theorem fsm_protocol:
  "reach fsm_init (fsm_step oob decode) f \<Longrightarrow> protocol_ok (f_deviceID f) (f_calls f)"
  using fsm.reach_inv by (auto simp: fsm_inv_def)

theorem fsm_protocol_witness:
  "protocol_ok ''dev'' (f_calls demo_fsm) \<and> length (f_calls demo_fsm) = 6"
proof -
  have "length (map fst (f_calls demo_fsm)) = 6" unfolding demo_fsm_facts(5) by simp
  then show ?thesis using fsm_protocol [OF demo_fsm_facts(1)] demo_fsm_facts(4) by simp
qed





text \<open>
  C9. Nobody is left waiting: whichever step takes the machine from waiting for last values to the
  steady state (an answer that decodes, one that does not, an empty one, or none after the last
  retry), afterwards no subscriber is pending.
\<close>

theorem steady_entry_resolves_pending:
  assumes step: "fsm_step oob decode f l f'" and pc: "f_pc f = WaitLastValues n d" "f_pc f' = runSteady"
    and wf: "wf_registry (f_reg f)" and i: "i \<in> set (listeners_of (f_reg f) v)"
  shows "\<exists>s. reg_subs (f_reg f') i = Some s \<and> \<not> sub_pending s"
proof -
  have "\<exists>now vs. f_reg f' = ApplyLastValues now (f_reg f) vs"
    using step pc
  proof (induction rule: fsm_step.induct)
    case (step_timer en f f')
    then show ?case
      by (auto simp: fsm_timer_def SyncingLastValues_timer_def requestLastValues_def call_split
          disconnect_and_reconnect_def split: if_splits; blast)
  next
    case (step_recv en f f')
    then show ?case
      by (auto simp: fsm_recv_def SyncingLastValues_event_def apply_to_def applyProperties_def Let_def
          split: list.splits event.splits option.splits inner.splits sum.splits prod.splits; blast)
  qed (auto simp: fsm_enter_def fsm_cancel_def waiting_def send_def split: if_splits)
  then show ?thesis using ApplyLastValues_resolves [OF wf i] by auto
qed

definition sync_demo :: FSM where
  "sync_demo = (newFSM ''1.0'' ''dev'' pending_demo)
     \<lparr>f_pc := WaitLastValues 10 lastValuesRetryInterval, f_thingID := ''t1''\<rparr>"

theorem steady_entry_resolves_pending_witness:
  "\<exists>s. reg_subs (ApplyLastValues 1000 pending_demo []) 0 = Some s \<and> \<not> sub_pending s"
proof -
  let ?f' = "goto runSteady (sync_demo\<lparr>f_reg := ApplyLastValues 1000 pending_demo []\<rparr>)"
  have reg: "f_reg sync_demo = pending_demo" and pc: "f_pc sync_demo = WaitLastValues 10 lastValuesRetryInterval"
    by (simp_all add: sync_demo_def newFSM_def)
  have step: "fsm_step (\<lambda>_. 0) no_decode sync_demo (Timer good_env) ?f'"
    by (rule step_timer)
       (simp add: fsm_timer_def pc SyncingLastValues_timer_def lastValuesMaxRetries_def reg good_env_def)
  have "\<exists>s. reg_subs (f_reg ?f') 0 = Some s \<and> \<not> sub_pending s"
    by (rule steady_entry_resolves_pending [OF step pc, where v = "''temp''"])
       (simp_all add: reg pending_demo_facts)
  then show ?thesis by simp
qed

fun fsm_ticks :: "env list \<Rightarrow> FSM \<Rightarrow> FSM option" where
  "fsm_ticks [] f = Some f"
| "fsm_ticks (en # ens) f = (case fsm_timer en f of None \<Rightarrow> None | Some f' \<Rightarrow> fsm_ticks ens f')"

text \<open>
  C35. The wait for last values ends: while the broker accepts the requests but the cloud never
  answers, after as many timer ticks as requests are left the machine is on its way to the steady
  state, having sent one request per tick but the last and told the registry that nothing came.
\<close>

theorem sync_times_out:
  assumes "f_pc f = WaitLastValues n d" and "n \<le> 10" and "length ens = 11 - n"
    and "\<forall>en \<in> set ens. \<forall>c. env_ans en c = None"
  shows "\<exists>f'. fsm_ticks ens f = Some f' \<and> f_pc f' = runSteady \<and>
    f_reg f' = ApplyLastValues (env_now (last ens)) (f_reg f) [] \<and>
    f_calls f' = f_calls f @ replicate (10 - n) (PublishCommand (f_deviceID f) (Some LastValuesBeginCmd), None)"
  using assms
proof (induction ens arbitrary: f n d)
  case (Cons en ens)
  have ok: "env_ans en c = None" for c using Cons.prems(4) by simp
  show ?case
  proof (cases "n = 10")
    case True
    then have "ens = []" using Cons.prems(3) by simp
    then show ?thesis using Cons.prems(1) True
      by (simp add: fsm_timer_def SyncingLastValues_timer_def lastValuesMaxRetries_def)
  next
    case False
    then have n: "n < 10" using Cons.prems(2) by simp
    define g where "g = goto (WaitLastValues (Suc n) (tm_lastValuesTimeout (f_timers f)))
      (snd (call en (PublishCommand (f_deviceID f) (Some LastValuesBeginCmd)) f))"
    have tick: "fsm_timer en f = Some g"
      using Cons.prems(1) n
      by (simp add: fsm_timer_def SyncingLastValues_timer_def lastValuesMaxRetries_def
          requestLastValues_def call_split ok g_def)
    have "\<exists>f'. fsm_ticks ens g = Some f' \<and> f_pc f' = runSteady \<and>
        f_reg f' = ApplyLastValues (env_now (last ens)) (f_reg g) [] \<and>
        f_calls f' = f_calls g @
          replicate (10 - Suc n) (PublishCommand (f_deviceID g) (Some LastValuesBeginCmd), None)"
      using Cons.prems n by (intro Cons.IH) (auto simp: g_def)
    moreover have "ens \<noteq> []" using Cons.prems(3) n by auto
    moreover have "10 - n = Suc (10 - Suc n)" using n by simp
    ultimately show ?thesis by (simp add: tick) (simp add: g_def ok)
  qed
qed simp

theorem sync_times_out_witness:
  "\<exists>f'. fsm_ticks [good_env] sync_demo = Some f' \<and> f_pc f' = runSteady"
  using sync_times_out [of sync_demo 10 lastValuesRetryInterval "[good_env]"]
  by (auto simp: sync_demo_def newFSM_def good_env_def)

text \<open>
  Remark. The retry schedule of \<open>Thing.begin\<close> is exponential with a cap: after k retries the delay is
  the base times two to the k, or the maximum if that is smaller. With the constants of the file
  this is 2, 4, 8, 16, 32, 32, ... seconds, and 20, 40, ..., 1280, 1280, ... seconds once the cloud
  has answered.
\<close>

theorem thing_backoff_schedule:
  assumes "0 < base" and "base \<le> maxDelay"
  shows "((\<lambda>d. nextThingIDBackoff d maxDelay) ^^ k) base = min (base * 2 ^ k) maxDelay"
proof (induction k)
  case (Suc k)
  have "0 < base * 2 ^ k" using assms(1) by simp
  then show ?case using Suc assms by (auto simp: nextThingIDBackoff_def Let_def min_def)
qed (use assms in simp)

theorem thing_backoff_schedule_witness:
  "map (\<lambda>k. ((\<lambda>d. nextThingIDBackoff d thingIDPhase1Max) ^^ k) thingIDPhase1Base) [0, 1, 2, 3, 4, 5] =
     map (\<lambda>s. s * second) [2, 4, 8, 16, 32, 32]"
  using thing_backoff_schedule [of thingIDPhase1Base thingIDPhase1Max]
  by (simp add: thingIDPhase1Base_def thingIDPhase1Max_def second_def)

text \<open>
  Remark. A reassignment is announced as steady too early: when the cloud moves the board to another
  thing in the steady state, the snapshot says steady for the new thing although none of its last
  values has been applied, so that an app subscribing to a variable without a value is told
  \<open>lastvalue_missing\<close> instead of \<open>thing_unavailable\<close>, and is not marked pending.
\<close>

theorem steady_before_last_values:
  assumes "f_pc f = WaitSteady" and "tid \<noteq> []" and "tid \<noteq> f_thingID f" and "\<And>c. env_ans en c = None"
    and "map_of (reg_vars (f_reg f)) name = None"
  shows "let f' = handleSteadyCommand decode en (Some (ThingUpdateCmd tid)) f;
             (first, i, r) = Subscribe (f_reg f') name client (snap_State (f_snapshot f') = StateSteady)
    in f_reg f' = f_reg f \<and> f_snapshot f' = \<lparr>snap_State = StateSteady, snap_ThingID = tid\<rparr> \<and>
       ev_Kind first = EventLastValueMissing"
proof -
  let ?f' = "handleSteadyCommand decode en (Some (ThingUpdateCmd tid)) f"
  have reg: "f_reg ?f' = f_reg f" and snap: "f_snapshot ?f' = \<lparr>snap_State = StateSteady, snap_ThingID = tid\<rparr>"
    using assms(2-4)
    by (simp_all add: handleSteadyCommand_def Let_def call_split requestLastValues_def)
       (simp_all add: call_def transition_def)
  have "ev_Kind (fst (Subscribe (f_reg f) name client True)) = EventLastValueMissing"
    using assms(5) by (simp add: Subscribe_def getOrCreate_def Let_def bare_event_def)
  then show ?thesis by (simp add: reg snap Let_def split: prod.split) (metis fst_conv)
qed

theorem steady_before_last_values_witness:
  "f_snapshot (handleSteadyCommand no_decode good_env (Some (ThingUpdateCmd ''t2''))
     (demo_fsm\<lparr>f_reg := NewRegistry\<rparr>)) = \<lparr>snap_State = StateSteady, snap_ThingID = ''t2''\<rparr>"
  using steady_before_last_values
    [of "demo_fsm\<lparr>f_reg := NewRegistry\<rparr>" "''t2''" good_env "''x''" no_decode "''app''"] demo_fsm_facts(2,3)
  by (auto simp: good_env_def NewRegistry_def Let_def split: prod.splits)

end
