(* ===== verification/Senml_Wire.thy ===== *)
theory Senml_Wire
  imports Senml "HOL-Library.Monad_Syntax"
begin

text \<open>
  SenML records on the wire: the field tags of \<open>Record\<close> in \<open>internal/senml/record.go\<close> (integer keys,
  zero values omitted, numbers through their own marshaller) as the CBOR map of a record, and the
  record a map stands for. A record within the limits of the CBOR library is read back from its map.
\<close>

section \<open>Records as CBOR maps\<close>

text \<open>
  A \<open>Number\<close> on the wire, and what the decoder makes of an item: an integer only if it fits an
  \<open>int64\<close>.
\<close>

definition any_item :: "any \<Rightarrow> cbor_item option" where
  "any_item v =
     (case v of
        AInt64 n \<Rightarrow> Some (CInt n)
      | AFloat x \<Rightarrow> Some (CFloat x)
      | ANil \<Rightarrow> Some CNull
      | _ \<Rightarrow> None)"

definition item_any :: "cbor_item \<Rightarrow> any option" where
  "item_any i =
     (case i of
        CInt n \<Rightarrow> if - (2 ^ 63) \<le> n \<and> n < 2 ^ 63 then Some (AInt64 n) else None
      | CFloat x \<Rightarrow> Some (AFloat x)
      | CNull \<Rightarrow> Some ANil
      | CText s \<Rightarrow> Some (AStr s)
      | CBool b \<Rightarrow> Some (ABool b)
      | _ \<Rightarrow> None)"

definition item_number :: "cbor_item \<Rightarrow> Number option" where
  "item_number i = Option.bind (item_any i) (\<lambda>v. case number_of v of Inr n \<Rightarrow> Some n | Inl _ \<Rightarrow> None)"

text \<open>The fields under their keys; \<open>omitempty\<close> leaves out empty strings, zeros and nil pointers.\<close>

definition nonempty :: "string \<Rightarrow> cbor_item option" where
  "nonempty s = (if s = [] then None else Some (CText s))"

definition nonzero :: "f64 \<Rightarrow> cbor_item option" where
  "nonzero x = (if f64_eq x (Fin 0) then None else Some (CFloat x))"

definition number_ptr :: "Number option \<Rightarrow> cbor_item option" where
  "number_ptr n = Option.bind n (\<lambda>n. any_item (Number_Value n))"

definition record_fields :: "Record \<Rightarrow> (int \<times> cbor_item option) list" where
  "record_fields r =
     [(- 2, nonempty (rec_BaseName r)),
      (- 3, nonzero (rec_BaseTime r)),
      (- 4, nonempty (rec_BaseUnit r)),
      (- 1, if rec_BaseVersion r = 0 then None else Some (CInt (int (rec_BaseVersion r)))),
      (- 5, number_ptr (rec_BaseValue r)),
      (- 6, number_ptr (rec_BaseSum r)),
      (0, nonempty (rec_Name r)),
      (1, nonempty (rec_Unit r)),
      (6, nonzero (rec_Time r)),
      (7, nonzero (rec_UpdateTime r)),
      (2, number_ptr (rec_Value r)),
      (3, map_option CText (rec_StringValue r)),
      (8, map_option CText (rec_DataValue r)),
      (4, map_option CBool (rec_BoolValue r)),
      (5, number_ptr (rec_Sum r))]"

definition present :: "(int \<times> cbor_item option) list \<Rightarrow> (int \<times> cbor_item) list" where
  "present fs = List.map_filter (\<lambda>(k, x). map_option (Pair k) x) fs"

definition record_item :: "Record \<Rightarrow> cbor_item" where
  "record_item r = CMap (present (record_fields r))"

definition records_marshal :: "cbor_enc \<Rightarrow> Record list \<Rightarrow> (cbor_error, bytes) result" where
  "records_marshal enc rs = enc (CArray (map record_item rs))"

text \<open>
  Reading a map: a missing key leaves the zero value, a null leaves a pointer nil, an unknown key is
  ignored. A map with a repeated key or with a value of another kind than the field's is left to the
  library (\<open>rest\<close>).
\<close>

definition get_text :: "cbor_item option \<Rightarrow> string option" where
  "get_text x = (case x of None \<Rightarrow> Some [] | Some i \<Rightarrow> text_field i)"

definition get_float :: "cbor_item option \<Rightarrow> f64 option" where
  "get_float x = (case x of None \<Rightarrow> Some (Fin 0) | Some (CFloat f) \<Rightarrow> Some f | _ \<Rightarrow> None)"

definition get_uint :: "cbor_item option \<Rightarrow> nat option" where
  "get_uint x =
     (case x of
        None \<Rightarrow> Some 0
      | Some (CInt n) \<Rightarrow> if 0 \<le> n \<and> n < 2 ^ 64 then Some (nat n) else None
      | _ \<Rightarrow> None)"

definition get_ptr :: "(cbor_item \<Rightarrow> 'a option) \<Rightarrow> cbor_item option \<Rightarrow> 'a option option" where
  "get_ptr f x =
     (case x of
        None \<Rightarrow> Some None
      | Some CNull \<Rightarrow> Some None
      | Some i \<Rightarrow> map_option Some (f i))"

fun bool_field :: "cbor_item \<Rightarrow> bool option" where
  "bool_field (CBool b) = Some b"
| "bool_field _ = None"

definition read_record :: "(int \<Rightarrow> cbor_item option) \<Rightarrow> Record option" where
  "read_record m =
     do { baseName \<leftarrow> get_text (m (- 2));
          baseTime \<leftarrow> get_float (m (- 3));
          baseUnit \<leftarrow> get_text (m (- 4));
          baseVersion \<leftarrow> get_uint (m (- 1));
          baseValue \<leftarrow> get_ptr item_number (m (- 5));
          baseSum \<leftarrow> get_ptr item_number (m (- 6));
          name \<leftarrow> get_text (m 0);
          unt \<leftarrow> get_text (m 1);
          tm \<leftarrow> get_float (m 6);
          updateTime \<leftarrow> get_float (m 7);
          val \<leftarrow> get_ptr item_number (m 2);
          stringValue \<leftarrow> get_ptr text_field (m 3);
          dataValue \<leftarrow> get_ptr text_field (m 8);
          boolValue \<leftarrow> get_ptr bool_field (m 4);
          sm \<leftarrow> get_ptr item_number (m 5);
          Some \<lparr>rec_BaseName = baseName, rec_BaseTime = baseTime, rec_BaseUnit = baseUnit,
            rec_BaseVersion = baseVersion, rec_BaseValue = baseValue, rec_BaseSum = baseSum, rec_Name = name,
            rec_Unit = unt, rec_Time = tm, rec_UpdateTime = updateTime, rec_Value = val,
            rec_StringValue = stringValue, rec_DataValue = dataValue, rec_BoolValue = boolValue, rec_Sum = sm\<rparr> }"

definition item_record :: "cbor_item \<Rightarrow> Record option" where
  "item_record i =
     (case i of
        CMap kvs \<Rightarrow> if distinct (map fst kvs) then read_record (map_of kvs) else None
      | _ \<Rightarrow> None)"

definition item_records :: "cbor_item \<Rightarrow> Record list option" where
  "item_records i = (case i of CArray xs \<Rightarrow> those (map item_record xs) | _ \<Rightarrow> None)"

definition records_unmarshal ::
  "cbor_dec \<Rightarrow> (cbor_item \<Rightarrow> (cbor_error, Record list) result) \<Rightarrow> bytes \<Rightarrow> (cbor_error, Record list) result" where
  "records_unmarshal dec rest data =
     (case dec data of
        Inl e \<Rightarrow> Inl e
      | Inr i \<Rightarrow> (case item_records i of Some rs \<Rightarrow> Inr rs | None \<Rightarrow> rest i))"

section \<open>A record is read back from its map\<close>

text \<open>
  The records a Go program can build, less a number that is nil (written as null, it reads back as no
  number at all), within the limits of the library.
\<close>

fun number_ok :: "Number \<Rightarrow> bool" where
  "number_ok (NInt64 n) \<longleftrightarrow> - (2 ^ 63) \<le> n \<and> n < 2 ^ 63"
| "number_ok (NFloat64 x) \<longleftrightarrow> is_f64 x"
| "number_ok NNil \<longleftrightarrow> False"

definition record_ok :: "Record \<Rightarrow> bool" where
  "record_ok r \<longleftrightarrow>
     list_all text_ok [rec_BaseName r, rec_BaseUnit r, rec_Name r, rec_Unit r] \<and>
     list_all is_f64 [rec_BaseTime r, rec_Time r, rec_UpdateTime r] \<and>
     rec_BaseVersion r < 2 ^ 64 \<and>
     list_all (pred_option number_ok) [rec_BaseValue r, rec_BaseSum r, rec_Value r, rec_Sum r] \<and>
     list_all (pred_option text_ok) [rec_StringValue r, rec_DataValue r]"

lemma present_simps [simp]:
  "present [] = []"
  "present ((k, x) # fs) = (case x of None \<Rightarrow> present fs | Some i \<Rightarrow> (k, i) # present fs)"
  by (simp_all add: present_def List.map_filter_simps split: option.split)

lemma present_keys: "fst ` set (present fs) \<subseteq> fst ` set fs"
  by (force simp: present_def map_filter_def)

lemma map_of_present:
  "distinct (map fst fs) \<Longrightarrow> map_of (present fs) k = Option.bind (map_of fs k) (\<lambda>x. x)"
proof (induction fs)
  case (Cons f fs)
  have "map_of (present fs) k = None" if "k \<notin> fst ` set fs"
    using that present_keys [of fs] by (auto simp: map_of_eq_None_iff)
  with Cons show ?case by (cases f) (auto split: option.split)
qed simp

lemma distinct_present: "distinct (map fst fs) \<Longrightarrow> distinct (map fst (present fs))"
proof (induction fs)
  case (Cons f fs)
  with present_keys [of fs] show ?case by (cases f) (auto split: option.split)
qed simp

lemma length_present: "length (present fs) \<le> length fs"
  by (simp add: present_def map_filter_def)

lemma distinct_fields [simp]: "distinct (map fst (record_fields r))"
  by (simp add: record_fields_def)

lemma f64_eq_zero: "f64_eq x (Fin 0) \<longleftrightarrow> x = Fin 0"
  by (cases x) auto

lemma get_written:
  "get_text (nonempty s) = Some s" "get_float (nonzero x) = Some x"
  "n < 2 ^ 64 \<Longrightarrow> get_uint (if n = 0 then None else Some (CInt (int n))) = Some n"
  "pred_option number_ok p \<Longrightarrow> get_ptr item_number (number_ptr p) = Some p"
  "get_ptr text_field (map_option CText t) = Some t" "get_ptr bool_field (map_option CBool b) = Some b"
proof -
  show "get_ptr item_number (number_ptr p) = Some p" if "pred_option number_ok p"
  proof (cases p)
    case (Some n)
    then show ?thesis
      using that by (cases n) (simp_all add: get_ptr_def number_ptr_def any_item_def item_number_def item_any_def number_of_def)
  qed (simp add: get_ptr_def number_ptr_def)
  show "get_uint (if n = 0 then None else Some (CInt (int n))) = Some n" if "n < 2 ^ 64"
    using that by (simp add: get_uint_def)
qed (auto simp: get_text_def nonempty_def get_float_def nonzero_def f64_eq_zero get_ptr_def split: option.split)

lemma item_record_item: "record_ok r \<Longrightarrow> item_record (record_item r) = Some r"
  unfolding item_record_def record_item_def
  by (simp add: distinct_present map_of_present read_record_def record_ok_def)
     (simp add: record_fields_def get_written)

lemma items_records: "\<forall>r \<in> set rs. record_ok r \<Longrightarrow> item_records (CArray (map record_item rs)) = Some rs"
  by (induction rs) (simp_all add: item_records_def item_record_item)

lemma fold_max_le: "fold max xs a \<le> n \<longleftrightarrow> a \<le> n \<and> (\<forall>x \<in> set xs. x \<le> n)" for a n :: nat
  by (induction xs arbitrary: a) auto

text \<open>The fields of a record are scalars within the limits of the library.\<close>

definition scalar_ok :: "cbor_item \<Rightarrow> bool" where
  "scalar_ok i \<longleftrightarrow> cbor_wf i \<and> nesting i = 0"

lemma present_items: "(k, i) \<in> set (present fs) \<longleftrightarrow> (k, Some i) \<in> set fs"
  by (force simp: present_def map_filter_def)

lemma written_ok:
  "text_ok s \<Longrightarrow> pred_option scalar_ok (nonempty s)" "is_f64 x \<Longrightarrow> pred_option scalar_ok (nonzero x)"
  "n < 2 ^ 64 \<Longrightarrow> pred_option scalar_ok (if n = 0 then None else Some (CInt (int n)))"
  "pred_option number_ok p \<Longrightarrow> pred_option scalar_ok (number_ptr p)"
  "pred_option text_ok t \<Longrightarrow> pred_option scalar_ok (map_option CText t)" "pred_option scalar_ok (map_option CBool b)"
proof -
  show "pred_option scalar_ok (number_ptr p)" if "pred_option number_ok p"
  proof (cases p)
    case (Some n)
    then show ?thesis using that by (cases n) (auto simp: number_ptr_def any_item_def scalar_ok_def)
  qed (simp add: number_ptr_def)
  show "pred_option text_ok t \<Longrightarrow> pred_option scalar_ok (map_option CText t)" "pred_option scalar_ok (map_option CBool b)"
    by (cases t; simp add: scalar_ok_def) (cases b; simp add: scalar_ok_def)
qed (auto simp: nonempty_def nonzero_def scalar_ok_def)

lemma record_fields_ok:
  "record_ok r \<Longrightarrow> (k, x) \<in> set (record_fields r) \<Longrightarrow> - 6 \<le> k \<and> k \<le> 8 \<and> pred_option scalar_ok x"
  by (auto simp: record_fields_def record_ok_def written_ok)

lemma record_item_ok:
  assumes "record_ok r"
  shows "cbor_wf (record_item r)" and "nesting (record_item r) \<le> 31"
proof -
  have "length (present (record_fields r)) \<le> maxElements"
    using length_present [of "record_fields r"] by (simp add: record_fields_def maxElements_def)
  moreover have "- (2 ^ 64) \<le> k \<and> k < 2 ^ 64 \<and> cbor_wf i \<and> nesting i = 0"
    if "(k, i) \<in> set (present (record_fields r))" for k i
    using record_fields_ok [OF assms, of k "Some i"] that by (simp add: present_items scalar_ok_def)
  ultimately show "cbor_wf (record_item r)" "nesting (record_item r) \<le> 31"
    by (auto simp: record_item_def distinct_present list_all_iff fold_max_le)
qed

lemma records_ok:
  assumes "\<forall>r \<in> set rs. record_ok r" and "length rs \<le> maxElements"
  shows "cbor_ok (CArray (map record_item rs))"
  using assms record_item_ok by (auto simp: cbor_ok_def list_all_iff maxNesting_def fold_max_le)

lemma records_roundtrip:
  assumes "cbor_library enc dec" and "records_marshal enc rs = Inr b"
    and "\<forall>r \<in> set rs. record_ok r" and "length rs \<le> maxElements"
  shows "records_unmarshal dec rest b = Inr rs"
  using cbor_libraryD [OF assms(1) records_ok [OF assms(3,4)]] assms(2) items_records [OF assms(3)]
  by (simp add: records_marshal_def records_unmarshal_def)

end
