(* ===== verification/Senml_Batch.thy ===== *)
theory Senml_Batch
  imports Senml_Wire
begin

text \<open>
  Whole SenML payloads (\<open>internal/senml/codec.go\<close>): that decoding inverts encoding on a batch of
  variables whose times are exact, when encoding fails, what every decoded variable looks like,
  and how the base fields resolve, compared with the running resolution of RFC 8428.
\<close>

section \<open>Encoding as a map over the batch\<close>

lemma sort_key_map: "sort_key f (map g xs) = map g (sort_key (f \<circ> g) xs)"
proof -
  have "insort_key f (g x) (map g ys) = map g (insort_key (f \<circ> g) x ys)" for x ys
    by (induction ys) auto
  then show ?thesis by (induction xs) auto
qed

lemma sort_key_agree:
  "\<forall>x \<in> set xs. f x = g x \<Longrightarrow> sort_key f xs = sort_key g xs"
proof (induction xs)
  case (Cons x xs)
  have "insort_key f x ys = insort_key g x ys" if "f x = g x" "\<forall>y \<in> set ys. f y = g y" for ys
    using that by (induction ys) auto
  with Cons show ?case by simp
qed simp

fun supported :: "any \<Rightarrow> bool" where
  "supported (AInt64 _) = True"
| "supported (AInt _) = True"
| "supported (AFloat _) = True"
| "supported (AStr _) = True"
| "supported (ABool _) = True"
| "supported _ = False"

definition record_of :: "SenmlVariable \<Rightarrow> Record" where
  "record_of v = (case recordFromVariable v of Inr r \<Rightarrow> r | Inl _ \<Rightarrow> empty_record)"

lemma recordFromVariable_iff:
  "recordFromVariable v =
     (if supported (sv_Value v) then Inr (record_of v)
      else Inl (UnsupportedValueType (sv_Value v) (sv_Name v)))"
  by (cases "sv_Value v") (simp_all add: recordFromVariable_def record_of_def Let_def)

lemma records_loop_iff:
  "records_loop vs =
     (case List.find (\<lambda>v. \<not> supported (sv_Value v)) vs of
        None \<Rightarrow> Inr (map record_of vs)
      | Some v \<Rightarrow> Inl (UnsupportedValueType (sv_Value v) (sv_Name v)))"
  by (induction vs) (auto simp: recordFromVariable_iff split: option.splits)

lemma record_of_fields:
  assumes "supported (sv_Value v)"
  shows "rec_Name (record_of v) = sv_Name v" "rec_BaseName (record_of v) = []"
    "rec_BaseTime (record_of v) = Fin 0" "rec_Time (record_of v) = encodeTime (sv_Timestamp v)"
    "value_count (record_of v) = 1" "rec_Sum (record_of v) = None" "rec_BaseSum (record_of v) = None"
  using assms
  by (cases "sv_Value v";
      simp add: recordFromVariable_def record_of_def Let_def empty_record_def value_count_def)+

text \<open>What a variable reads as after a trip over the wire: \<open>int\<close> becomes \<open>int64\<close>.\<close>

fun wire_value :: "any \<Rightarrow> any" where
  "wire_value (AInt n) = AInt64 n"
| "wire_value v = v"

fun value_type :: "any \<Rightarrow> ValueType" where
  "value_type (AInt n) = TypeInt"
| "value_type (AInt64 n) = TypeInt"
| "value_type (AStr s) = TypeString"
| "value_type (ABool b) = TypeBool"
| "value_type _ = TypeFloat"

definition wire_variable :: "SenmlVariable \<Rightarrow> SenmlVariable" where
  "wire_variable v = v\<lparr>sv_Value := wire_value (sv_Value v), sv_Type := value_type (sv_Value v)\<rparr>"

lemma variableFromRecord_record_of:
  assumes "supported (sv_Value v)"
  shows "variableFromRecord n (record_of v) t = Some ((wire_variable v)\<lparr>sv_Name := n, sv_Timestamp := t\<rparr>)"
  using assms
  by (cases "sv_Value v";
      simp add: recordFromVariable_def record_of_def Let_def empty_record_def
        variableFromRecord_def wire_variable_def)

lemma variableFromRecord_times [simp]:
  "variableFromRecord n (r\<lparr>rec_BaseTime := b\<rparr>) t = variableFromRecord n r t"
  "variableFromRecord n (r\<lparr>rec_Time := x\<rparr>) t = variableFromRecord n r t"
  by (simp_all add: variableFromRecord_def split: option.split)

section \<open>Validation\<close>

lemma validate_loop_errors:
  "validate_loop b es rs = es @ validate_loop b [] rs"
proof (induction rs arbitrary: b es)
  case (Cons r rs)
  show ?case unfolding validate_loop.simps Let_def
    by (subst Cons.IH, subst (2) Cons.IH) simp
qed simp

text \<open>The base name in force at the i-th record, as \<open>validate\<close> tracks it.\<close>

definition running_base :: "Record list \<Rightarrow> string" where
  "running_base rs = fst (base_fields [] (Fin 0) rs)"

lemma base_fields_append:
  "base_fields b t (xs @ ys) = (case base_fields b t xs of (b', t') \<Rightarrow> base_fields b' t' ys)"
  by (induction xs arbitrary: b t) auto

lemma validate_loop_ok:
  "validate_loop b [] rs = [] \<longleftrightarrow>
     (\<forall>i < length rs. value_count (rs ! i) \<le> 1 \<and>
        (has_value (rs ! i) \<longrightarrow> fst (base_fields b t (take (Suc i) rs)) @ rec_Name (rs ! i) \<noteq> []))"
proof (induction rs arbitrary: b t)
  case (Cons r rs)
  let ?b = "if rec_BaseName r \<noteq> [] then rec_BaseName r else b"
  let ?t = "if \<not> f64_eq (rec_BaseTime r) (Fin 0) then rec_BaseTime r else t"
  have "validate_loop b [] (r # rs) = [] \<longleftrightarrow>
      value_count r \<le> 1 \<and> (has_value r \<longrightarrow> ?b @ rec_Name r \<noteq> []) \<and> validate_loop ?b [] rs = []"
    unfolding validate_loop.simps Let_def by (subst validate_loop_errors) auto
  also have "\<dots> \<longleftrightarrow> (\<forall>i < length (r # rs). value_count ((r # rs) ! i) \<le> 1 \<and>
      (has_value ((r # rs) ! i) \<longrightarrow>
        fst (base_fields b t (take (Suc i) (r # rs))) @ rec_Name ((r # rs) ! i) \<noteq> []))"
    unfolding Cons.IH [of ?b ?t] length_Cons All_less_Suc2 by simp
  finally show ?case .
qed simp

lemma validate_iff:
  "validate rs = None \<longleftrightarrow>
     (\<forall>i < length rs. value_count (rs ! i) \<le> 1 \<and>
        (has_value (rs ! i) \<longrightarrow> running_base (take (Suc i) rs) @ rec_Name (rs ! i) \<noteq> []))"
  using validate_loop_ok [of "[]" rs "Fin 0"]
  by (auto simp: validate_def running_base_def split: list.splits)

section \<open>The base time of a batch\<close>

definition time_in :: "f64 \<Rightarrow> int \<Rightarrow> bool" where
  "time_in x n \<longleftrightarrow> x = Fin (of_int n) \<and> 0 \<le> n \<and> n \<le> 2 ^ 53"

lemma min_time_in:
  assumes "time_in m k" and "\<forall>r \<in> set rs. \<exists>n. time_in (rec_Time r) n"
  shows "\<exists>j. time_in (min_time m rs) j \<and>
    (j = 0 \<longrightarrow> k = 0 \<and> (\<forall>r \<in> set rs. rec_Time r = Fin 0))"
  using assms
proof (induction rs arbitrary: m k)
  case Nil
  then show ?case by auto
next
  case (Cons r rs)
  obtain n where n: "time_in (rec_Time r) n" using Cons.prems(2) by auto
  let ?take = "\<not> f64_eq (rec_Time r) (Fin 0) \<and> (f64_eq m (Fin 0) \<or> f64_less (rec_Time r) m)"
  have "time_in (if ?take then rec_Time r else m) (if ?take then n else k)"
    using n Cons.prems(1) by simp
  from Cons.IH [OF this] Cons.prems(2) obtain j where j: "time_in (min_time m (r # rs)) j"
      "j = 0 \<longrightarrow> (if ?take then n else k) = 0 \<and> (\<forall>r \<in> set rs. rec_Time r = Fin 0)"
    by auto
  moreover have "(if ?take then n else k) = 0 \<Longrightarrow> k = 0 \<and> rec_Time r = Fin 0"
    using n Cons.prems(1) by (auto simp: time_in_def split: if_splits)
  ultimately show ?case by (intro exI [of _ j]) auto
qed

text \<open>
  Rebasing and resolving again is the identity on integer times: the offset from the base and its
  sum with the base are exact.
\<close>

lemma sub_time:
  assumes "time_in x n" and "time_in b k"
  shows "f64_sub x b = Fin (of_int (n - k))" and "\<bar>n - k\<bar> \<le> 2 ^ 53"
proof -
  show d: "\<bar>n - k\<bar> \<le> 2 ^ 53" using assms by (auto simp: time_in_def abs_le_iff)
  then show "f64_sub x b = Fin (of_int (n - k))" using assms f64_sub_exact [of n k] by (simp add: time_in_def)
qed

lemma rebase_time:
  assumes "time_in x n" and "time_in b k"
  shows "f64_add (f64_sub x b) b = x"
  using sub_time [OF assms] assms f64_add_exact [of "n - k" k] by (simp add: time_in_def)

definition plain_base :: "Record \<Rightarrow> bool" where
  "plain_base r \<longleftrightarrow> rec_BaseName r = [] \<and> rec_BaseTime r = Fin 0"

lemma base_fields_plain: "\<forall>r \<in> set rs. plain_base r \<Longrightarrow> base_fields b t rs = (b, t)"
  by (induction rs arbitrary: b t) (auto simp: plain_base_def)

text \<open>A record of the batch resolves to its own name and time, whatever the rebasing did.\<close>

definition resolves :: "(f64 \<Rightarrow> int) \<Rightarrow> f64 \<Rightarrow> Record \<Rightarrow> Record \<Rightarrow> bool" where
  "resolves oob b r r' \<longleftrightarrow> rec_Name r' = rec_Name r \<and>
     (\<forall>n t. variableFromRecord n r' t = variableFromRecord n r t) \<and>
     f64_add (rec_Time r') b = rec_Time r"

lemma variables_loop_resolves:
  assumes "list_all2 (resolves oob b) rs rs'" and "\<forall>r \<in> set rs. rec_Name r \<noteq> []"
  shows "variables_loop oob [] b rs' =
    concat (map (\<lambda>r. case variableFromRecord (rec_Name r) r (resolveTime oob (rec_Time r)) of
                       None \<Rightarrow> [] | Some v \<Rightarrow> [v]) rs)"
  using assms by (induction rule: list_all2_induct) (auto simp: resolves_def Let_def split: option.split)

lemma toVariables_rebase:
  assumes "rs \<noteq> []" and "\<forall>r \<in> set rs. plain_base r \<and> rec_Name r \<noteq> [] \<and> (\<exists>n. time_in (rec_Time r) n)"
  shows "toVariables oob (rebase rs) =
    concat (map (\<lambda>r. case variableFromRecord (rec_Name r) r (resolveTime oob (rec_Time r)) of
                       None \<Rightarrow> [] | Some v \<Rightarrow> [v]) rs)"
proof -
  obtain r rs' where rs: "rs = r # rs'" using assms(1) by (cases rs) auto
  obtain k where k: "time_in (rec_Time r) k" using assms(2) rs by auto
  define b where "b = min_time (rec_Time r) rs'"
  obtain j where j: "time_in b j" "j = 0 \<longrightarrow> k = 0 \<and> (\<forall>r \<in> set rs'. rec_Time r = Fin 0)"
    using min_time_in [OF k, of rs'] assms(2) rs by (auto simp: b_def)
  have names: "\<forall>r \<in> set rs. rec_Name r \<noteq> []" using assms(2) by auto
  have "\<exists>b. base_fields [] (Fin 0) (rebase rs) = ([], b) \<and> list_all2 (resolves oob b) rs (rebase rs)"
  proof (cases "j = 0")
    case True
    then have "rebase rs = rs" using j(1) by (simp add: rs b_def [symmetric] time_in_def)
    moreover have "rec_Time x = Fin 0" if "x \<in> set rs" for x
      using that True j(2) k rs by (auto simp: time_in_def)
    moreover have "f64_add (Fin 0) (Fin 0) = Fin 0" using f64_add_exact [of 0 0] by simp
    ultimately show ?thesis using assms(2)
      by (intro exI [of _ "Fin 0"])
         (auto simp: base_fields_plain resolves_def intro!: list.rel_refl_strong)
  next
    case False
    let ?f = "\<lambda>r. r\<lparr>rec_Time := f64_sub (rec_Time r) b\<rparr>"
    have nz: "\<not> f64_eq b (Fin 0)" using j(1) False by (simp add: time_in_def)
    then have reb: "rebase rs = ?f (r\<lparr>rec_BaseTime := b\<rparr>) # map ?f rs'"
      by (simp add: rs b_def [symmetric])
    have plain: "plain_base r" "\<forall>x \<in> set (map ?f rs'). plain_base x"
      using assms(2) rs by (auto simp: plain_base_def)
    have ok: "f64_add (f64_sub (rec_Time x) b) b = rec_Time x" if "x \<in> set rs" for x
      using that assms(2) rebase_time j(1) by blast
    have "list_all2 (resolves oob b) rs' (map ?f rs')"
      using ok rs by (auto simp: list_all2_map2 resolves_def intro!: list.rel_refl_strong)
    moreover have "resolves oob b r (?f (r\<lparr>rec_BaseTime := b\<rparr>))"
      using ok [of r] rs by (simp add: resolves_def)
    moreover have "base_fields [] (Fin 0) (rebase rs) = ([], b)"
      using plain nz by (simp add: reb base_fields_plain plain_base_def)
    ultimately show ?thesis unfolding reb by (intro exI [of _ b]) (simp add: rs)
  qed
  then show ?thesis using variables_loop_resolves names by (force simp: toVariables_def)
qed

section \<open>Properties of the codec\<close>

lemma toRecords_ok:
  assumes "\<forall>v \<in> set vs. supported (sv_Value v)"
  shows "toRecords vs = Inr (map record_of (sort_key sv_Name vs))"
proof -
  have "List.find (\<lambda>v. \<not> supported (sv_Value v)) vs = None" using assms by (simp add: find_None_iff)
  moreover have "sort_key (rec_Name \<circ> record_of) vs = sort_key sv_Name vs"
    by (rule sort_key_agree) (use assms record_of_fields(1) in auto)
  ultimately show ?thesis by (simp add: toRecords_def records_loop_iff sort_key_map)
qed

lemma Encode_okD:
  assumes "Encode marshal vs = Inr p" and "vs \<noteq> []"
  shows "\<forall>v \<in> set vs. supported (sv_Value v)"
    and "marshal (rebase (map record_of (sort_key sv_Name vs))) = Inr p"
proof -
  show sup: "\<forall>v \<in> set vs. supported (sv_Value v)"
    using assms
    by (auto simp: Encode_def toRecords_def records_loop_iff find_None_iff
        split: option.splits sum.splits if_splits)
  then show "marshal (rebase (map record_of (sort_key sv_Name vs))) = Inr p"
    using assms by (auto simp: Encode_def toRecords_ok split: sum.splits)
qed

lemma Encode_unsupported:
  assumes "v \<in> set vs" and "\<not> supported (sv_Value v)"
  shows "\<exists>e. Encode marshal vs = Inl e"
proof -
  have "List.find (\<lambda>v. \<not> supported (sv_Value v)) vs \<noteq> None" "vs \<noteq> []"
    using assms by (auto simp: find_None_iff)
  then show ?thesis by (auto simp: Encode_def toRecords_def records_loop_iff)
qed

lemma validate_rebase:
  assumes "\<forall>r \<in> set rs. rec_Name r \<noteq> [] \<and> value_count r \<le> 1"
  shows "validate (rebase rs) = None"
proof -
  have "\<forall>r \<in> set (rebase rs). rec_Name r \<noteq> [] \<and> value_count r \<le> 1"
    using assms by (cases rs) (auto simp: Let_def value_count_def)
  then show ?thesis by (auto simp: validate_iff)
qed

lemma Decode_rebased:
  assumes un: "unmarshal p = Inr (rebase (map record_of (sort_key sv_Name vs)))" and vs: "vs \<noteq> []"
    and sup: "\<forall>v \<in> set vs. supported (sv_Value v)"
    and ok: "\<forall>v \<in> set vs. sv_Name v \<noteq> [] \<and> exact_time (sv_Timestamp v)"
  shows "Decode oob unmarshal p = Inr (map wire_variable (sort_key sv_Name vs))"
proof -
  define ws where "ws = sort_key sv_Name vs"
  have ws: "set ws = set vs" by (simp add: ws_def)
  have fields: "plain_base (record_of v) \<and> rec_Name (record_of v) \<noteq> [] \<and>
      (\<exists>n. time_in (rec_Time (record_of v)) n) \<and> value_count (record_of v) \<le> 1"
    if "v \<in> set ws" for v
    using that sup ok ws encodeTime_exact wire_time_bounds
    by (auto simp: record_of_fields plain_base_def time_in_def)
  have val: "validate (rebase (map record_of ws)) = None"
    by (rule validate_rebase) (use fields in auto)
  have "toVariables oob (rebase (map record_of ws)) =
      concat (map (\<lambda>r. case variableFromRecord (rec_Name r) r (resolveTime oob (rec_Time r)) of
                         None \<Rightarrow> [] | Some v \<Rightarrow> [v]) (map record_of ws))"
    by (rule toVariables_rebase) (use fields vs ws in auto)
  also have "\<dots> = concat (map (\<lambda>v. [wire_variable v]) ws)"
    unfolding map_map comp_def
    by (rule arg_cong [where f = concat], rule map_cong)
       (use sup ok ws in \<open>auto simp: record_of_fields variableFromRecord_record_of encodeTime_exact
          resolve_wire_time wire_variable_def\<close>)
  also have "\<dots> = map wire_variable ws" by (induction ws) auto
  finally show ?thesis using un val by (simp add: Decode_def ws_def)
qed

section \<open>Over a CBOR library\<close>

text \<open>
  The variables the codec carries: a valid UTF-8 name, an exact time stamp, and a value that is an
  \<open>int64\<close>, a \<open>float64\<close>, a valid text or a boolean.
\<close>

fun value_ok :: "any \<Rightarrow> bool" where
  "value_ok (AInt n) \<longleftrightarrow> - (2 ^ 63) \<le> n \<and> n < 2 ^ 63"
| "value_ok (AInt64 n) \<longleftrightarrow> - (2 ^ 63) \<le> n \<and> n < 2 ^ 63"
| "value_ok (AFloat x) \<longleftrightarrow> is_f64 x"
| "value_ok (AStr s) \<longleftrightarrow> text_ok s"
| "value_ok _ \<longleftrightarrow> True"

definition wire_ok :: "SenmlVariable \<Rightarrow> bool" where
  "wire_ok v \<longleftrightarrow> sv_Name v \<noteq> [] \<and> text_ok (sv_Name v) \<and> exact_time (sv_Timestamp v) \<and> value_ok (sv_Value v)"

lemma text_ok_Nil [simp]: "text_ok []"
  by (simp add: text_ok_def head_range_def)

lemma is_f64_time: "time_in x n \<Longrightarrow> is_f64 x"
  using is_f64_of_int [of n] by (simp add: time_in_def)

lemma record_of_ok:
  assumes "wire_ok v" and "supported (sv_Value v)"
  shows "record_ok (record_of v) \<and> (\<exists>n. time_in (rec_Time (record_of v)) n)"
proof -
  have t: "time_in (encodeTime (sv_Timestamp v)) (wire_time (sv_Timestamp v))"
    using assms(1) encodeTime_exact wire_time_bounds by (simp add: wire_ok_def time_in_def)
  have "is_f64 (Fin 0)" using is_f64_of_int [of 0] by simp
  with t assms is_f64_time [OF t] have "record_ok (record_of v)"
    by (cases "sv_Value v")
       (simp_all add: record_ok_def record_of_def recordFromVariable_def wire_ok_def empty_record_def Let_def)
  then show ?thesis using t assms(2) by (auto simp: record_of_fields)
qed

lemma rebase_ok:
  assumes "\<forall>r \<in> set rs. record_ok r \<and> (\<exists>n. time_in (rec_Time r) n)"
  shows "\<forall>r \<in> set (rebase rs). record_ok r"
proof (cases rs)
  case (Cons r rs')
  then obtain k where "time_in (rec_Time r) k" using assms by auto
  then obtain j where j: "time_in (min_time (rec_Time r) rs') j"
    using min_time_in [of "rec_Time r" k rs'] assms Cons by auto
  have "is_f64 (f64_sub (rec_Time x) (min_time (rec_Time r) rs'))" if x: "x \<in> set rs" for x
  proof -
    obtain n where "time_in (rec_Time x) n" using assms x by auto
    from sub_time [OF this j] show ?thesis using is_f64_of_int by metis
  qed
  then show ?thesis using assms is_f64_time [OF j] Cons by (auto simp: record_ok_def Let_def)
qed simp

lemma length_rebase [simp]: "length (rebase rs) = length rs"
  by (cases rs) (simp_all add: Let_def)

lemma Decode_Encode:
  assumes "cbor_library enc dec" and "Encode (records_marshal enc) vs = Inr p" and "vs \<noteq> []"
    and "length vs \<le> maxElements" and "\<forall>v \<in> set vs. wire_ok v"
  shows "Decode oob (records_unmarshal dec rest) p = Inr (map wire_variable (sort_key sv_Name vs))"
proof -
  let ?rs = "rebase (map record_of (sort_key sv_Name vs))"
  note sup = Encode_okD(1) [OF assms(2,3)] and mar = Encode_okD(2) [OF assms(2,3)]
  have "\<forall>r \<in> set ?rs. record_ok r" by (rule rebase_ok) (use record_of_ok sup assms(5) in auto)
  then have "records_unmarshal dec rest p = Inr ?rs"
    using records_roundtrip [OF assms(1) mar] assms(4) by simp
  then show ?thesis by (rule Decode_rebased) (use assms(3,5) sup in \<open>auto simp: wire_ok_def\<close>)
qed

text \<open>
  C10. Decoding inverts encoding, over a CBOR library that decodes the items it encoded: a batch of
  variables with distinct names (distinct, so that the order \<open>slices.SortFunc\<close> leaves them in is
  determined), valid texts and exact time stamps decodes to the same names, values, types and time
  stamps, sorted by name (an \<open>int\<close> reads back as \<open>int64\<close>); the base time that \<open>Encode\<close> subtracts is
  restored without rounding.
\<close>

theorem senml_roundtrip:
  assumes "cbor_library enc dec" and "Encode (records_marshal enc) vs = Inr p" and "vs \<noteq> []"
    and "length vs \<le> maxElements" and "\<forall>v \<in> set vs. wire_ok v" and "distinct (map sv_Name vs)"
  shows "Decode oob (records_unmarshal dec rest) p = Inr (map wire_variable (sort_key sv_Name vs))"
  by (rule Decode_Encode [OF assms(1-5)])

definition demo_vars :: "SenmlVariable list" where
  "demo_vars =
     [\<lparr>sv_Name = ''l:sat'', sv_Type = TypeInt, sv_Value = AInt 7, sv_Timestamp = 1700000000001000000\<rparr>,
      \<lparr>sv_Name = ''l:hue'', sv_Type = TypeString, sv_Value = AStr ''red'', sv_Timestamp = zero_time\<rparr>]"

lemma demo_vars_ok:
  "demo_vars \<noteq> []" "length demo_vars \<le> maxElements" "\<forall>v \<in> set demo_vars. wire_ok v" "distinct (map sv_Name demo_vars)"
  by (simp_all add: demo_vars_def wire_ok_def text_ok_def head_range_def exact_time_def maxElements_def utf8_valid_ascii)

text \<open>Over the encoding of RFC 8949, a batch of supported values always has a payload.\<close>

lemma Encode_rfc:
  assumes "\<forall>v \<in> set vs. supported (sv_Value v)"
  shows "\<exists>p. Encode (records_marshal rfc_enc) vs = Inr p \<and> (vs \<noteq> [] \<longrightarrow> p \<noteq> [])"
  using assms by (auto simp: Encode_def toRecords_ok records_marshal_def rfc_enc_def)

theorem senml_roundtrip_witness:
  "\<exists>p. Encode (records_marshal rfc_enc) demo_vars = Inr p \<and>
     Decode (\<lambda>_. 0) (records_unmarshal rfc_dec (\<lambda>_. Inl (CborError []))) p =
       Inr (map wire_variable (sort_key sv_Name demo_vars))"
proof -
  obtain p where p: "Encode (records_marshal rfc_enc) demo_vars = Inr p"
    using Encode_rfc [of demo_vars] by (auto simp: demo_vars_def)
  from senml_roundtrip [OF rfc_library p demo_vars_ok] p show ?thesis by blast
qed

lemmas payload_simps = Encode_def toRecords_def recordFromVariable_def encodeTime_def Let_def empty_record_def
  records_marshal_def rfc_enc_def record_item_def record_fields_def nonempty_def nonzero_def number_ptr_def any_item_def
  cbor_head_def initial_byte_def int_head_def bytes_of_def

text \<open>The bytes of the golden vectors in \<open>codec_test.go\<close>.\<close>

lemma golden_payloads:
  "Encode (records_marshal rfc_enc) [\<lparr>sv_Name = ''test'', sv_Type = TypeBool, sv_Value = ABool False, sv_Timestamp = zero_time\<rparr>] =
     Inr [0x81, 0xA2, 0x00, 0x64, 0x74, 0x65, 0x73, 0x74, 0x04, 0xF4]"
  "Encode (records_marshal rfc_enc) [\<lparr>sv_Name = ''test'', sv_Type = TypeInt, sv_Value = AInt64 7, sv_Timestamp = zero_time\<rparr>] =
     Inr [0x81, 0xA2, 0x00, 0x64, 0x74, 0x65, 0x73, 0x74, 0x02, 0x07]"
  "Encode (records_marshal rfc_enc) [\<lparr>sv_Name = ''test'', sv_Type = TypeString, sv_Value = AStr ''testtt'', sv_Timestamp = zero_time\<rparr>] =
     Inr [0x81, 0xA2, 0x00, 0x64, 0x74, 0x65, 0x73, 0x74, 0x03, 0x66, 0x74, 0x65, 0x73, 0x74, 0x74, 0x74]"
  by (simp_all add: payload_simps)

text \<open>
  Remark. \<open>Encode\<close> fails on the value types: it reports the first variable of the batch whose value is
  not an integer, a float, a string or a boolean (a JSON null, array or object), and with no such
  variable it fails only if the CBOR library does.
\<close>

theorem Encode_error:
  "Encode marshal vs =
     (if vs = [] then Inr []
      else case List.find (\<lambda>v. \<not> supported (sv_Value v)) vs of
             Some v \<Rightarrow> Inl (UnsupportedValueType (sv_Value v) (sv_Name v))
           | None \<Rightarrow> (case marshal (rebase (map record_of (sort_key sv_Name vs))) of
                       Inl e \<Rightarrow> Inl (SenmlCbor e) | Inr p \<Rightarrow> Inr p))"
proof (cases "List.find (\<lambda>v. \<not> supported (sv_Value v)) vs")
  case None
  then have "\<forall>v \<in> set vs. supported (sv_Value v)" by (auto simp: find_None_iff)
  then show ?thesis using None by (simp add: Encode_def toRecords_ok)
next
  case (Some v)
  then show ?thesis by (auto simp: Encode_def toRecords_def records_loop_iff)
qed

section \<open>Decoded variables and base resolution\<close>

text \<open>The records that carry a measurement the registry can hold.\<close>

definition measured :: "Record \<Rightarrow> bool" where
  "measured r \<longleftrightarrow> rec_Value r \<noteq> None \<or> rec_StringValue r \<noteq> None \<or> rec_BoolValue r \<noteq> None"

fun well_typed :: "SenmlVariable \<Rightarrow> bool" where
  "well_typed v \<longleftrightarrow>
     (case sv_Type v of
        TypeInt \<Rightarrow> (\<exists>n. sv_Value v = AInt64 n)
      | TypeFloat \<Rightarrow> (\<exists>x. sv_Value v = AFloat x)
      | TypeString \<Rightarrow> (\<exists>s. sv_Value v = AStr s)
      | TypeBool \<Rightarrow> (\<exists>b. sv_Value v = ABool b))"

declare well_typed.simps [simp del]

lemma variableFromRecord_shape:
  "variableFromRecord n r t = None \<longleftrightarrow> \<not> measured r"
  "variableFromRecord n r t = Some v \<Longrightarrow> sv_Name v = n \<and> sv_Timestamp v = t \<and> well_typed v"
  by (auto simp: variableFromRecord_def measured_def well_typed.simps split: option.splits if_splits)

lemma variables_loop_names:
  assumes "\<forall>r \<in> set rs. measured r \<longrightarrow> b @ rec_Name r \<noteq> []"
  shows "map sv_Name (variables_loop oob b t rs) = map (\<lambda>r. b @ rec_Name r) (filter measured rs)"
  using assms
proof (induction rs)
  case (Cons r rs)
  show ?case
  proof (cases "variableFromRecord (b @ rec_Name r) r (resolveTime oob (f64_add (rec_Time r) t))")
    case None
    then have "\<not> measured r" by (simp add: variableFromRecord_shape(1))
    then show ?thesis using None Cons by (auto simp: Let_def)
  next
    case (Some v)
    then have "measured r" using variableFromRecord_shape(1) option.distinct(1) by metis
    moreover have "sv_Name v = b @ rec_Name r" using Some variableFromRecord_shape(2) by blast
    moreover note Some
    ultimately show ?thesis using Cons by (auto simp: Let_def)
  qed
qed simp

lemma variables_loop_typed:
  "v \<in> set (variables_loop oob b t rs) \<Longrightarrow> sv_Name v \<noteq> [] \<and> well_typed v"
  by (induction rs)
     (auto simp: Let_def dest: variableFromRecord_shape(2) split: if_splits option.splits)

lemma base_fields_name_mono:
  "fst (base_fields b t (take i rs)) \<noteq> [] \<Longrightarrow> fst (base_fields b t rs) \<noteq> []"
proof -
  have keep: "b \<noteq> [] \<Longrightarrow> fst (base_fields b t xs) \<noteq> []" for b t xs
    by (induction xs arbitrary: b t) auto
  assume "fst (base_fields b t (take i rs)) \<noteq> []"
  then show ?thesis
    using base_fields_append [of b t "take i rs" "drop i rs"] keep by (auto split: prod.splits)
qed


definition demo_payload :: "Record list" where
  "demo_payload =
     [empty_record\<lparr>rec_BaseName := ''l:'', rec_BaseVersion := 10\<rparr>,
      empty_record\<lparr>rec_Name := ''hue'', rec_Value := Some (NInt64 7)\<rparr>,
      empty_record\<lparr>rec_Name := ''swi'', rec_BoolValue := Some True\<rparr>]"


text \<open>
  Resolution as RFC 8428 defines it: a base field applies to its own record and to the records
  that follow, until another record overrides it.
\<close>

fun rfc_variables :: "(f64 \<Rightarrow> int) \<Rightarrow> string \<Rightarrow> f64 \<Rightarrow> Record list \<Rightarrow> SenmlVariable list" where
  "rfc_variables oob b t [] = []"
| "rfc_variables oob b t (r # rs) =
     (let b = (if rec_BaseName r \<noteq> [] then rec_BaseName r else b);
          t = (if \<not> f64_eq (rec_BaseTime r) (Fin 0) then rec_BaseTime r else t)
      in variables_loop oob b t [r] @ rfc_variables oob b t rs)"

lemma variables_loop_append:
  "variables_loop oob b t (xs @ ys) = variables_loop oob b t xs @ variables_loop oob b t ys"
  by (induction xs) (auto simp: Let_def split: option.splits)

lemma rfc_variables_plain:
  "\<forall>r \<in> set rs. plain_base r \<Longrightarrow> rfc_variables oob b t rs = variables_loop oob b t rs"
proof (induction rs)
  case (Cons r rs)
  then show ?case
    using variables_loop_append [of oob b t "[r]" rs] by (simp add: plain_base_def Let_def)
qed simp

text \<open>
  Remark. With the base fields in the first record only (the shape \<open>Encode\<close> produces and the cloud
  sends), \<open>toVariables\<close> resolves every record as RFC 8428 prescribes.
\<close>

theorem toVariables_rfc:
  assumes "\<forall>r \<in> set (tl rs). plain_base r"
  shows "toVariables oob rs = rfc_variables oob [] (Fin 0) rs"
proof (cases rs)
  case (Cons r rs')
  then have plain: "\<forall>r \<in> set rs'. plain_base r" using assms by simp
  let ?b = "if rec_BaseName r \<noteq> [] then rec_BaseName r else []"
  let ?t = "if \<not> f64_eq (rec_BaseTime r) (Fin 0) then rec_BaseTime r else Fin 0"
  have "toVariables oob rs = variables_loop oob ?b ?t ([r] @ rs')"
    unfolding toVariables_def Cons base_fields.simps base_fields_plain [OF plain] by simp
  also have "\<dots> = rfc_variables oob [] (Fin 0) rs"
    unfolding variables_loop_append Cons rfc_variables.simps Let_def rfc_variables_plain [OF plain] ..
  finally show ?thesis .
qed (simp add: toVariables_def)

theorem toVariables_rfc_witness:
  "map sv_Name (rfc_variables (\<lambda>_. 0) [] (Fin 0) demo_payload) =
     map sv_Name (toVariables (\<lambda>_. 0) demo_payload)"
proof -
  have "\<forall>r \<in> set (tl demo_payload). plain_base r"
    by (simp add: demo_payload_def plain_base_def empty_record_def)
  then show ?thesis by (simp only: toVariables_rfc)
qed

text \<open>
  Remark. With two base names in one payload it does not: the second one is applied to the record
  before it as well, so that the value addressed to \<open>a:x\<close> is reported under \<open>b:x\<close>.
\<close>

theorem base_name_applied_backwards:
  "let rs = [empty_record\<lparr>rec_BaseName := ''a:'', rec_Name := ''x'', rec_BoolValue := Some True\<rparr>,
             empty_record\<lparr>rec_BaseName := ''b:'', rec_Name := ''y'', rec_BoolValue := Some True\<rparr>]
   in validate rs = None \<and> map sv_Name (toVariables oob rs) = [''b:x'', ''b:y''] \<and>
      map sv_Name (rfc_variables oob [] (Fin 0) rs) = [''a:x'', ''b:y'']"
  by (simp add: empty_record_def toVariables_def variableFromRecord_def validate_def
      value_count_def has_value_def)

end
