(* ===== verification/Go_Heap.thy ===== *)
theory Go_Heap
  imports Prelude
begin

text \<open>
  The array heap of Go's \<open>container/heap\<close>, as the outbound worker uses it through
  \<open>heap.Init\<close>, \<open>heap.Push\<close> and \<open>heap.Pop\<close>: the sift-up and sift-down loops over an
  ordering \<open>lt\<close> supplied by the element type, with the heap invariant, the multiset of
  elements and the minimality of the popped element. The interface a client relies on is the
  locale \<open>min_queue\<close>; the heap interprets it for every strict weak order.
\<close>

section \<open>The operations\<close>

definition Swap :: "'a list \<Rightarrow> nat \<Rightarrow> nat \<Rightarrow> 'a list" where
  "Swap xs i j = xs[i := xs ! j, j := xs ! i]"

abbreviation parent :: "nat \<Rightarrow> nat" where
  "parent j \<equiv> (j - 1) div 2"

text \<open>\<open>up\<close> moves the element at \<open>j\<close> towards the root while it is less than its parent.\<close>

function up :: "('a \<Rightarrow> 'a \<Rightarrow> bool) \<Rightarrow> 'a list \<Rightarrow> nat \<Rightarrow> 'a list" where
  "up lt xs j =
     (let i = parent j
      in if i = j \<or> \<not> lt (xs ! j) (xs ! i) then xs else up lt (Swap xs i j) i)"
  by pat_completeness auto
termination
  by (relation "measure (\<lambda>(lt, xs, j). j)") auto

text \<open>\<open>down\<close> moves the element at \<open>i\<close> away from the root, within the first \<open>n\<close> elements.\<close>

function down :: "('a \<Rightarrow> 'a \<Rightarrow> bool) \<Rightarrow> 'a list \<Rightarrow> nat \<Rightarrow> nat \<Rightarrow> 'a list" where
  "down lt xs i n =
     (let j1 = 2 * i + 1; j2 = j1 + 1;
          j = (if j2 < n \<and> lt (xs ! j2) (xs ! j1) then j2 else j1)
      in if n \<le> j1 \<or> \<not> lt (xs ! j) (xs ! i) then xs else down lt (Swap xs i j) j n)"
  by pat_completeness auto
termination
  by (relation "measure (\<lambda>(lt, xs, i, n). n - i)") (auto simp: Let_def split: if_splits)

declare up.simps [simp del] down.simps [simp del]

definition heap_Push :: "('a \<Rightarrow> 'a \<Rightarrow> bool) \<Rightarrow> 'a list \<Rightarrow> 'a \<Rightarrow> 'a list" where
  "heap_Push lt h x = up lt (h @ [x]) (length h)"

text \<open>On an empty heap \<open>heap.Pop\<close> panics with an index out of range: no result.\<close>

definition heap_Pop :: "('a \<Rightarrow> 'a \<Rightarrow> bool) \<Rightarrow> 'a list \<Rightarrow> ('a \<times> 'a list) option" where
  "heap_Pop lt h =
     (if h = [] then None
      else let n = length h - 1; h' = down lt (Swap h 0 n) 0 n
           in Some (last h', butlast h'))"

section \<open>Invariants\<close>

definition is_heap :: "('a \<Rightarrow> 'a \<Rightarrow> bool) \<Rightarrow> nat \<Rightarrow> 'a list \<Rightarrow> bool" where
  "is_heap lt n xs \<longleftrightarrow> (\<forall>j. 0 < j \<and> j < n \<longrightarrow> \<not> lt (xs ! j) (xs ! parent j))"

text \<open>A heap but for the element at \<open>i\<close> against its parent, or against its children.\<close>

definition heap_but_up :: "('a \<Rightarrow> 'a \<Rightarrow> bool) \<Rightarrow> nat \<Rightarrow> 'a list \<Rightarrow> nat \<Rightarrow> bool" where
  "heap_but_up lt n xs i \<longleftrightarrow>
     (\<forall>j. 0 < j \<and> j < n \<and> j \<noteq> i \<longrightarrow> \<not> lt (xs ! j) (xs ! parent j)) \<and>
     (\<forall>j. 0 < j \<and> j < n \<and> parent j = i \<and> 0 < i \<longrightarrow> \<not> lt (xs ! j) (xs ! parent i))"

definition heap_but_down :: "('a \<Rightarrow> 'a \<Rightarrow> bool) \<Rightarrow> nat \<Rightarrow> 'a list \<Rightarrow> nat \<Rightarrow> bool" where
  "heap_but_down lt n xs i \<longleftrightarrow>
     (\<forall>j. 0 < j \<and> j < n \<and> parent j \<noteq> i \<longrightarrow> \<not> lt (xs ! j) (xs ! parent j)) \<and>
     (\<forall>j. 0 < j \<and> j < n \<and> parent j = i \<and> 0 < i \<longrightarrow> \<not> lt (xs ! j) (xs ! parent i))"

section \<open>Structure: length and elements\<close>

lemma length_Swap [simp]: "length (Swap xs i j) = length xs"
  by (simp add: Swap_def)

lemma nth_Swap: "i < length xs \<Longrightarrow> j < length xs \<Longrightarrow>
    Swap xs i j ! k = (if k = i then xs ! j else if k = j then xs ! i else xs ! k)"
  by (auto simp: Swap_def nth_list_update)

lemma mset_Swap [simp]: "i < length xs \<Longrightarrow> j < length xs \<Longrightarrow> mset (Swap xs i j) = mset xs"
  by (simp add: Swap_def mset_swap)

lemma length_up [simp]: "length (up lt xs j) = length xs"
  by (induction lt xs j rule: up.induct) (subst up.simps, simp add: Let_def)

lemma length_down [simp]: "length (down lt xs i n) = length xs"
  by (induction lt xs i n rule: down.induct) (subst down.simps, simp add: Let_def)

lemma mset_up: "j < length xs \<Longrightarrow> mset (up lt xs j) = mset xs"
proof (induction lt xs j rule: up.induct)
  case (1 lt xs j)
  have "parent j < length xs" using "1.prems" by linarith
  with 1 show ?case by (subst up.simps) (auto simp: Let_def)
qed

lemma mset_down: "i < n \<Longrightarrow> n \<le> length xs \<Longrightarrow> mset (down lt xs i n) = mset xs"
proof (induction lt xs i n rule: down.induct)
  case (1 lt xs i n)
  then show ?case by (subst down.simps) (auto simp: Let_def)
qed

text \<open>Sifting down within the first \<open>n\<close> elements leaves the others alone.\<close>

lemma nth_down_outside: "n \<le> length xs \<Longrightarrow> n \<le> k \<Longrightarrow> down lt xs i n ! k = xs ! k"
proof (induction lt xs i n rule: down.induct)
  case (1 lt xs i n)
  then show ?case by (subst down.simps) (auto simp: Let_def nth_Swap)
qed

section \<open>Strict weak orders\<close>

text \<open>\<open>heap.Pop\<close> returns the root: the element a client sees at index 0.\<close>

lemma heap_Pop_root:
  assumes "heap_Pop lt h = Some (x, h')"
  shows "x = h ! 0"
proof -
  define n where "n = length h - 1"
  define g where "g = down lt (Swap h 0 n) 0 n"
  have ne: "h \<noteq> []" and x: "x = last g"
    using assms by (auto simp: heap_Pop_def n_def g_def Let_def split: if_splits)
  have n: "n < length h" using ne by (simp add: n_def)
  then have "length g = Suc n" by (simp add: g_def n_def)
  then have "x = g ! n" using x by (simp add: last_conv_nth flip: length_0_conv)
  also have "\<dots> = Swap h 0 n ! n" unfolding g_def by (rule nth_down_outside) (use n in auto)
  also have "\<dots> = h ! 0" using n ne by (simp add: nth_Swap)
  finally show ?thesis .
qed

locale strict_weak_order =
  fixes lt :: "'a \<Rightarrow> 'a \<Rightarrow> bool"
  assumes irrefl: "\<not> lt x x"
    and trans: "lt x y \<Longrightarrow> lt y z \<Longrightarrow> lt x z"
    and neg_trans: "\<not> lt x y \<Longrightarrow> \<not> lt y z \<Longrightarrow> \<not> lt x z"
begin

lemma asym: "lt x y \<Longrightarrow> \<not> lt y x"
  using irrefl trans by blast

lemma less_then_not: "lt x y \<Longrightarrow> \<not> lt z y \<Longrightarrow> \<not> lt z x"
  using neg_trans asym by blast

text \<open>One exchange moves the exception to the heap property one level up, or one level down.\<close>

lemma swap_up:
  assumes hb: "heap_but_up lt n xs j" and j: "0 < j" "j < n" and n: "n \<le> length xs"
    and less: "lt (xs ! j) (xs ! parent j)"
  shows "heap_but_up lt n (Swap xs (parent j) j) (parent j)"
proof -
  define i where "i = parent j"
  have i: "i < j" and pj: "(j - Suc 0) div 2 = i" using j by (simp_all add: i_def)
  have h1: "\<not> lt (xs ! k) (xs ! parent k)" if "0 < k" "k < n" "k \<noteq> j" for k
    using hb that by (simp add: heap_but_up_def)
  have h2: "\<not> lt (xs ! k) (xs ! i)" if "0 < k" "k < n" "parent k = j" for k
    using hb that j by (simp add: heap_but_up_def i_def)
  have ys: "Swap xs i j ! k = (if k = i then xs ! j else if k = j then xs ! i else xs ! k)" for k
    using i j n by (intro nth_Swap) auto
  have lti: "lt (xs ! j) (xs ! i)" using less by (simp add: i_def)
  have "\<not> lt (Swap xs i j ! k) (Swap xs i j ! parent k)" if k: "0 < k" "k < n" "k \<noteq> i" for k
  proof (cases "k = j")
    case True
    with i pj asym [OF lti] show ?thesis by (simp add: ys)
  next
    case False
    with k h1 [of k] h2 [of k] trans [OF _ lti, of "xs ! k"] show ?thesis by (auto simp: ys)
  qed
  moreover have "\<not> lt (Swap xs i j ! k) (Swap xs i j ! parent i)"
    if k: "0 < k" "k < n" "parent k = i" "0 < i" for k
  proof -
    have top: "\<not> lt (xs ! i) (xs ! parent i)" using h1 [of i] k i j by simp
    have p: "parent i < i" "k \<noteq> i" using k by auto
    have "\<not> lt (xs ! k) (xs ! parent i)" if "k \<noteq> j"
      using h1 [of k] k that neg_trans [OF _ top, of "xs ! k"] by simp
    with p i top show ?thesis by (simp add: ys)
  qed
  ultimately show ?thesis by (simp add: heap_but_up_def i_def)
qed

lemma up_heap:
  "j < length xs \<Longrightarrow> heap_but_up lt (length xs) xs j \<Longrightarrow> is_heap lt (length xs) (up lt xs j)"
proof (induction j arbitrary: xs rule: less_induct)
  case (less j)
  show ?case
  proof (cases "parent j = j \<or> \<not> lt (xs ! j) (xs ! parent j)")
    case True
    then have "is_heap lt (length xs) xs"
      using less.prems(2) by (auto simp: is_heap_def heap_but_up_def)
    with True show ?thesis by (subst up.simps) (auto simp: Let_def)
  next
    case False
    then have j: "0 < j" "parent j < j" "lt (xs ! j) (xs ! parent j)" by auto
    have "heap_but_up lt (length xs) (Swap xs (parent j) j) (parent j)"
      using less.prems j by (intro swap_up) auto
    with less.IH [of "parent j" "Swap xs (parent j) j"] less.prems(1) j
    have "is_heap lt (length xs) (up lt (Swap xs (parent j) j) (parent j))" by simp
    with False show ?thesis by (subst up.simps) (auto simp: Let_def)
  qed
qed

lemma swap_down:
  assumes hb: "heap_but_down lt n xs i" and n: "n \<le> length xs"
    and j: "0 < j" "j < n" "parent j = i" and less: "lt (xs ! j) (xs ! i)"
    and least: "\<And>k. 0 < k \<Longrightarrow> k < n \<Longrightarrow> parent k = i \<Longrightarrow> \<not> lt (xs ! k) (xs ! j)"
  shows "heap_but_down lt n (Swap xs i j) j"
proof -
  have i: "i < j" using j by auto
  have h1: "\<not> lt (xs ! k) (xs ! parent k)" if "0 < k" "k < n" "parent k \<noteq> i" for k
    using hb that by (simp add: heap_but_down_def)
  have h2: "\<not> lt (xs ! j) (xs ! parent i)" if "0 < i"
    using hb that j by (simp add: heap_but_down_def)
  have ys: "Swap xs i j ! k = (if k = i then xs ! j else if k = j then xs ! i else xs ! k)" for k
    using i j n by (intro nth_Swap) auto
  have "\<not> lt (Swap xs i j ! k) (Swap xs i j ! parent k)" if k: "0 < k" "k < n" "parent k \<noteq> j" for k
  proof (cases "k = i")
    case True
    with k i have "parent k \<noteq> i" "parent k \<noteq> j" by auto
    with True h2 k show ?thesis by (simp add: ys)
  next
    case False
    with k i j h1 [of k] least [of k] asym [OF less] show ?thesis by (auto simp: ys)
  qed
  moreover have "\<not> lt (Swap xs i j ! k) (Swap xs i j ! parent j)"
    if k: "0 < k" "k < n" "parent k = j" for k
  proof -
    have "k \<noteq> i" "k \<noteq> j" using k i by auto
    with k i j h1 [of k] show ?thesis by (simp add: ys)
  qed
  ultimately show ?thesis by (simp add: heap_but_down_def)
qed

lemma down_heap:
  "n \<le> length xs \<Longrightarrow> heap_but_down lt n xs i \<Longrightarrow> is_heap lt n (down lt xs i n)"
proof (induction "n - i" arbitrary: xs i rule: less_induct)
  case less
  define j where
    "j = (if 2 * i + 2 < n \<and> lt (xs ! (2 * i + 2)) (xs ! (2 * i + 1)) then 2 * i + 2 else 2 * i + 1)"
  have unf: "down lt xs i n =
      (if n \<le> 2 * i + 1 \<or> \<not> lt (xs ! j) (xs ! i) then xs else down lt (Swap xs i j) j n)"
    by (subst down.simps) (simp add: Let_def j_def)
  have kids: "parent k = i \<longleftrightarrow> k = 2 * i + 1 \<or> k = 2 * i + 2" if "0 < k" for k
    using that by auto
  have least: "\<not> lt (xs ! k) (xs ! j)" if "0 < k" "k < n" "parent k = i" for k
    using that kids [of k] irrefl asym [of "xs ! (2 * i + 2)" "xs ! (2 * i + 1)"]
    by (auto simp: j_def)
  show ?case
  proof (cases "n \<le> 2 * i + 1 \<or> \<not> lt (xs ! j) (xs ! i)")
    case True
    have "\<not> lt (xs ! k) (xs ! parent k)" if k: "0 < k" "k < n" for k
    proof (cases "parent k = i")
      case pk: True
      then have "2 * i + 1 < n" using kids [of k] k by auto
      with True have "\<not> lt (xs ! j) (xs ! i)" by simp
      with least [OF k pk] neg_trans pk show ?thesis by metis
    qed (use k less.prems(2) in \<open>auto simp: heap_but_down_def\<close>)
    with True unf show ?thesis by (auto simp: is_heap_def)
  next
    case False
    then have j: "0 < j" "j < n" "parent j = i" "i < j" by (auto simp: j_def)
    have "heap_but_down lt n (Swap xs i j) j"
      using less.prems j False least by (intro swap_down) auto
    with less.hyps [of j "Swap xs i j"] less.prems j have "is_heap lt n (down lt (Swap xs i j) j n)"
      by simp
    with False unf show ?thesis by simp
  qed
qed

text \<open>The root of a heap is minimal.\<close>

lemma heap_root_min: "is_heap lt n xs \<Longrightarrow> k < n \<Longrightarrow> \<not> lt (xs ! k) (xs ! 0)"
proof (induction k rule: less_induct)
  case (less k)
  show ?case
  proof (cases "k = 0")
    case False
    then have "\<not> lt (xs ! k) (xs ! parent k)" using less.prems by (auto simp: is_heap_def)
    moreover have "\<not> lt (xs ! parent k) (xs ! 0)" using less False by auto
    ultimately show ?thesis by (rule neg_trans)
  qed (simp add: irrefl)
qed

text \<open>\<open>heap.Push\<close> and \<open>heap.Pop\<close> keep the invariant; \<open>heap.Pop\<close> returns a minimum.\<close>

lemma heap_Push_heap:
  assumes "is_heap lt (length h) h"
  shows "is_heap lt (length (heap_Push lt h x)) (heap_Push lt h x)"
proof -
  have "\<not> lt ((h @ [x]) ! j) ((h @ [x]) ! parent j)" if "0 < j" "j < length h" for j
    using assms that by (auto simp: is_heap_def nth_append)
  then have "heap_but_up lt (length (h @ [x])) (h @ [x]) (length h)"
    by (auto simp: heap_but_up_def)
  then show ?thesis using up_heap [of "length h" "h @ [x]"] by (simp add: heap_Push_def)
qed

lemma heap_Pop_heap:
  assumes h: "is_heap lt (length h) h" and pop: "heap_Pop lt h = Some (x, h')"
  shows "is_heap lt (length h') h'" and "mset h = add_mset x (mset h')"
    and "\<And>y. y \<in> set h' \<Longrightarrow> \<not> lt y x"
proof -
  define n where "n = length h - 1"
  define g where "g = down lt (Swap h 0 n) 0 n"
  have ne: "h \<noteq> []" and xh: "x = last g" "h' = butlast g"
    using pop by (auto simp: heap_Pop_def n_def g_def Let_def split: if_splits)
  have n: "n < length h" using ne by (simp add: n_def)
  have lg: "length g = Suc n" using n by (simp add: g_def n_def)
  have but: "heap_but_down lt n (Swap h 0 n) 0"
  proof -
    have "\<not> lt (Swap h 0 n ! j) (Swap h 0 n ! parent j)" if "0 < j" "j < n" "parent j \<noteq> 0" for j
    proof -
      have "parent j \<noteq> n" "j \<noteq> 0" "j \<noteq> n" using that by auto
      then show ?thesis using h that n ne by (simp add: is_heap_def nth_Swap)
    qed
    then show ?thesis by (simp add: heap_but_down_def)
  qed
  have hg: "is_heap lt n g" unfolding g_def by (rule down_heap) (use n but in auto)
  have lh: "length h' = n" using lg xh by simp
  have nth: "h' ! k = g ! k" if "k < n" for k
    using that lh xh lg by (simp add: nth_butlast)
  show "is_heap lt (length h') h'" using hg by (auto simp: is_heap_def lh nth)
  have mg: "mset g = mset h"
  proof (cases "n = 0")
    case True
    then have "g = h" using ne n by (subst g_def, subst down.simps) (simp add: Let_def Swap_def)
    then show ?thesis by simp
  next
    case False
    then show ?thesis using n ne by (simp add: g_def mset_down)
  qed
  have "g = h' @ [x]" using xh lg by (metis append_butlast_last_id length_0_conv nat.simps(3))
  then show eq: "mset h = add_mset x (mset h')" using mg by simp
  have "x = h ! 0" using pop by (rule heap_Pop_root)
  then show "\<not> lt y x" if "y \<in> set h'" for y
  proof -
    have "y \<in> set h" using that eq by (metis set_mset_mset insert_iff set_mset_add_mset_insert)
    then obtain k where "k < length h" "y = h ! k" by (auto simp: in_set_conv_nth)
    with heap_root_min [OF h] \<open>x = h ! 0\<close> show ?thesis by simp
  qed
qed

end

section \<open>The interface: a queue that yields a minimum\<close>

locale min_queue = strict_weak_order lt
  for lt :: "'a \<Rightarrow> 'a \<Rightarrow> bool" +
  fixes empty :: 'q
    and push :: "'q \<Rightarrow> 'a \<Rightarrow> 'q"
    and pop :: "'q \<Rightarrow> ('a \<times> 'q) option"
    and invar :: "'q \<Rightarrow> bool"
    and elems :: "'q \<Rightarrow> 'a multiset"
  assumes invar_empty: "invar empty"
    and elems_empty: "elems empty = {#}"
    and invar_push: "invar q \<Longrightarrow> invar (push q x)"
    and elems_push: "invar q \<Longrightarrow> elems (push q x) = add_mset x (elems q)"
    and pop_None: "invar q \<Longrightarrow> pop q = None \<longleftrightarrow> elems q = {#}"
    and invar_pop: "invar q \<Longrightarrow> pop q = Some (x, q') \<Longrightarrow> invar q'"
    and elems_pop: "invar q \<Longrightarrow> pop q = Some (x, q') \<Longrightarrow> elems q = add_mset x (elems q')"
    and pop_min: "invar q \<Longrightarrow> pop q = Some (x, q') \<Longrightarrow> y \<in># elems q' \<Longrightarrow> \<not> lt y x"

text \<open>A client that pops until the queue is empty, \<open>n\<close> times at most.\<close>

fun drain :: "('q \<Rightarrow> ('a \<times> 'q) option) \<Rightarrow> nat \<Rightarrow> 'q \<Rightarrow> 'a list" where
  "drain pop 0 q = []"
| "drain pop (Suc n) q = (case pop q of None \<Rightarrow> [] | Some (x, q') \<Rightarrow> x # drain pop n q')"

context min_queue
begin

lemma drain_elems: "invar q \<Longrightarrow> size (elems q) \<le> n \<Longrightarrow> mset (drain pop n q) = elems q"
proof (induction n arbitrary: q)
  case (Suc n)
  show ?case
  proof (cases "pop q")
    case None
    with Suc.prems pop_None [OF Suc.prems(1)] show ?thesis by simp
  next
    case (Some p)
    obtain x q' where p: "p = (x, q')" by (cases p)
    note pop = Some [unfolded p]
    have "elems q = add_mset x (elems q')" by (rule elems_pop [OF Suc.prems(1) pop])
    with Suc.IH [of q'] Suc.prems invar_pop [OF Suc.prems(1) pop] pop show ?thesis by simp
  qed
qed simp

lemma drain_sorted: "invar q \<Longrightarrow> sorted_wrt (\<lambda>x y. \<not> lt y x) (drain pop (size (elems q)) q)"
proof (induction "size (elems q)" arbitrary: q)
  case 0
  then show ?case by (metis drain.simps(1) sorted_wrt.simps(1))
next
  case (Suc n)
  then have "elems q \<noteq> {#}" by auto
  then obtain x q' where pop: "pop q = Some (x, q')"
    using pop_None [OF Suc.prems] by (cases "pop q") auto
  have el: "elems q = add_mset x (elems q')" by (rule elems_pop [OF Suc.prems pop])
  have inv': "invar q'" by (rule invar_pop [OF Suc.prems pop])
  have sz: "size (elems q) = Suc (size (elems q'))" using el by simp
  have "set (drain pop (size (elems q')) q') = set_mset (elems q')"
    using drain_elems [OF inv' order_refl] by (metis set_mset_mset)
  moreover have "sorted_wrt (\<lambda>x y. \<not> lt y x) (drain pop (size (elems q')) q')"
    using Suc.hyps(1) [of q'] Suc.hyps(2) sz inv' by simp
  ultimately show ?case
    using pop pop_min [OF Suc.prems pop] by (simp add: sz)
qed

end

sublocale strict_weak_order \<subseteq> heapq:
  min_queue lt "[]" "heap_Push lt" "heap_Pop lt" "\<lambda>h. is_heap lt (length h) h" mset
proof (unfold_locales, goal_cases)
  case 1
  show ?case by (simp add: is_heap_def)
next
  case 2
  show ?case by simp
next
  case (3 q x)
  then show ?case by (rule heap_Push_heap)
next
  case (4 q x)
  show ?case by (simp add: heap_Push_def mset_up)
next
  case (5 q)
  show ?case by (simp add: heap_Pop_def Let_def)
next
  case (6 q x q')
  then show ?case by (rule heap_Pop_heap(1))
next
  case (7 q x q')
  then show ?case by (rule heap_Pop_heap(2))
next
  case (8 q x q' y)
  then show ?case using heap_Pop_heap(3) [of q x q' y] by simp
qed

end
