(* ===== verification/Outbound.thy ===== *)
theory Outbound
  imports Cloud_Protocol Senml_Batch Go_Heap
begin

text \<open>
  The outbound path of \<open>internal/daemon/daemon.go\<close>: the REST handlers stamp locally set values and
  block until the bounded channel has room, a single worker moves them through a heap ordered by
  time stamp and sequence number, and stores and publishes each value once it has waited for the
  reorder window; a multi-value property is published whole. The writers, the worker and the clock
  interleave freely.
\<close>

section \<open>Daemon snapshot and errors\<close>

datatype DaemonState = StateCheckInternet | StateProvisioning | StateRun

record DaemonSnapshot =
  ds_State :: DaemonState
  ds_Cloud :: "Snapshot option"

datatype daemon_error =
    ErrBusy
  | ErrNotSteady
  | ErrThingUnavailable
  | ContextCancelled
  | EncodeVariable string senml_error
  | PublishFailed string

definition CloudSteady :: "DaemonSnapshot \<Rightarrow> bool" where
  "CloudSteady snap \<longleftrightarrow>
     ds_State snap = StateRun \<and>
     (case ds_Cloud snap of None \<Rightarrow> False | Some c \<Rightarrow> snap_State c = StateSteady)"

section \<open>Values and their order\<close>

record outboundValue =
  ov_name :: string
  ov_value :: any
  ov_ts :: time
  ov_seq :: "64 word"
  ov_clientID :: string

definition Less :: "outboundValue \<Rightarrow> outboundValue \<Rightarrow> bool" where
  "Less x y = (if ov_ts x = ov_ts y then ov_seq x < ov_seq y else ov_ts x < ov_ts y)"

interpretation outbound: strict_weak_order Less
  by unfold_locales (auto simp: Less_def split: if_splits)

definition outboundQueueSize :: nat where
  "outboundQueueSize = 256"

definition outboundReorderWindow :: duration where
  "outboundReorderWindow = 33 * millisecond"

section \<open>What is published for a value\<close>

definition propertyPacket :: "Registry \<Rightarrow> string \<Rightarrow> any \<Rightarrow> SenmlVariable list" where
  "propertyPacket reg name val =
     (let plain = (\<lambda>n x. \<lparr>sv_Name = n, sv_Type = TypeFloat, sv_Value = x, sv_Timestamp = zero_time\<rparr>)
      in case Cut name CHR '':'' of (prop, _, isAttribute) \<Rightarrow>
           if \<not> isAttribute then [plain name val]
           else let siblings = WithPrefix reg (prop @ '':'')
                in if siblings = [] then [plain name val]
                   else map (\<lambda>v. plain (var_Name v) (if var_Name v = name then val else var_Value v))
                          siblings)"

text \<open>
  \<open>Type\<close> is left at its zero value by the code, which \<open>Encode\<close> never reads; the model has to pick
  one of the four types for it.
\<close>

definition publish_request ::
  "(Record list \<Rightarrow> (cbor_error, bytes) result) \<Rightarrow> DaemonSnapshot \<Rightarrow> Registry \<Rightarrow> string \<Rightarrow> any \<Rightarrow>
   (daemon_error, string \<times> bytes) result" where
  "publish_request marshal snap reg name val =
     (case ds_Cloud snap of
        None \<Rightarrow> Inl ErrNotSteady
      | Some c \<Rightarrow>
          if ds_State snap \<noteq> StateRun \<or> snap_ThingID c = [] then Inl ErrNotSteady
          else case Encode marshal (propertyPacket reg name val) of
                 Inl e \<Rightarrow> Inl (EncodeVariable name e)
               | Inr payload \<Rightarrow> Inr (snap_ThingID c, payload))"

text \<open>\<open>PublishProperty\<close> of the client is an argument; its answer is the result.\<close>

definition publishVariable ::
  "(Record list \<Rightarrow> (cbor_error, bytes) result) \<Rightarrow> (string \<Rightarrow> bytes \<Rightarrow> answer) \<Rightarrow>
   DaemonSnapshot \<Rightarrow> Registry \<Rightarrow> string \<Rightarrow> any \<Rightarrow> daemon_error option" where
  "publishVariable marshal PublishProperty snap reg name val =
     (case publish_request marshal snap reg name val of
        Inl e \<Rightarrow> Some e
      | Inr (thing, payload) \<Rightarrow> map_option PublishFailed (PublishProperty thing payload))"

section \<open>The queue and its worker\<close>

text \<open>
  \<open>ob_senders\<close> are the handlers blocked in the send; \<open>ob_accepted\<close>, \<open>ob_done\<close> and \<open>ob_sent\<close> are
  the histories of what entered the channel, of what the worker stored (in order), and of what it
  handed to the client.
\<close>

record Outbound =
  ob_now :: time
  ob_seq :: "64 word"
  ob_senders :: "outboundValue list"
  ob_chan :: "outboundValue list"
  ob_pending :: "outboundValue list"
  ob_reg :: Registry
  ob_accepted :: "outboundValue list"
  ob_done :: "outboundValue list"
  ob_sent :: "(string \<times> bytes) list"

text \<open>
  \<open>EnqueueVariable\<close> up to its \<open>select\<close>: the guard and the stamping. The clock is read before the
  sequence number is drawn, so another handler may draw a smaller number with a later time stamp:
  \<open>ts\<close> is any reading not later than now.
\<close>

definition EnqueueVariable ::
  "DaemonSnapshot \<Rightarrow> time \<Rightarrow> string \<Rightarrow> any \<Rightarrow> string \<Rightarrow> Outbound \<Rightarrow> (daemon_error, Outbound) result" where
  "EnqueueVariable snap ts name val clientID st =
     (if \<not> CloudSteady snap then Inl ErrThingUnavailable
      else let s = ob_seq st + 1;
               ov = \<lparr>ov_name = name, ov_value = val, ov_ts = ts, ov_seq = s, ov_clientID = clientID\<rparr>
           in Inr (st\<lparr>ob_seq := s, ob_senders := ob_senders st @ [ov]\<rparr>))"

text \<open>The two cases of the \<open>select\<close>: a slot is free, or the caller's context is cancelled.\<close>

definition send_case :: "outboundValue \<Rightarrow> Outbound \<Rightarrow> Outbound option" where
  "send_case ov st =
     (if ov \<in> set (ob_senders st) \<and> length (ob_chan st) < outboundQueueSize
      then Some (st\<lparr>ob_senders := remove1 ov (ob_senders st), ob_chan := ob_chan st @ [ov],
                    ob_accepted := ob_accepted st @ [ov]\<rparr>)
      else None)"

definition cancel_case :: "outboundValue \<Rightarrow> Outbound \<Rightarrow> (daemon_error \<times> Outbound) option" where
  "cancel_case ov st =
     (if ov \<in> set (ob_senders st)
      then Some (ContextCancelled, st\<lparr>ob_senders := remove1 ov (ob_senders st)\<rparr>)
      else None)"

text \<open>One round of \<open>runOutbound\<close> with a ripe root: pop, store, publish.\<close>

definition ripe :: "Outbound \<Rightarrow> bool" where
  "ripe st \<longleftrightarrow> ob_pending st \<noteq> [] \<and>
     ov_ts (ob_pending st ! 0) + outboundReorderWindow - ob_now st \<le> 0"

definition deliver ::
  "(Record list \<Rightarrow> (cbor_error, bytes) result) \<Rightarrow> DaemonSnapshot \<Rightarrow> Outbound \<Rightarrow> Outbound option" where
  "deliver marshal snap st =
     (if \<not> ripe st then None
      else case heap_Pop Less (ob_pending st) of
             None \<Rightarrow> None
           | Some (ov, rest) \<Rightarrow>
               let reg = SetValue (ob_now st) (ob_reg st) (ov_name ov) (ov_value ov) (ov_ts ov)
                           (ov_clientID ov)
               in Some (st\<lparr>ob_pending := rest, ob_reg := reg, ob_done := ob_done st @ [ov],
                           ob_sent := ob_sent st @
                             (case publish_request marshal snap reg (ov_name ov) (ov_value ov) of
                                Inl _ \<Rightarrow> [] | Inr r \<Rightarrow> [r])\<rparr>))"

text \<open>The receive case of its \<open>select\<close>.\<close>

definition take_case :: "Outbound \<Rightarrow> Outbound option" where
  "take_case st =
     (case ob_chan st of
        [] \<Rightarrow> None
      | ov # rest \<Rightarrow> Some (st\<lparr>ob_chan := rest, ob_pending := heap_Push Less (ob_pending st) ov\<rparr>))"

section \<open>Interleavings\<close>

datatype ob_label =
    Stamp DaemonSnapshot time string any string
  | Accept outboundValue
  | GiveUp outboundValue
  | Take
  | Deliver_ov DaemonSnapshot
  | Advance time
  | OtherWrite reg_op

text \<open>
  With \<open>timely\<close>, a value reaches the heap before its reorder window has passed; without it, it may
  be delayed arbitrarily.
\<close>

inductive ob_step :: "bool \<Rightarrow> (Record list \<Rightarrow> (cbor_error, bytes) result) \<Rightarrow> Outbound \<Rightarrow> ob_label \<Rightarrow> Outbound \<Rightarrow> bool"
  for timely :: bool and marshal :: "Record list \<Rightarrow> (cbor_error, bytes) result" where
  ob_stamp: "EnqueueVariable snap ts name val client st = Inr st' \<Longrightarrow> ts \<le> ob_now st \<Longrightarrow>
     ob_step timely marshal st (Stamp snap ts name val client) st'"
| ob_accept: "send_case ov st = Some st' \<Longrightarrow> ob_step timely marshal st (Accept ov) st'"
| ob_giveup: "cancel_case ov st = Some (e, st') \<Longrightarrow> ob_step timely marshal st (GiveUp ov) st'"
| ob_take: "take_case st = Some st' \<Longrightarrow>
     (timely \<longrightarrow> ob_now st < ov_ts (hd (ob_chan st)) + outboundReorderWindow) \<Longrightarrow>
     ob_step timely marshal st Take st'"
| ob_deliver: "deliver marshal snap st = Some st' \<Longrightarrow> ob_step timely marshal st (Deliver_ov snap) st'"
| ob_advance: "ob_now st \<le> t \<Longrightarrow> ob_step timely marshal st (Advance t) (st\<lparr>ob_now := t\<rparr>)"
| ob_other: "reg_step (ob_reg st) l r \<Longrightarrow> ob_step timely marshal st (OtherWrite l) (st\<lparr>ob_reg := r\<rparr>)"

definition newOutbound :: "time \<Rightarrow> Registry \<Rightarrow> Outbound" where
  "newOutbound now reg =
     \<lparr>ob_now = now, ob_seq = 0, ob_senders = [], ob_chan = [], ob_pending = [], ob_reg = reg,
      ob_accepted = [], ob_done = [], ob_sent = []\<rparr>"

definition ob_init :: "Outbound \<Rightarrow> bool" where
  "ob_init st \<longleftrightarrow> (\<exists>now reg. st = newOutbound now reg)"

section \<open>Invariants\<close>

definition ob_inv :: "Outbound \<Rightarrow> bool" where
  "ob_inv st \<longleftrightarrow>
     is_heap Less (length (ob_pending st)) (ob_pending st) \<and>
     length (ob_chan st) \<le> outboundQueueSize \<and>
     mset (ob_accepted st) = mset (ob_chan st) + mset (ob_pending st) + mset (ob_done st)"

text \<open>The order of what is done, and that nothing pending or late precedes it.\<close>

definition ob_ordered :: "Outbound \<Rightarrow> bool" where
  "ob_ordered st \<longleftrightarrow>
     sorted_wrt (\<lambda>x y. \<not> Less y x) (ob_done st) \<and>
     (\<forall>x \<in> set (ob_done st). ov_ts x + outboundReorderWindow \<le> ob_now st) \<and>
     (\<forall>x \<in> set (ob_done st). \<forall>y \<in> set (ob_pending st). \<not> Less y x)"

lemma ob_inv_init: "ob_init st \<Longrightarrow> ob_inv st"
  by (auto simp: ob_init_def newOutbound_def ob_inv_def is_heap_def)

lemma deliver_elim:
  assumes "deliver marshal snap st = Some st'"
  obtains ov rest where "heap_Pop Less (ob_pending st) = Some (ov, rest)"
    "ov_ts ov + outboundReorderWindow \<le> ob_now st" "ob_pending st' = rest"
    "ob_done st' = ob_done st @ [ov]" "ob_chan st' = ob_chan st" "ob_accepted st' = ob_accepted st"
    "ob_now st' = ob_now st"
    "ob_reg st' = SetValue (ob_now st) (ob_reg st) (ov_name ov) (ov_value ov) (ov_ts ov) (ov_clientID ov)"
proof -
  obtain ov rest where pop: "heap_Pop Less (ob_pending st) = Some (ov, rest)"
    using assms by (auto simp: deliver_def split: if_splits option.splits)
  moreover have "ov = ob_pending st ! 0" using pop by (rule heap_Pop_root)
  ultimately show ?thesis
    using assms that by (auto simp: deliver_def ripe_def Let_def split: if_splits)
qed

lemma take_elim:
  assumes "take_case st = Some st'"
  obtains ov rest where "ob_chan st = ov # rest" "ob_chan st' = rest"
    "ob_pending st' = heap_Push Less (ob_pending st) ov" "ob_done st' = ob_done st"
    "ob_accepted st' = ob_accepted st" "ob_now st' = ob_now st"
  using assms by (auto simp: take_case_def split: list.splits)

lemma ob_inv_step: "ob_step timely marshal st l st' \<Longrightarrow> ob_inv st \<Longrightarrow> ob_inv st'"
proof (induction rule: ob_step.induct)
  case (ob_take st st')
  from ob_take.hyps(1) show ?case
    by (rule take_elim)
       (use ob_take.prems outbound.heapq.invar_push outbound.heapq.elems_push in \<open>auto simp: ob_inv_def\<close>)
next
  case (ob_deliver snap st st')
  from ob_deliver.hyps show ?case
  proof (rule deliver_elim)
    fix ov rest
    assume pop: "heap_Pop Less (ob_pending st) = Some (ov, rest)" and "ob_pending st' = rest"
      "ob_done st' = ob_done st @ [ov]" "ob_chan st' = ob_chan st" "ob_accepted st' = ob_accepted st"
    moreover have "is_heap Less (length rest) rest" "mset (ob_pending st) = add_mset ov (mset rest)"
      using outbound.heapq.invar_pop [OF _ pop] outbound.heapq.elems_pop [OF _ pop] ob_deliver.prems
      by (simp_all add: ob_inv_def)
    ultimately show ?thesis using ob_deliver.prems by (simp add: ob_inv_def)
  qed
next
  case (ob_stamp snap ts name val client st st')
  then show ?case by (auto simp: EnqueueVariable_def ob_inv_def Let_def split: if_splits)
qed (auto simp: ob_inv_def send_case_def cancel_case_def split: if_splits)

interpretation outbound_any: invariant_system ob_init "ob_step False marshal" ob_inv for marshal
  by unfold_locales (auto intro: ob_inv_init ob_inv_step)

lemma ob_ordered_step:
  "ob_step True marshal st l st' \<Longrightarrow> ob_inv st \<Longrightarrow> ob_ordered st \<Longrightarrow> ob_ordered st'"
proof (induction rule: ob_step.induct)
  case (ob_take st st')
  from ob_take.hyps(1) show ?case
  proof (rule take_elim)
    fix ov rest
    assume st: "ob_chan st = ov # rest" "ob_pending st' = heap_Push Less (ob_pending st) ov"
      "ob_done st' = ob_done st" "ob_now st' = ob_now st"
    have "mset (heap_Push Less (ob_pending st) ov) = add_mset ov (mset (ob_pending st))"
      using ob_take.prems(1) by (intro outbound.heapq.elems_push) (simp add: ob_inv_def)
    then have "set (heap_Push Less (ob_pending st) ov) = insert ov (set (ob_pending st))"
      by (metis set_mset_add_mset_insert set_mset_mset)
    moreover have "\<not> Less ov x" if "x \<in> set (ob_done st)" for x
    proof -
      have "ov_ts x + outboundReorderWindow \<le> ob_now st" using ob_take.prems(2) that by (simp add: ob_ordered_def)
      then have "ov_ts x < ov_ts ov" using ob_take.hyps(2) st(1) by simp
      then show ?thesis by (simp add: Less_def)
    qed
    ultimately show ?thesis using st ob_take.prems(2) by (auto simp: ob_ordered_def)
  qed
next
  case (ob_deliver snap st st')
  from ob_deliver.hyps show ?case
  proof (rule deliver_elim)
    fix ov rest
    assume pop: "heap_Pop Less (ob_pending st) = Some (ov, rest)"
      and ts: "ov_ts ov + outboundReorderWindow \<le> ob_now st" and st: "ob_pending st' = rest"
      "ob_done st' = ob_done st @ [ov]" "ob_now st' = ob_now st"
    have h: "is_heap Less (length (ob_pending st)) (ob_pending st)" using ob_deliver.prems(1) by (simp add: ob_inv_def)
    have "set (ob_pending st) = insert ov (set rest)"
      using outbound.heapq.elems_pop [OF h pop] by (metis set_mset_add_mset_insert set_mset_mset)
    moreover have "\<not> Less y ov" if "y \<in> set rest" for y
      using outbound.heapq.pop_min [OF h pop, of y] that by simp
    ultimately show ?thesis using st ts ob_deliver.prems(2) by (auto simp: ob_ordered_def sorted_wrt_append)
  qed
next
  case (ob_stamp snap ts name val client st st')
  then show ?case by (auto simp: EnqueueVariable_def ob_ordered_def Let_def split: if_splits)
next
  case (ob_advance st t)
  then show ?case by (auto simp: ob_ordered_def)
qed (auto simp: ob_ordered_def send_case_def cancel_case_def split: if_splits)

interpretation outbound_timely:
  invariant_system ob_init "ob_step True marshal" "\<lambda>st. ob_inv st \<and> ob_ordered st" for marshal
proof (unfold_locales, goal_cases)
  case (1 st)
  then show ?case using ob_inv_init by (auto simp: ob_init_def newOutbound_def ob_ordered_def)
next
  case (2 st l st')
  then show ?case using ob_inv_step ob_ordered_step by blast
qed

section \<open>Draining\<close>

text \<open>Runs of the worker and the clock alone.\<close>

definition worker_label :: "ob_label \<Rightarrow> bool" where
  "worker_label l \<longleftrightarrow> (case l of Take \<Rightarrow> True | Deliver_ov _ \<Rightarrow> True | Advance _ \<Rightarrow> True | _ \<Rightarrow> False)"

inductive worker_run :: "(Record list \<Rightarrow> (cbor_error, bytes) result) \<Rightarrow> Outbound \<Rightarrow> Outbound \<Rightarrow> bool"
  for marshal :: "Record list \<Rightarrow> (cbor_error, bytes) result" where
  worker_refl: "worker_run marshal st st"
| worker_step: "worker_run marshal st st1 \<Longrightarrow> ob_step False marshal st1 l st2 \<Longrightarrow> worker_label l \<Longrightarrow>
     worker_run marshal st st2"

lemma worker_run_trans: "worker_run m b c \<Longrightarrow> worker_run m a b \<Longrightarrow> worker_run m a c"
  by (induction rule: worker_run.induct) (auto intro: worker_run.intros)

lemma worker_run_inv:
  "worker_run m a b \<Longrightarrow> ob_inv a \<Longrightarrow> ob_inv b \<and> ob_accepted b = ob_accepted a"
proof (induction rule: worker_run.induct)
  case (worker_step st st1 l st2)
  have "ob_accepted st2 = ob_accepted st1"
    using worker_step.hyps(2,3)
    by (cases rule: ob_step.cases)
       (auto simp: worker_label_def elim: take_elim deliver_elim)
  moreover have "ob_inv st2" using ob_inv_step [OF worker_step.hyps(2)] worker_step.IH worker_step.prems by simp
  ultimately show ?case using worker_step.IH worker_step.prems by simp
qed simp

lemma take_all: "\<exists>st'. worker_run m st st' \<and> ob_chan st' = []"
proof (induction "ob_chan st" arbitrary: st)
  case Nil
  then show ?case by (metis worker_refl)
next
  case (Cons ov rest)
  let ?st1 = "st\<lparr>ob_chan := rest, ob_pending := heap_Push Less (ob_pending st) ov\<rparr>"
  have "take_case st = Some ?st1" using Cons.hyps(2) by (simp add: take_case_def flip: Cons.hyps(2))
  then have "ob_step False m st Take ?st1" by (rule ob_take) simp
  then have "worker_run m st ?st1"
    by (rule worker_step [OF worker_refl]) (simp add: worker_label_def)
  moreover obtain st' where "worker_run m ?st1 st'" "ob_chan st' = []"
    using Cons.hyps(1) [of ?st1] by auto
  ultimately show ?case by (blast intro: worker_run_trans)
qed

lemma deliver_all:
  "ob_inv st \<Longrightarrow> ob_chan st = [] \<Longrightarrow> \<exists>st'. worker_run m st st' \<and> ob_chan st' = [] \<and> ob_pending st' = []"
proof (induction "length (ob_pending st)" arbitrary: st rule: less_induct)
  case less
  show ?case
  proof (cases "ob_pending st = []")
    case True
    with less.prems show ?thesis by (blast intro: worker_refl)
  next
    case False
    let ?t = "max (ob_now st) (ov_ts (ob_pending st ! 0) + outboundReorderWindow)"
    let ?st1 = "st\<lparr>ob_now := ?t\<rparr>"
    have adv: "ob_step False m st (Advance ?t) ?st1" by (rule ob_advance) simp
    obtain ov rest where pop: "heap_Pop Less (ob_pending st) = Some (ov, rest)"
      using False by (auto simp: heap_Pop_def Let_def)
    define snap where "snap = \<lparr>ds_State = StateRun, ds_Cloud = None\<rparr>"
    have "ripe ?st1" using False by (simp add: ripe_def)
    then obtain st2 where st2: "deliver m snap ?st1 = Some st2" using pop by (simp add: deliver_def Let_def)
    then have del: "ob_step False m ?st1 (Deliver_ov snap) st2" by (rule ob_deliver)
    have "worker_run m st ?st1"
      by (rule worker_step [OF worker_refl adv]) (simp add: worker_label_def)
    from this del have run: "worker_run m st st2"
      by (rule worker_step) (simp add: worker_label_def)
    have eq: "ob_pending st2 = rest" "ob_chan st2 = []"
      using st2 pop less.prems(2) by (auto elim!: deliver_elim)
    have "mset (ob_pending st) = add_mset ov (mset rest)"
      using outbound.heapq.elems_pop [OF _ pop] less.prems(1) by (simp add: ob_inv_def)
    then have "length rest < length (ob_pending st)" by (metis size_mset size_add_mset lessI)
    moreover have "ob_inv st2" using worker_run_inv [OF run less.prems(1)] by simp
    ultimately obtain st' where "worker_run m st2 st'" "ob_chan st' = []" "ob_pending st' = []"
      using less.hyps [of st2] eq by auto
    with run show ?thesis by (blast intro: worker_run_trans)
  qed
qed

section \<open>Properties of the outbound path\<close>


text \<open>Two values that reach the worker in the wrong order.\<close>

definition early :: outboundValue where
  "early = \<lparr>ov_name = ''a'', ov_value = ABool True, ov_ts = 1, ov_seq = 1, ov_clientID = []\<rparr>"

definition late :: outboundValue where
  "late = \<lparr>ov_name = ''b'', ov_value = ABool False, ov_ts = 2, ov_seq = 2, ov_clientID = []\<rparr>"

definition steady_snap :: DaemonSnapshot where
  "steady_snap = \<lparr>ds_State = StateRun, ds_Cloud = Some \<lparr>snap_State = StateSteady, snap_ThingID = ''t''\<rparr>\<rparr>"

fun ob_exec :: "(Record list \<Rightarrow> (cbor_error, bytes) result) \<Rightarrow> ob_label \<Rightarrow> Outbound \<Rightarrow> Outbound option" where
  "ob_exec m (Stamp snap ts n v c) st =
     (if ts \<le> ob_now st then (case EnqueueVariable snap ts n v c st of Inl _ \<Rightarrow> None | Inr st' \<Rightarrow> Some st')
      else None)"
| "ob_exec m (Accept ov) st = send_case ov st"
| "ob_exec m (GiveUp ov) st = map_option snd (cancel_case ov st)"
| "ob_exec m Take st =
     (if ob_chan st \<noteq> [] \<and> ob_now st < ov_ts (hd (ob_chan st)) + outboundReorderWindow
      then take_case st else None)"
| "ob_exec m (Deliver_ov snap) st = deliver m snap st"
| "ob_exec m (Advance t) st = (if ob_now st \<le> t then Some (st\<lparr>ob_now := t\<rparr>) else None)"
| "ob_exec m (OtherWrite _) st = None"

fun ob_run :: "(Record list \<Rightarrow> (cbor_error, bytes) result) \<Rightarrow> ob_label list \<Rightarrow> Outbound \<Rightarrow> Outbound option" where
  "ob_run m [] st = Some st"
| "ob_run m (l # ls) st = (case ob_exec m l st of None \<Rightarrow> None | Some st' \<Rightarrow> ob_run m ls st')"

lemma ob_exec_step: "ob_exec m l st = Some st' \<Longrightarrow> ob_step timely m st l st'"
  by (cases l) (auto intro: ob_step.intros split: if_splits sum.splits)

lemma ob_run_reach:
  "ob_run m ls st = Some st' \<Longrightarrow> reach ob_init (ob_step timely m) st \<Longrightarrow>
     reach ob_init (ob_step timely m) st'"
proof (induction ls arbitrary: st)
  case (Cons l ls)
  then obtain u where u: "ob_exec m l st = Some u" "ob_run m ls u = Some st'"
    by (auto split: option.splits)
  have "reach ob_init (ob_step timely m) u"
    using Cons.prems(2) ob_exec_step [OF u(1)] by (rule reach_step)
  then show ?case using Cons.IH [OF u(2)] by blast
qed simp

definition race :: "ob_label list" where
  "race =
     [Advance 3, Stamp steady_snap 1 ''a'' (ABool True) [], Stamp steady_snap 2 ''b'' (ABool False) [],
      Accept late, Accept early, Take, Take, Advance 40000000, Deliver_ov steady_snap,
      Deliver_ov steady_snap]"

abbreviation no_cbor :: "Record list \<Rightarrow> (cbor_error, bytes) result" where
  "no_cbor \<equiv> \<lambda>_. Inl (CborError [])"

definition race_end :: Outbound where
  "race_end = the (ob_run no_cbor race (newOutbound 0 NewRegistry))"

lemma race_check:
  "case ob_run no_cbor race (newOutbound 0 NewRegistry) of
     None \<Rightarrow> False
   | Some st \<Rightarrow> ob_done st = [early, late] \<and> ob_accepted st = [late, early] \<and> ob_chan st = [] \<and> ob_pending st = []"
  by code_simp

lemma race_end_facts:
  "reach ob_init (ob_step timely no_cbor) race_end" "ob_done race_end = [early, late]"
  "ob_accepted race_end = [late, early]"
proof -
  obtain st where st: "ob_run no_cbor race (newOutbound 0 NewRegistry) = Some st"
    using race_check by (auto split: option.splits)
  then have d: "race_end = st" by (simp add: race_end_def)
  have "reach ob_init (ob_step timely no_cbor) (newOutbound 0 NewRegistry)"
    by (rule reach_init) (auto simp: ob_init_def)
  with st show "reach ob_init (ob_step timely no_cbor) race_end" unfolding d by (rule ob_run_reach)
  show "ob_done race_end = [early, late]" "ob_accepted race_end = [late, early]"
    using race_check [unfolded st option.case] by (simp_all add: d)
qed


text \<open>
  Remark. No accepted value is lost or delivered twice: in every reachable state, with values delayed
  arbitrarily, the values that were accepted are exactly those in the channel, in the heap and
  already stored, and the channel never holds more than 256.
\<close>

theorem outbound_conservation:
  assumes "reach ob_init (ob_step False marshal) st"
  shows "mset (ob_accepted st) = mset (ob_chan st) + mset (ob_pending st) + mset (ob_done st) \<and>
    length (ob_chan st) \<le> 256"
  using outbound_any.reach_inv [OF assms] by (simp add: ob_inv_def outboundQueueSize_def)

theorem outbound_conservation_witness:
  "mset (ob_accepted race_end) = mset (ob_chan race_end) + mset (ob_pending race_end) + mset (ob_done race_end) \<and>
   length (ob_chan race_end) \<le> 256"
  by (rule outbound_conservation [OF race_end_facts(1)])



section \<open>Multi-value properties\<close>

lemma WithPrefix_view:
  assumes "wf_registry r"
  shows "(\<exists>v \<in> set (WithPrefix r p). var_Name v = n \<and> var_Value v = x) \<longleftrightarrow>
    HasPrefix n p \<and> (\<exists>t. value_view (map_of (reg_vars r)) n = Some (x, t))"
proof -
  have mem: "v \<in> set (WithPrefix r p) \<longleftrightarrow> map_of (reg_vars r) (var_Name v) = Some v \<and>
      HasPrefix (var_Name v) p \<and> \<not> IsZero (var_Timestamp v)" for v
    unfolding WithPrefix_spec [OF assms, THEN conjunct2] mem_Collect_eq ..
  show ?thesis
  proof (cases "map_of (reg_vars r) n")
    case None
    then have "\<not> (\<exists>v \<in> set (WithPrefix r p). var_Name v = n)" using mem by force
    then show ?thesis using None by (auto simp: value_view_def)
  next
    case (Some w)
    have w: "var_Name w = n" using wf_vars_of_wf [OF assms] Some by (simp add: wf_vars_def)
    have one: "v \<in> set (WithPrefix r p) \<and> var_Name v = n \<longleftrightarrow>
        v = w \<and> HasPrefix n p \<and> \<not> IsZero (var_Timestamp w)" for v
      unfolding mem using Some w by (metis option.inject)
    have "(\<exists>v \<in> set (WithPrefix r p). var_Name v = n \<and> var_Value v = x) \<longleftrightarrow>
        HasPrefix n p \<and> \<not> IsZero (var_Timestamp w) \<and> var_Value w = x"
      unfolding Bex_def conj_assoc [symmetric] one by blast
    moreover have "(\<exists>t. value_view (map_of (reg_vars r)) n = Some (x, t)) \<longleftrightarrow>
        \<not> IsZero (var_Timestamp w) \<and> var_Value w = x"
      using Some by (simp add: value_view_def)
    ultimately show ?thesis by blast
  qed
qed

lemma WithPrefix_distinct: "wf_registry r \<Longrightarrow> distinct (map var_Name (WithPrefix r p))"
  using WithPrefix_spec [of r p] by (auto simp: strict_sorted_iff sorted_wrt_map [symmetric])

lemma set_value_view:
  assumes "wf_registry r" and "\<not> IsZero t"
  shows "value_view (map_of (reg_vars (SetValue now r n x t c))) n = Some (x, t)"
  using assms by (simp add: SetValue_board value_view_def board_var_def)

lemma propertyPacket_stored:
  assumes wf: "wf_registry r" and view: "value_view (map_of (reg_vars r)) name = Some (x, t)"
    and cut: "Cut name CHR '':'' = (prop, attr, True)"
  shows "map sv_Name (propertyPacket r name x) = map var_Name (WithPrefix r (prop @ '':''))"
    and "map sv_Value (propertyPacket r name x) = map var_Value (WithPrefix r (prop @ '':''))"
proof -
  have name: "name = prop @ '':'' @ attr" using Cut_found [OF cut] by simp
  have pre: "HasPrefix name (prop @ '':'')" by (auto simp: HasPrefix_iff name)
  let ?sib = "WithPrefix r (prop @ '':'')"
  have ne: "?sib \<noteq> []" using WithPrefix_view [OF wf, of "prop @ '':''" name x] view pre by auto
  have "var_Value v = x" if "v \<in> set ?sib" "var_Name v = name" for v
    using WithPrefix_view [OF wf, of "prop @ '':''" name "var_Value v"] that view by auto
  then have "map (\<lambda>v. if var_Name v = name then x else var_Value v) ?sib = map var_Value ?sib"
    by (intro map_cong) auto
  then show "map sv_Name (propertyPacket r name x) = map var_Name ?sib"
    "map sv_Value (propertyPacket r name x) = map var_Value ?sib"
    using ne by (simp_all add: propertyPacket_def cut Let_def comp_def)
qed

text \<open>
  Remark. A multi-value property is published whole: right after the value \<open>x\<close> was stored for the
  attribute \<open>name\<close> of a property, the packet holds every attribute of that property that has a
  value on the board and nothing else, each once and with its current value, the new one included.
\<close>

theorem propertyPacket_complete:
  assumes wf: "wf_registry r" and t: "\<not> IsZero t" and cut: "Cut name CHR '':'' = (prop, attr, True)"
  shows "let r' = SetValue now r name x t c; pk = propertyPacket r' name x
    in distinct (map sv_Name pk) \<and> (name, x) \<in> set (map (\<lambda>v. (sv_Name v, sv_Value v)) pk) \<and>
       (\<forall>n y. (n, y) \<in> set (map (\<lambda>v. (sv_Name v, sv_Value v)) pk) \<longleftrightarrow>
          HasPrefix n (prop @ '':'') \<and> (\<exists>u. value_view (map_of (reg_vars r')) n = Some (y, u)))"
proof -
  define r' where "r' = SetValue now r name x t c"
  define pk where "pk = propertyPacket r' name x"
  have wf': "wf_registry r'" unfolding r'_def by (rule wf_SetValue [OF wf])
  have view: "value_view (map_of (reg_vars r')) name = Some (x, t)"
    unfolding r'_def by (rule set_value_view [OF wf t])
  note maps = propertyPacket_stored [OF wf' view cut, folded pk_def]
  have pairs: "map (\<lambda>v. (sv_Name v, sv_Value v)) pk =
      map (\<lambda>v. (var_Name v, var_Value v)) (WithPrefix r' (prop @ '':''))"
    using maps by (simp add: zip_map_fst_snd_pairs)
  have all: "(n, y) \<in> set (map (\<lambda>v. (sv_Name v, sv_Value v)) pk) \<longleftrightarrow>
      HasPrefix n (prop @ '':'') \<and> (\<exists>u. value_view (map_of (reg_vars r')) n = Some (y, u))" for n y
    unfolding pairs using WithPrefix_view [OF wf', of "prop @ '':''" n y] by auto
  have "HasPrefix name (prop @ '':'')" using Cut_found [OF cut] by (auto simp: HasPrefix_iff)
  then have "(name, x) \<in> set (map (\<lambda>v. (sv_Name v, sv_Value v)) pk)" using all view by blast
  moreover have "distinct (map sv_Name pk)" using maps(1) WithPrefix_distinct [OF wf'] by simp
  ultimately show ?thesis
    using all by (simp only: Let_def r'_def [symmetric] pk_def [symmetric]) blast
qed

theorem propertyPacket_complete_witness:
  "(''l:hue'', AInt 7) \<in> set (map (\<lambda>v. (sv_Name v, sv_Value v))
     (propertyPacket (SetValue 5 NewRegistry ''l:hue'' (AInt 7) 5 []) ''l:hue'' (AInt 7)))"
proof -
  have "\<not> IsZero 5" "Cut ''l:hue'' CHR '':'' = (''l'', ''hue'', True)" by simp_all
  from propertyPacket_complete [OF wf_NewRegistry this, of 5 "AInt 7" "[]"] show ?thesis
    unfolding Let_def by (elim conjE)
qed

text \<open>The attributes of one property, or the one variable of a plain name.\<close>

definition same_property :: "string \<Rightarrow> string \<Rightarrow> bool" where
  "same_property name n \<longleftrightarrow>
     (case Cut name CHR '':'' of (prop, _, isAttribute) \<Rightarrow>
        if isAttribute then HasPrefix n (prop @ '':'') else n = name)"

lemma packet_exact:
  assumes "wf_registry r" and "\<not> IsZero t"
  shows "distinct (map sv_Name (propertyPacket (SetValue now r name x t c) name x))"
    and "(name, x) \<in> set (map (\<lambda>v. (sv_Name v, sv_Value v)) (propertyPacket (SetValue now r name x t c) name x))"
    and "(n, y) \<in> set (map (\<lambda>v. (sv_Name v, sv_Value v)) (propertyPacket (SetValue now r name x t c) name x)) \<longleftrightarrow>
       same_property name n \<and> (\<exists>u. value_view (map_of (reg_vars (SetValue now r name x t c))) n = Some (y, u))"
proof -
  let ?r = "SetValue now r name x t c"
  obtain pre attr b where cut: "Cut name CHR '':'' = (pre, attr, b)" by (metis prod.exhaust)
  have "distinct (map sv_Name (propertyPacket ?r name x)) \<and>
    (name, x) \<in> set (map (\<lambda>v. (sv_Name v, sv_Value v)) (propertyPacket ?r name x)) \<and>
    ((n, y) \<in> set (map (\<lambda>v. (sv_Name v, sv_Value v)) (propertyPacket ?r name x)) \<longleftrightarrow>
       same_property name n \<and> (\<exists>u. value_view (map_of (reg_vars ?r)) n = Some (y, u)))"
  proof (cases b)
    case True
    then have attribute: "Cut name CHR '':'' = (pre, attr, True)" using cut by simp
    show ?thesis
      using propertyPacket_complete [OF assms attribute, of now x c]
      unfolding same_property_def attribute Let_def prod.case if_True by blast
  next
    case False
    have "value_view (map_of (reg_vars ?r)) name = Some (x, t)" by (rule set_value_view [OF assms])
    then show ?thesis using False by (auto simp: propertyPacket_def same_property_def cut Let_def)
  qed
  then show "distinct (map sv_Name (propertyPacket ?r name x))"
    "(name, x) \<in> set (map (\<lambda>v. (sv_Name v, sv_Value v)) (propertyPacket ?r name x))"
    "(n, y) \<in> set (map (\<lambda>v. (sv_Name v, sv_Value v)) (propertyPacket ?r name x)) \<longleftrightarrow>
       same_property name n \<and> (\<exists>u. value_view (map_of (reg_vars ?r)) n = Some (y, u))"
    by blast+
qed

text \<open>
  Remark. One value of an unsupported type disables a property: \<open>SetValue\<close> stores whatever JSON value
  was put, and if an attribute holds a null, an array or an object, publishing any other attribute
  of the property fails and nothing is sent to the cloud.
\<close>

theorem unsupported_sibling_blocks_property:
  assumes wf: "wf_registry r" and t: "\<not> IsZero t" and cut: "Cut name CHR '':'' = (prop, attr, True)"
    and sib: "HasPrefix s (prop @ '':'')" "s \<noteq> name" "value_view (map_of (reg_vars r)) s = Some (bad, u)"
    and bad: "\<not> supported bad"
    and snap: "ds_State snap = StateRun" "ds_Cloud snap = Some cl" "snap_ThingID cl \<noteq> []"
  shows "\<exists>e. publish_request marshal snap (SetValue now r name x t c) name x = Inl (EncodeVariable name e)"
proof -
  define r' where "r' = SetValue now r name x t c"
  have wf': "wf_registry r'" unfolding r'_def by (rule wf_SetValue [OF wf])
  have view: "value_view (map_of (reg_vars r')) name = Some (x, t)"
    unfolding r'_def by (rule set_value_view [OF wf t])
  have "value_view (map_of (reg_vars r')) s = Some (bad, u)"
    using sib(2,3) by (simp add: r'_def SetValue_board [OF wf] value_view_def)
  then have "bad \<in> set (map var_Value (WithPrefix r' (prop @ '':'')))"
    using WithPrefix_view [OF wf', of "prop @ '':''" s bad] sib(1) by auto
  then have "bad \<in> set (map sv_Value (propertyPacket r' name x))"
    using propertyPacket_stored(2) [OF wf' view cut] by simp
  then obtain e where "Encode marshal (propertyPacket r' name x) = Inl e"
    using Encode_unsupported [of _ "propertyPacket r' name x" marshal] bad by auto
  then show ?thesis using snap by (simp add: publish_request_def r'_def)
qed

theorem unsupported_sibling_blocks_property_witness:
  "\<exists>e. publish_request no_cbor steady_snap
     (SetValue 5 (SetValue 5 NewRegistry ''l:hue'' ANil 5 []) ''l:swi'' (ABool True) 5 []) ''l:swi'' (ABool True) =
     Inl (EncodeVariable ''l:swi'' e)"
  by (rule unsupported_sibling_blocks_property
        [of "SetValue 5 NewRegistry ''l:hue'' ANil 5 []" 5 "''l:swi''" "''l''" "''swi''" "''l:hue''" ANil 5
           steady_snap "\<lparr>snap_State = StateSteady, snap_ThingID = ''t''\<rparr>"])
     (simp_all add: wf_SetValue steady_snap_def set_value_view)

end
