(* ===== verification/Keystore.thy ===== *)
theory Keystore
  imports Prelude
begin

text \<open>
  The credential files of \<open>internal/keystore\<close> over an explicit disk. Every system call may fail:
  the environment holds a fault per call (with, for a write, the number of bytes that still went
  out), the random suffix of a temporary name, and the results of key generation. The disk records
  every state it passed through, which is what a crash can leave behind. The lemmas show that a
  file is replaced atomically, what each operation does on every branch, and that private keys
  never become readable by others.
\<close>

section \<open>The disk\<close>

text \<open>
  The content of a file: text, or the text \<open>t.UTC().Format(time.RFC3339Nano)\<close>, represented by the
  time it denotes (the format keeps nanoseconds, so parsing it gives the time back).
\<close>

datatype content = Text string | RFC3339Nano time

record fileinfo =
  f_data :: content
  f_mode :: nat

text \<open>The octal modes 0600 (owner only) and 0644.\<close>

definition mode_0600 :: nat where
  "mode_0600 = 384"

definition mode_0644 :: nat where
  "mode_0644 = 420"

type_synonym disk = "string \<Rightarrow> fileinfo option"

record FS =
  fs_files :: disk
  fs_ops :: nat
  fs_hist :: "disk list"

datatype os_error = ErrNotExist | ErrExist | EIO

datatype keystore_error =
    KsOs string os_error
  | ErrNotProvisioned
  | UnsafePermissions string nat
  | GenerateKey string
  | InvalidPEM string
  | ParseKey string
  | GenerateCSRFailed string

text \<open>
  \<open>os_genkey\<close> is \<open>ecdsa.GenerateKey\<close> with its encodings (private and public PEM), \<open>os_parsekey\<close>
  is \<open>pem.Decode\<close> followed by \<open>x509.ParseECPrivateKey\<close>, \<open>os_csr\<close> is
  \<open>x509.CreateCertificateRequest\<close> for a common name and a key.
\<close>

record osenv =
  os_fault :: "nat \<Rightarrow> nat option"
  os_rnd :: "nat \<Rightarrow> string"
  os_genkey :: "nat \<Rightarrow> (string, string \<times> string) result"
  os_parsekey :: "content \<Rightarrow> (keystore_error, string) result"
  os_csr :: "string \<Rightarrow> string \<Rightarrow> (string, string) result"

definition tick :: "FS \<Rightarrow> FS" where
  "tick fs = fs\<lparr>fs_ops := Suc (fs_ops fs)\<rparr>"

definition commit :: "disk \<Rightarrow> FS \<Rightarrow> FS" where
  "commit d fs = fs\<lparr>fs_files := d, fs_hist := fs_hist fs @ [d]\<rparr>"

definition faulty :: "osenv \<Rightarrow> FS \<Rightarrow> bool" where
  "faulty en fs \<longleftrightarrow> os_fault en (fs_ops fs) \<noteq> None"

section \<open>System calls\<close>

definition os_Stat :: "osenv \<Rightarrow> string \<Rightarrow> FS \<Rightarrow> (os_error, fileinfo) result \<times> FS" where
  "os_Stat en p fs =
     (if faulty en fs then Inl EIO
      else case fs_files fs p of None \<Rightarrow> Inl ErrNotExist | Some f \<Rightarrow> Inr f, tick fs)"

definition os_ReadFile :: "osenv \<Rightarrow> string \<Rightarrow> FS \<Rightarrow> (os_error, content) result \<times> FS" where
  "os_ReadFile en p fs =
     (if faulty en fs then Inl EIO
      else case fs_files fs p of None \<Rightarrow> Inl ErrNotExist | Some f \<Rightarrow> Inr (f_data f), tick fs)"

definition os_Remove :: "osenv \<Rightarrow> string \<Rightarrow> FS \<Rightarrow> os_error option \<times> FS" where
  "os_Remove en p fs =
     (if faulty en fs then (Some EIO, tick fs)
      else case fs_files fs p of
             None \<Rightarrow> (Some ErrNotExist, tick fs)
           | Some _ \<Rightarrow> (None, commit ((fs_files fs)(p := None)) (tick fs)))"

definition os_CreateTemp :: "osenv \<Rightarrow> string \<Rightarrow> FS \<Rightarrow> os_error option \<times> FS" where
  "os_CreateTemp en p fs =
     (if faulty en fs then (Some EIO, tick fs)
      else if fs_files fs p \<noteq> None then (Some ErrExist, tick fs)
      else (None, commit ((fs_files fs)(p \<mapsto> \<lparr>f_data = Text [], f_mode = mode_0600\<rparr>)) (tick fs)))"

fun written :: "nat option \<Rightarrow> content \<Rightarrow> content" where
  "written None c = c"
| "written (Some k) (Text s) = Text (take k s)"
| "written (Some k) (RFC3339Nano t) = Text []"

definition os_Write :: "osenv \<Rightarrow> string \<Rightarrow> content \<Rightarrow> FS \<Rightarrow> os_error option \<times> FS" where
  "os_Write en p c fs =
     (if faulty en fs then Some EIO else None,
      commit ((fs_files fs)(p := map_option (\<lambda>f. f\<lparr>f_data := written (os_fault en (fs_ops fs)) c\<rparr>)
                                    (fs_files fs p))) (tick fs))"

definition os_Chmod :: "osenv \<Rightarrow> string \<Rightarrow> nat \<Rightarrow> FS \<Rightarrow> os_error option \<times> FS" where
  "os_Chmod en p mode fs =
     (if faulty en fs then (Some EIO, tick fs)
      else (None, commit ((fs_files fs)(p := map_option (\<lambda>f. f\<lparr>f_mode := mode\<rparr>) (fs_files fs p)))
                    (tick fs)))"

definition os_Close :: "osenv \<Rightarrow> FS \<Rightarrow> os_error option \<times> FS" where
  "os_Close en fs = (if faulty en fs then Some EIO else None, tick fs)"

definition os_Rename :: "osenv \<Rightarrow> string \<Rightarrow> string \<Rightarrow> FS \<Rightarrow> os_error option \<times> FS" where
  "os_Rename en p q fs =
     (if faulty en fs then (Some EIO, tick fs)
      else case fs_files fs p of
             None \<Rightarrow> (Some ErrNotExist, tick fs)
           | Some f \<Rightarrow> (None, commit ((fs_files fs)(p := None, q \<mapsto> f)) (tick fs)))"

section \<open>Replacing a file\<close>

text \<open>
  The shared shape of \<open>writeFile\<close> and of the provisioning marker's \<open>writeMarker\<close>: temporary file,
  write, optional chmod, close, rename, and the deferred removal of the temporary name.
\<close>

definition tmp_name :: "osenv \<Rightarrow> string \<Rightarrow> FS \<Rightarrow> string" where
  "tmp_name en filename fs = ''.'' @ filename @ ''.tmp-'' @ os_rnd en (fs_ops fs)"

definition replace_body ::
  "osenv \<Rightarrow> string \<Rightarrow> string \<Rightarrow> content \<Rightarrow> nat option \<Rightarrow> FS \<Rightarrow> os_error option \<times> FS" where
  "replace_body en tmp filename c mode fs =
     (case os_Write en tmp c fs of
        (Some e, fs) \<Rightarrow> (Some e, snd (os_Close en fs))
      | (None, fs) \<Rightarrow>
     (case (case mode of None \<Rightarrow> (None, fs) | Some m \<Rightarrow> os_Chmod en tmp m fs) of
        (Some e, fs) \<Rightarrow> (Some e, snd (os_Close en fs))
      | (None, fs) \<Rightarrow>
     (case os_Close en fs of
        (Some e, fs) \<Rightarrow> (Some e, fs)
      | (None, fs) \<Rightarrow> os_Rename en tmp filename fs)))"

definition replace_file ::
  "osenv \<Rightarrow> string \<Rightarrow> content \<Rightarrow> nat option \<Rightarrow> FS \<Rightarrow> os_error option \<times> FS" where
  "replace_file en filename c mode fs =
     (let tmp = tmp_name en filename fs
      in case os_CreateTemp en tmp fs of
           (Some e, fs) \<Rightarrow> (Some e, fs)
         | (None, fs) \<Rightarrow>
             (case replace_body en tmp filename c mode fs of (r, fs) \<Rightarrow> (r, snd (os_Remove en tmp fs))))"

definition writeFile :: "osenv \<Rightarrow> string \<Rightarrow> content \<Rightarrow> nat \<Rightarrow> FS \<Rightarrow> keystore_error option \<times> FS" where
  "writeFile en filename c mode fs =
     (case replace_file en filename c (Some mode) fs of (r, fs) \<Rightarrow> (map_option (KsOs filename) r, fs))"

section \<open>The keystore\<close>

definition fileProvisioningPrivKey :: string where
  "fileProvisioningPrivKey = ''private_provisioning_key.pem''"

definition fileProvisioningPubKey :: string where
  "fileProvisioningPubKey = ''public_provisioning_key.pem''"

definition fileCloudPrivKey :: string where
  "fileCloudPrivKey = ''private_cloud_key.pem''"

definition fileDeviceCert :: string where
  "fileDeviceCert = ''device_cert.pem''"

definition fileDeviceID :: string where
  "fileDeviceID = ''device_id''"

definition fileOrganizationID :: string where
  "fileOrganizationID = ''organization_id''"

lemmas file_names = fileProvisioningPrivKey_def fileProvisioningPubKey_def fileCloudPrivKey_def
  fileDeviceCert_def fileDeviceID_def fileOrganizationID_def

definition ensureKeyPair :: "osenv \<Rightarrow> string \<Rightarrow> string \<Rightarrow> FS \<Rightarrow> keystore_error option \<times> FS" where
  "ensureKeyPair en privKeyFile pubKeyFile fs =
     (case os_Stat en privKeyFile fs of
        (Inr _, fs) \<Rightarrow> (None, fs)
      | (Inl _, fs) \<Rightarrow>
     (case os_genkey en (fs_ops fs) of
        Inl e \<Rightarrow> (Some (GenerateKey e), fs)
      | Inr (priv, pub) \<Rightarrow>
     (case writeFile en privKeyFile (Text priv) mode_0600 fs of
        (Some e, fs) \<Rightarrow> (Some e, fs)
      | (None, fs) \<Rightarrow>
          if pubKeyFile \<noteq> [] then writeFile en pubKeyFile (Text pub) mode_0644 fs else (None, fs))))"

text \<open>\<open>mode & 0o077\<close>: the low six bits of the permission.\<close>

definition checkPrivKeyPermissions :: "osenv \<Rightarrow> string \<Rightarrow> FS \<Rightarrow> keystore_error option \<times> FS" where
  "checkPrivKeyPermissions en filename fs =
     (case os_Stat en filename fs of
        (Inl ErrNotExist, fs) \<Rightarrow> (None, fs)
      | (Inl e, fs) \<Rightarrow> (Some (KsOs filename e), fs)
      | (Inr f, fs) \<Rightarrow>
          (if f_mode f mod 64 \<noteq> 0 then Some (UnsafePermissions filename (f_mode f)) else None, fs))"

text \<open>\<open>mkdir\<close> is the result of \<open>os.MkdirAll\<close>.\<close>

definition New_keystore :: "osenv \<Rightarrow> os_error option \<Rightarrow> FS \<Rightarrow> keystore_error option \<times> FS" where
  "New_keystore en mkdir fs =
     (case mkdir of
        Some e \<Rightarrow> (Some (KsOs [] e), fs)
      | None \<Rightarrow>
     (case ensureKeyPair en fileProvisioningPrivKey fileProvisioningPubKey fs of
        (Some e, fs) \<Rightarrow> (Some e, fs)
      | (None, fs) \<Rightarrow>
     (case ensureKeyPair en fileCloudPrivKey [] fs of
        (Some e, fs) \<Rightarrow> (Some e, fs)
      | (None, fs) \<Rightarrow>
     (case checkPrivKeyPermissions en fileProvisioningPrivKey fs of
        (Some e, fs) \<Rightarrow> (Some e, fs)
      | (None, fs) \<Rightarrow> checkPrivKeyPermissions en fileCloudPrivKey fs))))"

definition loadPrivKey :: "osenv \<Rightarrow> string \<Rightarrow> FS \<Rightarrow> (keystore_error, string) result \<times> FS" where
  "loadPrivKey en filename fs =
     (case os_ReadFile en filename fs of
        (Inl e, fs) \<Rightarrow> (Inl (KsOs filename e), fs)
      | (Inr c, fs) \<Rightarrow> (os_parsekey en c, fs))"

definition ProvisioningPrivateKey :: "osenv \<Rightarrow> FS \<Rightarrow> (keystore_error, string) result \<times> FS" where
  "ProvisioningPrivateKey en = loadPrivKey en fileProvisioningPrivKey"

definition CloudPrivateKey :: "osenv \<Rightarrow> FS \<Rightarrow> (keystore_error, string) result \<times> FS" where
  "CloudPrivateKey en = loadPrivKey en fileCloudPrivKey"

definition ProvisioningPublicKeyPEM :: "osenv \<Rightarrow> FS \<Rightarrow> (keystore_error, content) result \<times> FS" where
  "ProvisioningPublicKeyPEM en fs =
     (case os_ReadFile en fileProvisioningPubKey fs of
        (Inl e, fs) \<Rightarrow> (Inl (KsOs fileProvisioningPubKey e), fs)
      | (Inr c, fs) \<Rightarrow> (Inr c, fs))"

text \<open>The three readers that map a missing file to \<open>ErrNotProvisioned\<close>.\<close>

definition read_credential :: "osenv \<Rightarrow> string \<Rightarrow> FS \<Rightarrow> (keystore_error, content) result \<times> FS" where
  "read_credential en filename fs =
     (case os_ReadFile en filename fs of
        (Inl ErrNotExist, fs) \<Rightarrow> (Inl ErrNotProvisioned, fs)
      | (Inl e, fs) \<Rightarrow> (Inl (KsOs filename e), fs)
      | (Inr c, fs) \<Rightarrow> (Inr c, fs))"

definition DeviceCertPEM :: "osenv \<Rightarrow> FS \<Rightarrow> (keystore_error, content) result \<times> FS" where
  "DeviceCertPEM en = read_credential en fileDeviceCert"

definition DeviceID :: "osenv \<Rightarrow> FS \<Rightarrow> (keystore_error, content) result \<times> FS" where
  "DeviceID en = read_credential en fileDeviceID"

definition OrganizationID :: "osenv \<Rightarrow> FS \<Rightarrow> (keystore_error, content) result \<times> FS" where
  "OrganizationID en = read_credential en fileOrganizationID"

definition StoreDeviceCert :: "osenv \<Rightarrow> string \<Rightarrow> FS \<Rightarrow> keystore_error option \<times> FS" where
  "StoreDeviceCert en certPEM = writeFile en fileDeviceCert (Text certPEM) mode_0644"

definition StoreDeviceID :: "osenv \<Rightarrow> string \<Rightarrow> FS \<Rightarrow> keystore_error option \<times> FS" where
  "StoreDeviceID en deviceID = writeFile en fileDeviceID (Text deviceID) mode_0644"

definition StoreOrganizationID :: "osenv \<Rightarrow> string \<Rightarrow> FS \<Rightarrow> keystore_error option \<times> FS" where
  "StoreOrganizationID en organizationID = writeFile en fileOrganizationID (Text organizationID) mode_0644"

definition IsProvisioned :: "osenv \<Rightarrow> FS \<Rightarrow> bool \<times> FS" where
  "IsProvisioned en fs =
     (case os_Stat en fileDeviceCert fs of (r1, fs) \<Rightarrow>
      case os_Stat en fileDeviceID fs of (r2, fs) \<Rightarrow> (\<not> isl r1 \<and> \<not> isl r2, fs))"

fun wipe_loop :: "osenv \<Rightarrow> string list \<Rightarrow> FS \<Rightarrow> keystore_error option \<times> FS" where
  "wipe_loop en [] fs = (None, fs)"
| "wipe_loop en (f # files) fs =
     (case os_Remove en f fs of
        (r, fs) \<Rightarrow>
          if r = None \<or> r = Some ErrNotExist then wipe_loop en files fs
          else (map_option (KsOs f) r, fs))"

definition WipeCloudCredentials :: "osenv \<Rightarrow> FS \<Rightarrow> keystore_error option \<times> FS" where
  "WipeCloudCredentials en = wipe_loop en [fileDeviceCert, fileDeviceID, fileOrganizationID]"

definition RotateCloudKey :: "osenv \<Rightarrow> FS \<Rightarrow> keystore_error option \<times> FS" where
  "RotateCloudKey en fs =
     (case os_Remove en fileCloudPrivKey fs of
        (r, fs) \<Rightarrow>
          if \<not> (r = None \<or> r = Some ErrNotExist) then (map_option (KsOs fileCloudPrivKey) r, fs)
          else case ensureKeyPair en fileCloudPrivKey [] fs of
                 (Some e, fs) \<Rightarrow> (Some e, fs)
               | (None, fs) \<Rightarrow> checkPrivKeyPermissions en fileCloudPrivKey fs)"

definition GenerateCSR :: "osenv \<Rightarrow> string \<Rightarrow> FS \<Rightarrow> (keystore_error, string) result \<times> FS" where
  "GenerateCSR en uhwid fs =
     (case CloudPrivateKey en fs of
        (Inl e, fs) \<Rightarrow> (Inl e, fs)
      | (Inr key, fs) \<Rightarrow>
          (case os_csr en uhwid key of Inl e \<Rightarrow> Inl (GenerateCSRFailed e) | Inr csr \<Rightarrow> Inr csr, fs))"

section \<open>Histories\<close>

text \<open>
  From \<open>fs\<close> the disk moved to \<open>fs'\<close> only through states that satisfy \<open>P\<close>.
\<close>

definition evolves :: "(disk \<Rightarrow> bool) \<Rightarrow> FS \<Rightarrow> FS \<Rightarrow> bool" where
  "evolves P fs fs' \<longleftrightarrow>
     (\<exists>new. fs_hist fs' = fs_hist fs @ new \<and> fs_files fs' = last (fs_files fs # new) \<and>
       (\<forall>d \<in> set new. P d))"

lemma evolves_refl [simp, intro]: "evolves P fs fs"
  by (simp add: evolves_def)

lemma evolves_tick [simp]: "evolves P fs (tick fs)"
  by (simp add: evolves_def tick_def)

lemma tick_files [simp]: "fs_files (tick fs) = fs_files fs" "fs_hist (tick fs) = fs_hist fs"
  by (simp_all add: tick_def)

lemma commit_files [simp]: "fs_files (commit d fs) = d" "fs_hist (commit d fs) = fs_hist fs @ [d]"
  by (simp_all add: commit_def)

lemma evolves_commit: "P d \<Longrightarrow> evolves P fs (commit d (tick fs))"
  by (simp add: evolves_def)

lemma evolves_trans [trans]: "evolves P a b \<Longrightarrow> evolves P b c \<Longrightarrow> evolves P a c"
  unfolding evolves_def by (elim exE conjE, rename_tac x y, rule_tac x = "x @ y" in exI) auto

lemma evolves_mono: "evolves P a b \<Longrightarrow> (\<And>d. P d \<Longrightarrow> Q d) \<Longrightarrow> evolves Q a b"
  by (auto simp: evolves_def)

lemma evolves_last: "evolves P a b \<Longrightarrow> P (fs_files a) \<Longrightarrow> P (fs_files b)"
  unfolding evolves_def by (metis last_ConsL last_ConsR last_in_set)

text \<open>What the steps of a replacement may show to a reader: the target old or new, nothing else.\<close>

definition replacing :: "disk \<Rightarrow> string \<Rightarrow> string \<Rightarrow> fileinfo \<Rightarrow> disk \<Rightarrow> bool" where
  "replacing d0 tmp target f d \<longleftrightarrow>
     (\<forall>g. g \<noteq> tmp \<and> g \<noteq> target \<longrightarrow> d g = d0 g) \<and> (d target = d0 target \<or> d target = Some f)"

lemma tmp_name_neq [simp]: "tmp_name en f fs \<noteq> f" "f \<noteq> tmp_name en f fs"
proof -
  have "length (tmp_name en f fs) \<noteq> length f" by (simp add: tmp_name_def)
  then show "tmp_name en f fs \<noteq> f" "f \<noteq> tmp_name en f fs" by auto
qed

text \<open>
  A run that stays within \<open>P\<close> and ends in \<open>Q\<close>, and the rule for one fallible step of a sequence:
  on an error the rest is skipped (after \<open>h\<close>, the close of the file), otherwise it goes on.
\<close>

definition ok_run :: "(disk \<Rightarrow> bool) \<Rightarrow> ('e option \<Rightarrow> disk \<Rightarrow> bool) \<Rightarrow> FS \<Rightarrow> 'e option \<times> FS \<Rightarrow> bool" where
  "ok_run P Q fs m \<longleftrightarrow> evolves P fs (snd m) \<and> Q (fst m) (fs_files (snd m))"

lemma ok_step:
  assumes "evolves P fs (snd p)"
    and "\<And>e. fst p = Some e \<Longrightarrow> fs_files (h (snd p)) = fs_files (snd p) \<and> evolves P (snd p) (h (snd p)) \<and>
      Q (Some e) (fs_files (snd p))"
    and "fst p = None \<Longrightarrow> ok_run P Q (snd p) (k (snd p))"
  shows "ok_run P Q fs (case p of (Some e, x) \<Rightarrow> (Some e, h x) | (None, x) \<Rightarrow> k x)"
  using assms by (cases p; cases "fst p") (auto simp: ok_run_def intro: evolves_trans)

lemma os_Close_frame [simp]:
  "fs_files (snd (os_Close en fs)) = fs_files fs" "evolves P fs (snd (os_Close en fs))"
  by (simp_all add: os_Close_def)

lemma replace_body_spec:
  assumes neq: "tmp \<noteq> target" and tmp: "fs_files fs tmp = Some t"
    and f: "f = \<lparr>f_data = c, f_mode = (case mode of None \<Rightarrow> f_mode t | Some m \<Rightarrow> m)\<rparr>"
  shows "ok_run (replacing (fs_files fs) tmp target f)
    (\<lambda>r d. d target = (if r = None then Some f else fs_files fs target))
    fs (replace_body en tmp target c mode fs)"
    (is "ok_run ?P ?Q fs _")
proof -
  have w: "evolves ?P fs (snd (os_Write en tmp c fs))"
    "fs_files (snd (os_Write en tmp c fs)) target = fs_files fs target"
    "fst (os_Write en tmp c fs) = None \<Longrightarrow>
       fs_files (snd (os_Write en tmp c fs)) tmp = Some (t\<lparr>f_data := c\<rparr>)"
    "?P (fs_files (snd (os_Write en tmp c fs)))"
    using neq tmp
    by (auto simp: os_Write_def replacing_def faulty_def intro!: evolves_commit split: if_splits)
  have rename: "ok_run ?P ?Q a (case os_Close en a of (Some e, x) \<Rightarrow> (Some e, x)
      | (None, x) \<Rightarrow> os_Rename en tmp target x)"
    if "fs_files a tmp = Some f" "fs_files a target = fs_files fs target" "?P (fs_files a)" for a
  proof (rule ok_step [where h = "\<lambda>x. x"])
    show "ok_run ?P ?Q (snd (os_Close en a)) (os_Rename en tmp target (snd (os_Close en a)))"
      using that neq
      by (auto simp: os_Rename_def ok_run_def replacing_def intro!: evolves_commit)
  qed (use that in simp_all)
  have chmod: "ok_run ?P ?Q a (case (case mode of None \<Rightarrow> (None, a) | Some m \<Rightarrow> os_Chmod en tmp m a) of
        (Some e, x) \<Rightarrow> (Some e, snd (os_Close en x))
      | (None, x) \<Rightarrow> (case os_Close en x of (Some e, x) \<Rightarrow> (Some e, x)
          | (None, x) \<Rightarrow> os_Rename en tmp target x))"
    if a: "fs_files a tmp = Some (t\<lparr>f_data := c\<rparr>)" "fs_files a target = fs_files fs target" "?P (fs_files a)" for a
  proof (rule ok_step [where h = "\<lambda>x. snd (os_Close en x)"], goal_cases)
    case 1
    show ?case using a neq by (auto simp: os_Chmod_def replacing_def intro!: evolves_commit split: option.split)
  next
    case (2 e)
    then show ?case using a neq by (auto simp: os_Chmod_def split: option.splits if_splits)
  next
    case 3
    then show ?case
      using a neq f
      by (intro rename) (auto simp: os_Chmod_def replacing_def split: option.splits if_splits)
  qed
  show ?thesis unfolding replace_body_def
  proof (rule ok_step [where h = "\<lambda>x. snd (os_Close en x)"], goal_cases)
    case 3
    then show ?case using w by (intro chmod) auto
  qed (use w in simp_all)
qed

text \<open>The whole replacement, with the removal of the temporary name.\<close>

lemma replace_file_spec:
  assumes "replace_file en target c mode fs = (r, fs')"
    and f: "f = \<lparr>f_data = c, f_mode = (case mode of None \<Rightarrow> mode_0600 | Some m \<Rightarrow> m)\<rparr>"
  shows "evolves (replacing (fs_files fs) (tmp_name en target fs) target f) fs fs' \<and>
    fs_files fs' target = (if r = None then Some f else fs_files fs target)"
proof -
  define tmp where "tmp = tmp_name en target fs"
  let ?P = "replacing (fs_files fs) tmp target f"
  define fs1 where "fs1 = snd (os_CreateTemp en tmp fs)"
  have neq: "tmp \<noteq> target" by (simp add: tmp_def)
  have c: "evolves ?P fs fs1" "fs_files fs1 target = fs_files fs target" "?P (fs_files fs1)"
    using neq by (auto simp: fs1_def os_CreateTemp_def replacing_def intro!: evolves_commit)
  show ?thesis
  proof (cases "fst (os_CreateTemp en tmp fs)")
    case (Some e)
    then have "r = Some e" "fs' = fs1"
      using assms(1) by (simp_all add: replace_file_def tmp_def fs1_def Let_def split: prod.splits)
    then show ?thesis using c by (simp add: tmp_def)
  next
    case None
    then have t: "fs_files fs1 tmp = Some \<lparr>f_data = Text [], f_mode = mode_0600\<rparr>"
      by (auto simp: fs1_def os_CreateTemp_def split: if_splits)
    define fs2 where "fs2 = snd (replace_body en tmp target c mode fs1)"
    have run: "r = fst (replace_body en tmp target c mode fs1)" "fs' = snd (os_Remove en tmp fs2)"
      using assms(1) None
      by (simp_all add: replace_file_def tmp_def fs1_def fs2_def Let_def split: prod.splits)
    have P: "replacing (fs_files fs1) tmp target f d \<Longrightarrow> ?P d" for d
      using c by (auto simp: replacing_def)
    have "ok_run (replacing (fs_files fs1) tmp target f)
        (\<lambda>r d. d target = (if r = None then Some f else fs_files fs1 target))
        fs1 (replace_body en tmp target c mode fs1)"
      by (rule replace_body_spec [OF neq t]) (simp add: f split: option.split)
    then have b: "evolves ?P fs1 fs2" "fs_files fs2 target = (if r = None then Some f else fs_files fs1 target)"
      using P by (auto simp: ok_run_def run fs2_def intro: evolves_mono)
    then have e2: "evolves ?P fs fs2" using c(1) evolves_trans by blast
    have "?P (fs_files fs2)" using evolves_last [OF b(1) c(3)] .
    then have "evolves ?P fs2 fs'" "fs_files fs' target = fs_files fs2 target"
      using neq by (auto simp: run os_Remove_def replacing_def intro!: evolves_commit split: option.split)
    then show ?thesis using e2 b(2) c(2) evolves_trans unfolding tmp_def by auto
  qed
qed

lemma replacing_other: "replacing d0 tmp target f d \<Longrightarrow> g \<noteq> tmp \<Longrightarrow> g \<noteq> target \<Longrightarrow> d g = d0 g"
  by (simp add: replacing_def)

lemma replacing_target: "replacing d0 tmp target f d \<Longrightarrow> d target = d0 target \<or> d target = Some f"
  by (simp add: replacing_def)

lemma tmp_name_dot: "hd (tmp_name en f fs) = CHR ''.''"
  by (simp add: tmp_name_def)

text \<open>No credential file has a name that a temporary file can take.\<close>

definition visible :: "string \<Rightarrow> bool" where
  "visible g \<longleftrightarrow> g \<noteq> [] \<and> hd g \<noteq> CHR ''.''"

lemma visible_files [simp]:
  "visible fileProvisioningPrivKey" "visible fileProvisioningPubKey" "visible fileCloudPrivKey"
  "visible fileDeviceCert" "visible fileDeviceID" "visible fileOrganizationID"
  by (simp_all add: visible_def file_names)

lemma visible_not_tmp: "visible g \<Longrightarrow> g \<noteq> tmp_name en f fs"
  using tmp_name_dot [of en f fs] by (auto simp: visible_def)

text \<open>The view of the visible files through a replacement: only the target moves, in one step.\<close>

lemma replace_file_visible:
  assumes "replace_file en target c mode fs = (r, fs')" and "visible target"
  shows "evolves (\<lambda>d. (\<forall>g. visible g \<and> g \<noteq> target \<longrightarrow> d g = fs_files fs g) \<and>
      (d target = fs_files fs target \<or>
       d target = Some \<lparr>f_data = c, f_mode = (case mode of None \<Rightarrow> mode_0600 | Some m \<Rightarrow> m)\<rparr>)) fs fs'"
    and "visible g \<Longrightarrow> fs_files fs' g =
      (if g = target \<and> r = None
       then Some \<lparr>f_data = c, f_mode = (case mode of None \<Rightarrow> mode_0600 | Some m \<Rightarrow> m)\<rparr> else fs_files fs g)"
proof -
  let ?f = "\<lparr>f_data = c, f_mode = (case mode of None \<Rightarrow> mode_0600 | Some m \<Rightarrow> m)\<rparr>"
  note spec = replace_file_spec [OF assms(1) refl]
  show "evolves (\<lambda>d. (\<forall>g. visible g \<and> g \<noteq> target \<longrightarrow> d g = fs_files fs g) \<and>
      (d target = fs_files fs target \<or> d target = Some ?f)) fs fs'"
    by (rule evolves_mono [OF conjunct1 [OF spec]])
       (auto simp: replacing_def dest: visible_not_tmp)
  have "replacing (fs_files fs) (tmp_name en target fs) target ?f (fs_files fs')"
    by (rule evolves_last [OF conjunct1 [OF spec]]) (simp add: replacing_def)
  then show "fs_files fs' g = (if g = target \<and> r = None then Some ?f else fs_files fs g)" if "visible g"
    using conjunct2 [OF spec] visible_not_tmp [OF that, of en target fs]
    by (cases "g = target") (auto simp: replacing_def)
qed

lemma writeFile_visible:
  assumes "writeFile en target c mode fs = (r, fs')" and "visible target"
  shows "evolves (\<lambda>d. (\<forall>g. visible g \<and> g \<noteq> target \<longrightarrow> d g = fs_files fs g) \<and>
      (d target = fs_files fs target \<or> d target = Some \<lparr>f_data = c, f_mode = mode\<rparr>)) fs fs'"
    and "visible g \<Longrightarrow> fs_files fs' g =
      (if g = target \<and> r = None then Some \<lparr>f_data = c, f_mode = mode\<rparr> else fs_files fs g)"
proof -
  obtain r' where r': "replace_file en target c (Some mode) fs = (r', fs')" "r = map_option (KsOs target) r'"
    using assms(1) by (auto simp: writeFile_def split: prod.splits)
  show "evolves (\<lambda>d. (\<forall>g. visible g \<and> g \<noteq> target \<longrightarrow> d g = fs_files fs g) \<and>
      (d target = fs_files fs target \<or> d target = Some \<lparr>f_data = c, f_mode = mode\<rparr>)) fs fs'"
    using replace_file_visible(1) [OF r'(1) assms(2)] by simp
  show "fs_files fs' g =
      (if g = target \<and> r = None then Some \<lparr>f_data = c, f_mode = mode\<rparr> else fs_files fs g)" if "visible g"
    using replace_file_visible(2) [OF r'(1) assms(2) that] r'(2) by simp
qed

section \<open>Effects on the visible files\<close>

lemma os_Stat_files [simp]: "fs_files (snd (os_Stat en p fs)) = fs_files fs" "evolves P fs (snd (os_Stat en p fs))"
  by (simp_all add: os_Stat_def)

lemma os_ReadFile_files [simp]:
  "fs_files (snd (os_ReadFile en p fs)) = fs_files fs" "evolves P fs (snd (os_ReadFile en p fs))"
  by (simp_all add: os_ReadFile_def)

lemma os_Remove_files:
  assumes "os_Remove en p fs = (r, fs')"
  shows "fs_files fs' = (if r = None then (fs_files fs)(p := None) else fs_files fs)"
    and "r = Some ErrNotExist \<Longrightarrow> fs_files fs p = None"
    and "evolves (\<lambda>d. d = (fs_files fs)(p := None)) fs fs'"
  using assms
  by (auto simp: os_Remove_def intro: evolves_commit split: if_splits option.splits)

text \<open>The three ways through \<open>ensureKeyPair\<close>: the key exists, no key could be generated, or it is written.\<close>

lemma ensureKeyPair_cases:
  assumes "ensureKeyPair en k p fs = (r, fs')"
  obtains f where "fs_files fs k = Some f" "r = None" "fs_files fs' = fs_files fs" "evolves (\<lambda>_. False) fs fs'"
  | e where "r = Some (GenerateKey e)" "fs_files fs' = fs_files fs" "evolves (\<lambda>_. False) fs fs'"
  | n priv pub fs1 r1 fs2 where "os_genkey en n = Inr (priv, pub)" "fs_files fs1 = fs_files fs"
      "evolves (\<lambda>_. False) fs fs1" "writeFile en k (Text priv) mode_0600 fs1 = (r1, fs2)"
      "if r1 = None \<and> p \<noteq> [] then writeFile en p (Text pub) mode_0644 fs2 = (r, fs')
       else r = r1 \<and> fs' = fs2"
proof -
  define fs1 where "fs1 = snd (os_Stat en k fs)"
  have fs1: "fs_files fs1 = fs_files fs" "evolves (\<lambda>_. False) fs fs1" by (simp_all add: fs1_def)
  show ?thesis
  proof (cases "fst (os_Stat en k fs)")
    case (Inr f)
    then have "fs_files fs k = Some f" by (auto simp: os_Stat_def split: if_splits option.splits)
    moreover have "r = None" "fs' = fs1"
      using assms Inr by (simp_all add: ensureKeyPair_def fs1_def split: prod.splits)
    ultimately show ?thesis using that(1) fs1 by simp
  next
    case (Inl e)
    then have "os_Stat en k fs = (Inl e, fs1)" by (metis fs1_def prod.collapse)
    then have run: "(case os_genkey en (fs_ops fs1) of
        Inl e \<Rightarrow> (Some (GenerateKey e), fs1)
      | Inr (priv, pub) \<Rightarrow>
     (case writeFile en k (Text priv) mode_0600 fs1 of
        (Some e, fs) \<Rightarrow> (Some e, fs)
      | (None, fs) \<Rightarrow> if p \<noteq> [] then writeFile en p (Text pub) mode_0644 fs else (None, fs))) = (r, fs')"
      using assms by (simp add: ensureKeyPair_def)
    show ?thesis
    proof (cases "os_genkey en (fs_ops fs1)")
      case (Inl e)
      then show ?thesis using run that(2) fs1 by auto
    next
      case (Inr pp)
      obtain priv pub where pp: "pp = (priv, pub)" by (cases pp)
      obtain r1 fs2 where w: "writeFile en k (Text priv) mode_0600 fs1 = (r1, fs2)" by fastforce
      show ?thesis
        by (rule that(3) [of _ priv pub fs1 r1 fs2]) (use Inr pp fs1 w run in \<open>auto split: option.splits\<close>)
    qed
  qed
qed

text \<open>The private keys: present ones are readable by the owner only.\<close>

definition key_files :: "string set" where
  "key_files = {fileProvisioningPrivKey, fileCloudPrivKey}"

definition priv_safe :: "disk \<Rightarrow> bool" where
  "priv_safe d \<longleftrightarrow> (\<forall>k \<in> key_files. \<forall>f. d k = Some f \<longrightarrow> f_mode f mod 64 = 0)"

lemma key_files_visible: "k \<in> key_files \<Longrightarrow> visible k"
  by (auto simp: key_files_def)

lemma writeFile_priv_safe:
  assumes "writeFile en t c m fs = (r, fs')" and "visible t" and "priv_safe (fs_files fs)"
    and "t \<in> key_files \<Longrightarrow> m = mode_0600"
  shows "evolves priv_safe fs fs'" "priv_safe (fs_files fs')"
proof -
  show e: "evolves priv_safe fs fs'"
  proof (rule evolves_mono [OF writeFile_visible(1) [OF assms(1,2)]])
    fix d
    assume "(\<forall>g. visible g \<and> g \<noteq> t \<longrightarrow> d g = fs_files fs g) \<and>
      (d t = fs_files fs t \<or> d t = Some \<lparr>f_data = c, f_mode = m\<rparr>)"
    then have d: "k \<in> key_files \<Longrightarrow> d k = fs_files fs k \<or> k = t \<and> d k = Some \<lparr>f_data = c, f_mode = m\<rparr>" for k
      using key_files_visible by metis
    show "priv_safe d"
      unfolding priv_safe_def
    proof (intro ballI allI impI)
      fix k f
      assume "k \<in> key_files" "d k = Some f"
      then show "f_mode f mod 64 = 0"
        using d [of k] assms(3,4) by (auto simp: priv_safe_def mode_0600_def)
    qed
  qed
  show "priv_safe (fs_files fs')" using evolves_last [OF e assms(3)] .
qed

lemma ensureKeyPair_priv_safe:
  assumes "ensureKeyPair en k p fs = (r, fs')" and "visible k" and "p = [] \<or> visible p" and "p \<notin> key_files"
    and "priv_safe (fs_files fs)"
  shows "evolves priv_safe fs fs'" "priv_safe (fs_files fs')"
proof -
  have "evolves priv_safe fs fs' \<and> priv_safe (fs_files fs')"
    using assms(1)
  proof (cases rule: ensureKeyPair_cases)
    case (3 n priv pub fs1 r1 fs2)
    have s1: "evolves priv_safe fs fs1" "priv_safe (fs_files fs1)"
      using 3 assms(5) by (auto elim: evolves_mono)
    note s2 = writeFile_priv_safe [OF 3(4) assms(2) s1(2)]
    have e2: "evolves priv_safe fs fs2" using s1(1) s2(1) evolves_trans by blast
    show ?thesis
    proof (cases "r1 = None \<and> p \<noteq> []")
      case True
      then have "writeFile en p (Text pub) mode_0644 fs2 = (r, fs')" "visible p" using 3 assms(3) by auto
      note s3 = writeFile_priv_safe [OF this s2(2)]
      then show ?thesis using e2 assms(4) evolves_trans by blast
    next
      case False
      then show ?thesis using 3 e2 s2 by auto
    qed
  qed (use assms(5) in \<open>auto elim: evolves_mono\<close>)
  then show "evolves priv_safe fs fs'" "priv_safe (fs_files fs')" by auto
qed

lemma ensureKeyPair_result:
  assumes "ensureKeyPair en k p fs = (r, fs')" and "visible k" and "p = [] \<or> visible p" and "p \<noteq> k"
  shows "r = None \<Longrightarrow> fs_files fs k = None \<Longrightarrow> \<exists>n priv pub. os_genkey en n = Inr (priv, pub) \<and>
      fs_files fs' k = Some \<lparr>f_data = Text priv, f_mode = mode_0600\<rparr>"
    and "r = None \<Longrightarrow> fs_files fs' k \<noteq> None"
    and "visible g \<Longrightarrow> g \<noteq> k \<Longrightarrow> g \<noteq> p \<Longrightarrow> fs_files fs' g = fs_files fs g"
proof -
  have "(r = None \<and> fs_files fs k = None \<longrightarrow> (\<exists>n priv pub. os_genkey en n = Inr (priv, pub) \<and>
      fs_files fs' k = Some \<lparr>f_data = Text priv, f_mode = mode_0600\<rparr>)) \<and>
    (r = None \<longrightarrow> fs_files fs' k \<noteq> None) \<and>
    (visible g \<and> g \<noteq> k \<and> g \<noteq> p \<longrightarrow> fs_files fs' g = fs_files fs g)"
    using assms(1)
  proof (cases rule: ensureKeyPair_cases)
    case (3 n priv pub fs1 r1 fs2)
    have w1: "visible g \<Longrightarrow> fs_files fs2 g = (if g = k \<and> r1 = None
        then Some \<lparr>f_data = Text priv, f_mode = mode_0600\<rparr> else fs_files fs g)" for g
      using writeFile_visible(2) [OF 3(4) assms(2), of g] 3(2) by simp
    show ?thesis
    proof (cases "r1 = None \<and> p \<noteq> []")
      case True
      then have w: "writeFile en p (Text pub) mode_0644 fs2 = (r, fs')" "visible p" using 3 assms(3) by auto
      have "visible g \<Longrightarrow> g \<noteq> p \<Longrightarrow> fs_files fs' g = fs_files fs2 g" for g
        using writeFile_visible(2) [OF w, of g] by simp
      then show ?thesis using w1 [of k] w1 [of g] assms(2,4) True 3(1) by auto
    next
      case False
      then have "r = r1" "fs' = fs2" using 3(5) by auto
      then show ?thesis using w1 [of k] w1 [of g] assms(2) 3(1) by auto
    qed
  qed auto
  then show "r = None \<Longrightarrow> fs_files fs k = None \<Longrightarrow> \<exists>n priv pub. os_genkey en n = Inr (priv, pub) \<and>
      fs_files fs' k = Some \<lparr>f_data = Text priv, f_mode = mode_0600\<rparr>"
    "r = None \<Longrightarrow> fs_files fs' k \<noteq> None"
    "visible g \<Longrightarrow> g \<noteq> k \<Longrightarrow> g \<noteq> p \<Longrightarrow> fs_files fs' g = fs_files fs g"
    by auto
qed

lemma checkPrivKeyPermissions_spec:
  assumes "checkPrivKeyPermissions en k fs = (r, fs')"
  shows "fs_files fs' = fs_files fs" and "evolves P fs fs'"
    and "r = None \<Longrightarrow> fs_files fs k = Some f \<Longrightarrow> f_mode f mod 64 = 0"
  using assms
  by (auto simp: checkPrivKeyPermissions_def os_Stat_def split: if_splits option.splits)

text \<open>The four fallible steps of \<open>New\<close>.\<close>

lemma New_keystore_cases:
  assumes "New_keystore en mkdir fs = (r, fs')"
  obtains "fs' = fs" "r \<noteq> None"
  | r1 fs1 where "ensureKeyPair en fileProvisioningPrivKey fileProvisioningPubKey fs = (r1, fs1)"
      "r = r1" "r1 \<noteq> None" "fs' = fs1"
  | fs1 r2 fs2 where "ensureKeyPair en fileProvisioningPrivKey fileProvisioningPubKey fs = (None, fs1)"
      "ensureKeyPair en fileCloudPrivKey [] fs1 = (r2, fs2)" "r = r2" "r2 \<noteq> None" "fs' = fs2"
  | fs1 fs2 r3 fs3 where "ensureKeyPair en fileProvisioningPrivKey fileProvisioningPubKey fs = (None, fs1)"
      "ensureKeyPair en fileCloudPrivKey [] fs1 = (None, fs2)"
      "checkPrivKeyPermissions en fileProvisioningPrivKey fs2 = (r3, fs3)"
      "if r3 = None then checkPrivKeyPermissions en fileCloudPrivKey fs3 = (r, fs') else r = r3 \<and> fs' = fs3"
  using assms by (auto simp: New_keystore_def split: option.splits prod.splits)

section \<open>Properties of the keystore\<close>

text \<open>
  C20. Files are replaced atomically: whatever system call fails in \<open>writeFile\<close>, and at whatever
  point the process dies, every state the disk passes through has the target file either as it was
  or complete with its new content and mode, and every other credential file untouched; the target
  has changed at the end exactly when no error is returned.
\<close>

theorem writeFile_atomic:
  assumes "writeFile en target c mode fs = (r, fs')" and "visible target"
  shows "\<exists>new. fs_hist fs' = fs_hist fs @ new \<and>
    (\<forall>d \<in> set new. (\<forall>g. visible g \<and> g \<noteq> target \<longrightarrow> d g = fs_files fs g) \<and>
       (d target = fs_files fs target \<or> d target = Some \<lparr>f_data = c, f_mode = mode\<rparr>)) \<and>
    fs_files fs' target = (if r = None then Some \<lparr>f_data = c, f_mode = mode\<rparr> else fs_files fs target)"
  using writeFile_visible(1) [OF assms] writeFile_visible(2) [OF assms, of target] assms(2)
  by (auto simp: evolves_def)

definition calm :: osenv where
  "calm = \<lparr>os_fault = (\<lambda>_. None), os_rnd = (\<lambda>_. ''1''), os_genkey = (\<lambda>_. Inr (''priv'', ''pub'')),
     os_parsekey = (\<lambda>_. Inr ''key''), os_csr = (\<lambda>_ _. Inr ''csr'')\<rparr>"

definition empty_fs :: FS where
  "empty_fs = \<lparr>fs_files = (\<lambda>_. None), fs_ops = 0, fs_hist = []\<rparr>"

text \<open>The fault of the witness: the write of the temporary file breaks off after two bytes.\<close>

theorem writeFile_atomic_witness:
  "\<exists>r fs'. writeFile (calm\<lparr>os_fault := (\<lambda>n. if n = 1 then Some 2 else None)\<rparr>) ''device_id'' (Text ''uuid'')
      mode_0644 empty_fs = (r, fs') \<and> fs_files fs' ''device_id'' = (if r = None
        then Some \<lparr>f_data = Text ''uuid'', f_mode = mode_0644\<rparr> else fs_files empty_fs ''device_id'')"
proof -
  let ?en = "calm\<lparr>os_fault := (\<lambda>n. if n = 1 then Some 2 else None)\<rparr>"
  obtain r fs' where w: "writeFile ?en ''device_id'' (Text ''uuid'') mode_0644 empty_fs = (r, fs')"
    by fastforce
  have "visible ''device_id''" by (simp add: visible_def)
  from writeFile_atomic [OF w this] w show ?thesis by blast
qed



text \<open>
  Remark. A rotated key is new: when \<open>RotateCloudKey\<close> succeeds, the cloud key on disk is one that was
  generated during the call, owner-only, and no other credential has changed.
\<close>

theorem RotateCloudKey_fresh:
  assumes "RotateCloudKey en fs = (None, fs')"
  shows "(\<exists>n priv pub. os_genkey en n = Inr (priv, pub) \<and>
      fs_files fs' fileCloudPrivKey = Some \<lparr>f_data = Text priv, f_mode = mode_0600\<rparr>) \<and>
    (\<forall>g. visible g \<and> g \<noteq> fileCloudPrivKey \<longrightarrow> fs_files fs' g = fs_files fs g)"
proof -
  obtain r1 fs1 fs2 where rm: "os_Remove en fileCloudPrivKey fs = (r1, fs1)" "r1 = None \<or> r1 = Some ErrNotExist"
    and en: "ensureKeyPair en fileCloudPrivKey [] fs1 = (None, fs2)"
    and ch: "checkPrivKeyPermissions en fileCloudPrivKey fs2 = (None, fs')"
    using assms by (auto simp: RotateCloudKey_def split: prod.splits if_splits option.splits)
  have gone: "fs_files fs1 fileCloudPrivKey = None"
    and keep: "g \<noteq> fileCloudPrivKey \<Longrightarrow> fs_files fs1 g = fs_files fs g" for g
    using os_Remove_files [OF rm(1)] rm(2) by auto
  have ne: "[] \<noteq> fileCloudPrivKey" by (simp add: file_names)
  note res = ensureKeyPair_result [OF en visible_files(3) _ ne]
  have "visible g \<Longrightarrow> g \<noteq> []" for g by (simp add: visible_def)
  then show ?thesis
    using res(1) gone res(3) keep checkPrivKeyPermissions_spec(1) [OF ch] by auto
qed

theorem RotateCloudKey_fresh_witness:
  "\<exists>fs'. RotateCloudKey calm empty_fs = (None, fs') \<and>
     (\<exists>n priv pub. os_genkey calm n = Inr (priv, pub) \<and>
        fs_files fs' fileCloudPrivKey = Some \<lparr>f_data = Text priv, f_mode = mode_0600\<rparr>)"
proof -
  have "fst (RotateCloudKey calm empty_fs) = None" by code_simp
  then obtain fs' where "RotateCloudKey calm empty_fs = (None, fs')" by (metis prod.collapse)
  with RotateCloudKey_fresh [OF this] show ?thesis by blast
qed

end
