(* ===== verification/Provisioning.thy ===== *)
theory Provisioning
  imports Keystore
begin

text \<open>
  The provisioning service of \<open>internal/provisioning/provisioning.go\<close>: its state derived from the
  disk (and the remembered failure), the in-flight marker, the synchronous prelude, the attempt
  with its two retry loops, and the decision what an attempt leaves behind. The disk and its faults
  are those of \<open>Keystore\<close>; the Provisioning API, the clock and the context are the environment of
  the loops. The lemmas show that a crash at any point is recoverable, that a certificate which was
  never activated is not mistaken for a working one, and that the retry loops end.
\<close>

section \<open>State\<close>

datatype ProvState =
    ProvStateUnprovisioned | ProvStateProvisioning | ProvStateProvisioned | ProvStateError

datatype prov_error =
    ProvMarker os_error
  | ProvKeystore keystore_error
  | NoInflightMarker
  | CtxErr
  | RetryWindowExpired string
  | BoardTokenError string

text \<open>\<open>svc_submits\<close> and \<open>svc_completes\<close> count the calls to the Provisioning API.\<close>

record Service =
  svc_fs :: FS
  svc_completeFailed :: "prov_error option"
  svc_submits :: nat
  svc_completes :: nat

definition markerFile :: string where
  "markerFile = ''provisioning_inflight''"

definition provisioningWindow :: duration where
  "provisioningWindow = 600 * second"

definition retryInitialBackoff :: duration where
  "retryInitialBackoff = 2 * second"

definition retryMaxBackoff :: duration where
  "retryMaxBackoff = 30 * second"

definition setCompleteFailure :: "prov_error option \<Rightarrow> Service \<Rightarrow> Service" where
  "setCompleteFailure err s = s\<lparr>svc_completeFailed := err\<rparr>"

definition set_fs :: "Service \<Rightarrow> FS \<Rightarrow> Service" where
  "set_fs s fs = s\<lparr>svc_fs := fs\<rparr>"

section \<open>The marker\<close>

definition writeMarker :: "osenv \<Rightarrow> time \<Rightarrow> FS \<Rightarrow> os_error option \<times> FS" where
  "writeMarker en ts fs = replace_file en markerFile (RFC3339Nano ts) None fs"

definition clearMarker :: "osenv \<Rightarrow> FS \<Rightarrow> os_error option \<times> FS" where
  "clearMarker en fs =
     (case os_Remove en markerFile fs of
        (r, fs) \<Rightarrow> (if r = Some ErrNotExist then None else r, fs))"

text \<open>A marker that does not parse reads as the zero time: its window has expired.\<close>

definition markerTimestamp :: "osenv \<Rightarrow> FS \<Rightarrow> time option \<times> FS" where
  "markerTimestamp en fs =
     (case os_ReadFile en markerFile fs of
        (Inl _, fs) \<Rightarrow> (None, fs)
      | (Inr (RFC3339Nano t), fs) \<Rightarrow> (Some t, fs)
      | (Inr (Text _), fs) \<Rightarrow> (Some zero_time, fs))"

definition markerDeadline :: "osenv \<Rightarrow> FS \<Rightarrow> time option \<times> FS" where
  "markerDeadline en fs =
     (case markerTimestamp en fs of (ts, fs) \<Rightarrow> (map_option (\<lambda>t. t + provisioningWindow) ts, fs))"

definition ProvState_of :: "osenv \<Rightarrow> time \<Rightarrow> Service \<Rightarrow> ProvState \<times> Service" where
  "ProvState_of en now s =
     (if svc_completeFailed s \<noteq> None then (ProvStateError, s)
      else case markerTimestamp en (svc_fs s) of
             (Some ts, fs) \<Rightarrow>
               (if now < ts + provisioningWindow then ProvStateProvisioning else ProvStateError, set_fs s fs)
           | (None, fs) \<Rightarrow>
               (case IsProvisioned en fs of
                  (b, fs) \<Rightarrow> (if b then ProvStateProvisioned else ProvStateUnprovisioned, set_fs s fs)))"

definition InFlight :: "osenv \<Rightarrow> Service \<Rightarrow> bool" where
  "InFlight en s = (fst (markerTimestamp en (svc_fs s)) \<noteq> None)"

section \<open>The prelude\<close>

definition BeginProvisioning :: "osenv \<Rightarrow> time \<Rightarrow> string \<Rightarrow> Service \<Rightarrow> prov_error option \<times> Service" where
  "BeginProvisioning en now organizationID s =
     (let s = setCompleteFailure None s
      in case writeMarker en now (svc_fs s) of
           (Some e, fs) \<Rightarrow> (Some (ProvMarker e), set_fs s fs)
         | (None, fs) \<Rightarrow>
        (case WipeCloudCredentials en fs of
           (Some e, fs) \<Rightarrow> (Some (ProvKeystore e), set_fs s (snd (clearMarker en fs)))
         | (None, fs) \<Rightarrow>
             if organizationID \<noteq> [] then
               (case StoreOrganizationID en organizationID fs of
                  (Some e, fs) \<Rightarrow> (Some (ProvKeystore e), set_fs s (snd (clearMarker en fs)))
                | (None, fs) \<Rightarrow> (None, set_fs s fs))
             else (None, set_fs s fs)))"

section \<open>The retry loops\<close>

text \<open>
  What the k-th round of a loop sees: how long the call takes, whether the context is done after
  it, and what becomes of the wait: the context ends it (\<open>None\<close>), or it lasts the back-off and
  \<open>Some\<close> delay of the scheduler. \<open>le_start\<close> is the clock when the loop begins.
\<close>

record loopenv =
  le_start :: time
  le_call :: "nat \<Rightarrow> nat"
  le_cancelled :: "nat \<Rightarrow> bool"
  le_sleep :: "nat \<Rightarrow> nat option"

text \<open>The common shape of the two loops; the second component counts the calls made.\<close>

partial_function (option) retry_loop ::
  "(nat \<Rightarrow> (string, 'a) result) \<Rightarrow> loopenv \<Rightarrow> time \<Rightarrow> nat \<Rightarrow> time \<Rightarrow> duration \<Rightarrow>
     ((prov_error, 'a) result \<times> nat) option" where
  "retry_loop api le deadline k now backoff =
     (case api k of
        Inr r \<Rightarrow> Some (Inr r, Suc k)
      | Inl e \<Rightarrow>
          let now = now + int (le_call le k)
          in if le_cancelled le k then Some (Inl CtxErr, Suc k)
             else if \<not> now < deadline then Some (Inl (RetryWindowExpired e), Suc k)
             else (case le_sleep le k of
                     None \<Rightarrow> Some (Inl CtxErr, Suc k)
                   | Some delay \<Rightarrow>
                       retry_loop api le deadline (Suc k) (now + backoff + int delay)
                         (min (backoff * 2) retryMaxBackoff)))"

declare retry_loop.simps [code]

text \<open>
  The environment of an attempt: the answers of \<open>SubmitCSR\<close> (device id and certificate) to a token
  and a CSR and of \<open>Complete\<close> to a token, call by call, and the result of building the board token.
\<close>

record penv =
  pe_submit :: "string \<Rightarrow> string \<Rightarrow> nat \<Rightarrow> (string, string \<times> string) result"
  pe_submit_env :: loopenv
  pe_complete :: "string \<Rightarrow> nat \<Rightarrow> (string, unit) result"
  pe_complete_env :: loopenv
  pe_token :: "string \<Rightarrow> (string, string) result"
  pe_uhwid :: string

definition submitCSRWithRetry ::
  "penv \<Rightarrow> string \<Rightarrow> string \<Rightarrow> time \<Rightarrow> ((prov_error, string \<times> string) result \<times> nat) option" where
  "submitCSRWithRetry pe token csr deadline =
     retry_loop (pe_submit pe token csr) (pe_submit_env pe) deadline 0 (le_start (pe_submit_env pe))
       retryInitialBackoff"

definition completeWithRetry :: "penv \<Rightarrow> string \<Rightarrow> time \<Rightarrow> ((prov_error, unit) result \<times> nat) option" where
  "completeWithRetry pe token deadline =
     retry_loop (pe_complete pe token) (pe_complete_env pe) deadline 0 (le_start (pe_complete_env pe))
       retryInitialBackoff"

section \<open>The attempt\<close>

definition boardToken :: "osenv \<Rightarrow> penv \<Rightarrow> FS \<Rightarrow> (prov_error, string) result \<times> FS" where
  "boardToken en pe fs =
     (case ProvisioningPrivateKey en fs of
        (Inl e, fs) \<Rightarrow> (Inl (ProvKeystore e), fs)
      | (Inr key, fs) \<Rightarrow>
          (case pe_token pe key of Inl e \<Rightarrow> Inl (BoardTokenError e) | Inr t \<Rightarrow> Inr t, fs))"

definition completePhase :: "osenv \<Rightarrow> penv \<Rightarrow> string \<Rightarrow> time \<Rightarrow> Service \<Rightarrow> (prov_error option \<times> Service) option" where
  "completePhase en pe token deadline s =
     (case completeWithRetry pe token deadline of
        None \<Rightarrow> None
      | Some (r, n) \<Rightarrow>
          let s = s\<lparr>svc_completes := svc_completes s + n\<rparr>
          in Some (case r of
                     Inr _ \<Rightarrow> (None, set_fs s (snd (clearMarker en (svc_fs s))))
                   | Inl (RetryWindowExpired e) \<Rightarrow>
                       let fs = snd (WipeCloudCredentials en (svc_fs s));
                           fs = snd (clearMarker en fs)
                       in (Some (RetryWindowExpired e),
                           setCompleteFailure (Some (RetryWindowExpired e)) (set_fs s fs))
                   | Inl e \<Rightarrow> (Some e, s)))"

text \<open>The half of \<open>RunAttempt\<close> that obtains a certificate.\<close>

definition issuePhase :: "osenv \<Rightarrow> penv \<Rightarrow> time \<Rightarrow> Service \<Rightarrow> (prov_error option \<times> Service) option" where
  "issuePhase en pe deadline s =
     (case RotateCloudKey en (svc_fs s) of
        (Some e, fs) \<Rightarrow> Some (Some (ProvKeystore e), set_fs s fs)
      | (None, fs) \<Rightarrow>
     (case GenerateCSR en (pe_uhwid pe) fs of
        (Inl e, fs) \<Rightarrow> Some (Some (ProvKeystore e), set_fs s fs)
      | (Inr csr, fs) \<Rightarrow>
     (case boardToken en pe fs of
        (Inl e, fs) \<Rightarrow> Some (Some e, set_fs s fs)
      | (Inr token, fs) \<Rightarrow>
     (case submitCSRWithRetry pe token csr deadline of
        None \<Rightarrow> None
      | Some (r, n) \<Rightarrow>
          let s = s\<lparr>svc_submits := svc_submits s + n\<rparr>
          in (case r of
                Inl e \<Rightarrow> Some (Some e, set_fs s fs)
              | Inr (deviceID, certPEM) \<Rightarrow>
             (case StoreDeviceCert en certPEM fs of
                (Some e, fs) \<Rightarrow> Some (Some (ProvKeystore e), set_fs s fs)
              | (None, fs) \<Rightarrow>
             (case StoreDeviceID en deviceID fs of
                (Some e, fs) \<Rightarrow> Some (Some (ProvKeystore e), set_fs s fs)
              | (None, fs) \<Rightarrow> completePhase en pe token deadline (set_fs s fs))))))))"

definition resumePhase :: "osenv \<Rightarrow> penv \<Rightarrow> time \<Rightarrow> Service \<Rightarrow> (prov_error option \<times> Service) option" where
  "resumePhase en pe deadline s =
     (case DeviceID en (svc_fs s) of
        (Inl e, fs) \<Rightarrow> Some (Some (ProvKeystore e), set_fs s fs)
      | (Inr _, fs) \<Rightarrow>
     (case boardToken en pe fs of
        (Inl e, fs) \<Rightarrow> Some (Some e, set_fs s fs)
      | (Inr token, fs) \<Rightarrow> completePhase en pe token deadline (set_fs s fs)))"

definition RunAttempt :: "osenv \<Rightarrow> penv \<Rightarrow> Service \<Rightarrow> (prov_error option \<times> Service) option" where
  "RunAttempt en pe s =
     (case markerDeadline en (svc_fs s) of
        (None, fs) \<Rightarrow> Some (Some NoInflightMarker, set_fs s fs)
      | (Some deadline, fs) \<Rightarrow>
     (case IsProvisioned en fs of
        (b, fs) \<Rightarrow> if b then resumePhase en pe deadline (set_fs s fs)
                   else issuePhase en pe deadline (set_fs s fs)))"

definition Start :: "osenv \<Rightarrow> penv \<Rightarrow> time \<Rightarrow> string \<Rightarrow> Service \<Rightarrow> (prov_error option \<times> Service) option" where
  "Start en pe now organizationID s =
     (case BeginProvisioning en now organizationID s of
        (Some e, s) \<Rightarrow> Some (Some e, s)
      | (None, s) \<Rightarrow> RunAttempt en pe s)"

section \<open>The loops end\<close>

definition backoff_at :: "nat \<Rightarrow> duration" where
  "backoff_at k = min (retryInitialBackoff * 2 ^ k) retryMaxBackoff"

lemma backoff_at_Suc: "backoff_at (Suc k) = min (backoff_at k * 2) retryMaxBackoff"
  by (auto simp: backoff_at_def retryInitialBackoff_def retryMaxBackoff_def second_def min_def)

lemma backoff_at_bounds: "0 < backoff_at k" "backoff_at 0 = retryInitialBackoff"
  by (auto simp: backoff_at_def retryInitialBackoff_def retryMaxBackoff_def second_def min_def)

lemma backoff_sum: "(\<Sum>i<23. backoff_at i) = 600 * second"
  by (simp add: eval_nat_numeral backoff_at_def retryInitialBackoff_def retryMaxBackoff_def second_def)

lemma retry_loop_total: "\<exists>r n. retry_loop api le deadline k now (backoff_at k) = Some (r, n) \<and> k < n"
proof (induction "nat (deadline - now)" arbitrary: k now rule: less_induct)
  case less
  have IH: "\<exists>r n. retry_loop api le deadline (Suc k) (now + int (le_call le k) + backoff_at k + int d)
      (backoff_at (Suc k)) = Some (r, n) \<and> Suc k < n"
    if "now + int (le_call le k) < deadline" for d
    using that backoff_at_bounds(1) [of k] by (intro less) simp
  show ?case
    by (subst retry_loop.simps)
      (use IH in \<open>force simp: Let_def backoff_at_Suc [symmetric] split: sum.split option.split\<close>)
qed

lemma retry_loop_count:
  assumes "deadline \<le> start + provisioningWindow" and "k \<le> 23"
    and "start + (\<Sum>i<k. backoff_at i) \<le> now"
  shows "retry_loop api le deadline k now (backoff_at k) = Some (r, n) \<Longrightarrow> n \<le> 24"
  using assms(2,3)
proof (induction arbitrary: now rule: inc_induct)
  case base
  then have "deadline \<le> now" using assms(1) by (simp add: backoff_sum provisioningWindow_def)
  then show ?case using base(1)
    by (subst (asm) retry_loop.simps) (auto simp: Let_def split: sum.splits if_splits)
next
  case (step m)
  have "start + (\<Sum>i<Suc m. backoff_at i) \<le> now + int (le_call le m) + backoff_at m + int d" for d
    using step(5) by simp
  then have "retry_loop api le deadline (Suc m) (now + int (le_call le m) + backoff_at m + int d)
      (min (backoff_at m * 2) retryMaxBackoff) = Some (r, n) \<Longrightarrow> n \<le> 24" for d
    using step(3) by (simp add: backoff_at_Suc)
  moreover note step(2) and step(4) [unfolded retry_loop.simps [of _ _ _ m]]
  ultimately show ?case
    by (auto simp: Let_def split: sum.splits if_splits option.splits)
qed

text \<open>
  A loop whose calls last at most ten seconds, with prompt waits, makes at least 18 of them before
  a window of 600 seconds closes.
\<close>

lemma backoff_sum_le: "k \<le> 16 \<Longrightarrow> (\<Sum>i<k. backoff_at i) \<le> 390 * second"
proof -
  assume k: "k \<le> 16"
  have "(\<Sum>i<k. backoff_at i) \<le> (\<Sum>i<16. backoff_at i)"
    by (rule sum_mono2) (use k backoff_at_bounds(1) in \<open>auto intro: less_imp_le\<close>)
  also have "\<dots> = 390 * second"
    by (simp add: eval_nat_numeral backoff_at_def retryInitialBackoff_def retryMaxBackoff_def second_def)
  finally show ?thesis .
qed

lemma retry_loop_min:
  assumes "\<And>k. \<exists>e. api k = Inl e" and "\<And>k. \<not> le_cancelled le k" and "\<And>k. le_sleep le k = Some 0"
    and "\<And>k. int (le_call le k) \<le> 10 * second" and "start + provisioningWindow \<le> deadline" and "k \<le> 17"
    and "now \<le> start + int k * (10 * second) + (\<Sum>i<k. backoff_at i)"
  shows "retry_loop api le deadline k now (backoff_at k) = Some (r, n) \<Longrightarrow> 18 \<le> n"
  using assms(6,7)
proof (induction arbitrary: now rule: inc_induct)
  case base
  then show ?case using retry_loop_total [of api le deadline 17 now] by auto
next
  case (step m)
  obtain e where e: "api m = Inl e" using assms(1) by blast
  have "int m * (10 * second) \<le> 16 * (10 * second)" using step(2) by (simp add: second_def)
  then have "now + int (le_call le m) < deadline"
    using step(5) assms(4) [of m] assms(5) backoff_sum_le [of m] step(2)
    by (simp add: provisioningWindow_def second_def)
  then have "retry_loop api le deadline (Suc m) (now + int (le_call le m) + backoff_at m)
      (min (backoff_at m * 2) retryMaxBackoff) = Some (r, n)"
    using step(4) e assms(2,3) by (subst (asm) retry_loop.simps) (simp add: Let_def)
  moreover have "now + int (le_call le m) + backoff_at m \<le>
      start + int (Suc m) * (10 * second) + (\<Sum>i<Suc m. backoff_at i)"
    using step(5) assms(4) [of m] by (simp add: algebra_simps)
  ultimately show ?case using step(3) by (simp add: backoff_at_Suc)
qed

section \<open>Frames\<close>

text \<open>The visible files outside \<open>F\<close> keep their content through every state of the disk.\<close>

definition frame :: "string set \<Rightarrow> FS \<Rightarrow> FS \<Rightarrow> bool" where
  "frame F fs fs' \<longleftrightarrow> evolves (\<lambda>d. \<forall>g. visible g \<and> g \<notin> F \<longrightarrow> d g = fs_files fs g) fs fs'"

lemma frame_last: "frame F fs fs' \<Longrightarrow> visible g \<Longrightarrow> g \<notin> F \<Longrightarrow> fs_files fs' g = fs_files fs g"
  unfolding frame_def by (drule evolves_last) auto

lemma frame_refl [simp, intro]: "frame F fs fs"
  by (simp add: frame_def)

lemma frame_trans [trans]: "frame F a b \<Longrightarrow> frame G b c \<Longrightarrow> frame (F \<union> G) a c"
proof -
  assume ab: "frame F a b" and bc: "frame G b c"
  have "evolves (\<lambda>d. \<forall>g. visible g \<and> g \<notin> F \<union> G \<longrightarrow> d g = fs_files a g) a b"
    using ab unfolding frame_def by (rule evolves_mono) simp
  moreover have "evolves (\<lambda>d. \<forall>g. visible g \<and> g \<notin> F \<union> G \<longrightarrow> d g = fs_files a g) b c"
    using bc unfolding frame_def by (rule evolves_mono) (simp add: frame_last [OF ab])
  ultimately show ?thesis unfolding frame_def by (rule evolves_trans)
qed

lemma frame_mono: "frame F a b \<Longrightarrow> F \<subseteq> G \<Longrightarrow> frame G a b"
  by (auto simp: frame_def elim!: evolves_mono)

lemma frame_step: "frame F a b \<Longrightarrow> frame G b c \<Longrightarrow> G \<subseteq> F \<Longrightarrow> frame F a c"
  using frame_trans [of F a b G c] by (simp add: sup.absorb1)

lemma frame_evolves:
  "frame F a b \<Longrightarrow> (\<And>d. (\<And>g. visible g \<Longrightarrow> g \<notin> F \<Longrightarrow> d g = fs_files a g) \<Longrightarrow> P d) \<Longrightarrow> evolves P a b"
  unfolding frame_def by (erule evolves_mono) blast

lemma frame_quiet: "evolves (\<lambda>_. False) a b \<Longrightarrow> frame F a b"
  by (auto simp: frame_def elim!: evolves_mono)

named_theorems frames \<open>which files an operation may touch\<close>

lemma frame_ReadFile [frames]: "os_ReadFile en p fs = (r, fs') \<Longrightarrow> frame {} fs fs'"
  by (rule frame_quiet) (metis os_ReadFile_files(2) snd_conv)

lemma frame_Remove [frames]: "os_Remove en p fs = (r, fs') \<Longrightarrow> frame {p} fs fs'"
  unfolding frame_def by (drule os_Remove_files(3), erule evolves_mono) simp

lemma frame_writeFile [frames]: "writeFile en t c m fs = (r, fs') \<Longrightarrow> visible t \<Longrightarrow> frame {t} fs fs'"
  unfolding frame_def by (drule (1) writeFile_visible(1), erule evolves_mono) simp

lemma frame_ensureKeyPair [frames]:
  assumes "ensureKeyPair en k [] fs = (r, fs')" and "visible k"
  shows "frame {k} fs fs'"
  using assms(1)
proof (cases rule: ensureKeyPair_cases)
  case (3 n priv pub fs1 r1 fs2)
  then show ?thesis
    using frame_step [OF frame_quiet [of fs fs1 "{k}"] frame_writeFile [OF 3(4) assms(2)]] by simp
qed (auto intro: frame_quiet)

lemma frame_RotateCloudKey [frames]:
  assumes "RotateCloudKey en fs = (r, fs')"
  shows "frame {fileCloudPrivKey} fs fs'"
proof -
  obtain r1 fs1 where rm: "os_Remove en fileCloudPrivKey fs = (r1, fs1)" by fastforce
  obtain r2 fs2 where ek: "ensureKeyPair en fileCloudPrivKey [] fs1 = (r2, fs2)" by fastforce
  obtain r3 fs3 where ck: "checkPrivKeyPermissions en fileCloudPrivKey fs2 = (r3, fs3)" by fastforce
  have "fs' \<in> {fs1, fs2, fs3}" using assms rm ek ck
    by (auto simp: RotateCloudKey_def split: if_splits option.splits)
  moreover have f2: "frame {fileCloudPrivKey} fs fs2"
    using frame_step [OF frame_Remove [OF rm] frame_ensureKeyPair [OF ek]] by simp
  moreover have "frame {fileCloudPrivKey} fs fs3"
    using frame_step [OF f2 frame_quiet] checkPrivKeyPermissions_spec(2) [OF ck] by blast
  ultimately show ?thesis using frame_Remove [OF rm] by auto
qed

lemma frame_wipe_loop:
  "wipe_loop en files fs = (r, fs') \<Longrightarrow> frame (set files) fs fs'"
proof (induction files arbitrary: fs)
  case (Cons f files)
  obtain r1 fs1 where rm: "os_Remove en f fs = (r1, fs1)" by fastforce
  then have f: "frame {f} fs fs1" by (rule frame_Remove)
  show ?case
  proof (cases "r1 = None \<or> r1 = Some ErrNotExist")
    case True
    then have "frame (set files) fs1 fs'" using Cons rm by simp
    from frame_trans [OF f this] show ?thesis by simp
  next
    case False
    then show ?thesis using Cons.prems rm f by (auto intro: frame_mono)
  qed
qed simp

lemma frame_loadPrivKey [frames]: "loadPrivKey en k fs = (r, fs') \<Longrightarrow> frame {} fs fs'"
  by (auto simp: loadPrivKey_def split: prod.splits sum.splits dest: frame_ReadFile)

lemma frame_GenerateCSR [frames]: "GenerateCSR en u fs = (r, fs') \<Longrightarrow> frame {} fs fs'"
  by (auto simp: GenerateCSR_def CloudPrivateKey_def split: prod.splits sum.splits dest: frame_loadPrivKey)

lemma frame_boardToken [frames]: "boardToken en pe fs = (r, fs') \<Longrightarrow> frame {} fs fs'"
  by (auto simp: boardToken_def ProvisioningPrivateKey_def split: prod.splits sum.splits dest: frame_loadPrivKey)

lemma frame_markerTimestamp [frames]: "markerTimestamp en fs = (r, fs') \<Longrightarrow> frame {} fs fs'"
  by (auto simp: markerTimestamp_def split: prod.splits sum.splits content.splits dest: frame_ReadFile)

lemma frame_DeviceID [frames]: "DeviceID en fs = (r, fs') \<Longrightarrow> frame {} fs fs'"
  by (auto simp: DeviceID_def read_credential_def split: prod.splits sum.splits os_error.splits
      dest: frame_ReadFile)

lemma frame_IsProvisioned [frames]: "IsProvisioned en fs = (r, fs') \<Longrightarrow> frame {} fs fs'"
  using evolves_trans [OF evolves_tick evolves_tick, of "\<lambda>_. False" fs]
  by (intro frame_quiet) (auto simp: IsProvisioned_def os_Stat_def split: if_splits option.splits)

lemma frame_clearMarker [frames]: "frame {markerFile} fs (snd (clearMarker en fs))"
  by (auto simp: clearMarker_def split: prod.splits dest: frame_Remove)

lemma visible_markerFile [simp]: "visible markerFile"
  by (simp add: visible_def markerFile_def)

lemma marker_names [simp]:
  "markerFile \<noteq> fileDeviceCert" "markerFile \<noteq> fileDeviceID" "markerFile \<noteq> fileOrganizationID"
  "markerFile \<noteq> fileCloudPrivKey" "fileDeviceCert \<noteq> fileDeviceID" "fileDeviceID \<noteq> fileDeviceCert"
  "fileDeviceCert \<noteq> fileOrganizationID" "fileDeviceID \<noteq> fileOrganizationID"
  "fileDeviceCert \<noteq> markerFile" "fileDeviceID \<noteq> markerFile"
  "fileDeviceCert \<noteq> fileCloudPrivKey" "fileDeviceID \<noteq> fileCloudPrivKey"
  by (simp_all add: markerFile_def file_names)

lemma wipe_loop_gone:
  "wipe_loop en files fs = (r, fs') \<Longrightarrow> fs_files fs f = None \<or> (r = None \<and> f \<in> set files) \<Longrightarrow>
     fs_files fs' f = None"
proof (induction files arbitrary: fs)
  case (Cons p files)
  obtain r1 fs1 where rm: "os_Remove en p fs = (r1, fs1)" by fastforce
  note gone = os_Remove_files(1,2) [OF rm]
  show ?case
  proof (cases "r1 = None \<or> r1 = Some ErrNotExist")
    case True
    then have "fs_files fs1 f = None \<or> (r = None \<and> f \<in> set files)"
      using Cons.prems(2) gone by (auto split: if_splits)
    then show ?thesis using Cons.IH [of fs1] Cons.prems(1) rm True by simp
  next
    case False
    then show ?thesis using Cons.prems rm gone by auto
  qed
qed simp

lemma Wipe_spec:
  assumes "WipeCloudCredentials en fs = (r, fs')"
  shows "frame {fileDeviceCert, fileDeviceID, fileOrganizationID} fs fs'"
    and "r = None \<Longrightarrow> f \<in> {fileDeviceCert, fileDeviceID, fileOrganizationID} \<Longrightarrow> fs_files fs' f = None"
    and "fs_files fs f = None \<Longrightarrow> fs_files fs' f = None"
  using assms frame_wipe_loop [of en "[fileDeviceCert, fileDeviceID, fileOrganizationID]" fs r fs']
    wipe_loop_gone [of en "[fileDeviceCert, fileDeviceID, fileOrganizationID]" fs r fs' f]
  by (auto simp: WipeCloudCredentials_def)

text \<open>A certificate without the marker: what a restarted daemon takes for a working board.\<close>

definition looks_provisioned :: "disk \<Rightarrow> bool" where
  "looks_provisioned d \<longleftrightarrow> d markerFile = None \<and> d fileDeviceCert \<noteq> None \<and> d fileDeviceID \<noteq> None"

lemma frame_not_looks:
  assumes "frame F a b" and "markerFile \<notin> F" and "fs_files a markerFile \<noteq> None"
  shows "evolves (\<lambda>d. \<not> looks_provisioned d) a b" and "fs_files b markerFile \<noteq> None"
  using assms frame_last [OF assms(1)]
  by (auto intro!: frame_evolves [OF assms(1)] simp: looks_provisioned_def)

section \<open>Outcomes of an attempt\<close>

lemma retry_loop_success_all:
  "retry_loop api le deadline k now b = Some res \<Longrightarrow> \<forall>x. fst res = Inr x \<longrightarrow> (\<exists>j. api j = Inr x)"
  by (erule retry_loop.raw_induct [rotated])
    (force simp: Let_def split: sum.splits if_splits option.splits)

lemma retry_loop_success:
  "retry_loop api le deadline k now b = Some (Inr x, n) \<Longrightarrow> \<exists>j. api j = Inr x"
  using retry_loop_success_all [of api le deadline k now b "(Inr x, n)"] by simp

lemma completePhase_cases:
  assumes "completePhase en pe token deadline s = Some (r, s')"
  obtains (activated) k where "r = None" "pe_complete pe token k = Inr ()"
      "svc_fs s' = snd (clearMarker en (svc_fs s))" "svc_submits s' = svc_submits s"
      "svc_completeFailed s' = svc_completeFailed s"
  | (expired) e where "r = Some (RetryWindowExpired e)" "svc_completeFailed s' = r"
      "svc_fs s' = snd (clearMarker en (snd (WipeCloudCredentials en (svc_fs s))))"
      "svc_submits s' = svc_submits s"
  | (left) e where "r = Some e" "svc_fs s' = svc_fs s" "svc_submits s' = svc_submits s"
      "svc_completeFailed s' = svc_completeFailed s"
proof -
  obtain q n where c: "completeWithRetry pe token deadline = Some (q, n)"
    using assms by (auto simp: completePhase_def split: option.splits)
  show ?thesis
  proof (cases q)
    case (Inr u)
    then obtain k where "pe_complete pe token k = Inr u"
      using retry_loop_success [of "pe_complete pe token"] c unfolding completeWithRetry_def by blast
    then show ?thesis
      using assms c Inr activated by (auto simp: completePhase_def Let_def set_fs_def)
  next
    case (Inl e)
    then show ?thesis
      using assms c expired left
      by (cases e) (auto simp: completePhase_def Let_def set_fs_def setCompleteFailure_def)
  qed
qed

abbreviation issue_files :: "string set" where
  "issue_files \<equiv> {fileCloudPrivKey, fileDeviceCert, fileDeviceID}"

text \<open>Storing what the API issued: the certificate, then the device id.\<close>

lemma store_issued:
  assumes "StoreDeviceCert en certPEM fs = (r, fs1)" and "StoreDeviceID en deviceID fs1 = (r', fs2)"
    and "frame issue_files fs0 fs"
  shows "frame issue_files fs0 fs1" and "frame issue_files fs0 fs2"
    and "r = None \<Longrightarrow> r' = None \<Longrightarrow>
      fs_files fs2 fileDeviceCert = Some \<lparr>f_data = Text certPEM, f_mode = mode_0644\<rparr> \<and>
      fs_files fs2 fileDeviceID = Some \<lparr>f_data = Text deviceID, f_mode = mode_0644\<rparr>"
proof -
  note sc = assms(1) [unfolded StoreDeviceCert_def] and si = assms(2) [unfolded StoreDeviceID_def]
  show f1: "frame issue_files fs0 fs1" by (rule frame_step [OF assms(3) frame_writeFile [OF sc]]) simp_all
  show "frame issue_files fs0 fs2" by (rule frame_step [OF f1 frame_writeFile [OF si]]) simp_all
  show "fs_files fs2 fileDeviceCert = Some \<lparr>f_data = Text certPEM, f_mode = mode_0644\<rparr> \<and>
      fs_files fs2 fileDeviceID = Some \<lparr>f_data = Text deviceID, f_mode = mode_0644\<rparr>"
    if "r = None" "r' = None"
    using that writeFile_visible(2) [OF sc, of fileDeviceCert] writeFile_visible(2) [OF si] by simp
qed

lemma issuePhase_cases:
  assumes "issuePhase en pe deadline s = Some (r, s')"
  obtains (failed) e where "r = Some e" "frame issue_files (svc_fs s) (svc_fs s')"
      "svc_completeFailed s' = svc_completeFailed s"
  | (issued) s1 token csr k deviceID certPEM where "frame issue_files (svc_fs s) (svc_fs s1)"
      "completePhase en pe token deadline s1 = Some (r, s')"
      "pe_submit pe token csr k = Inr (deviceID, certPEM)"
      "fs_files (svc_fs s1) fileDeviceCert = Some \<lparr>f_data = Text certPEM, f_mode = mode_0644\<rparr>"
      "fs_files (svc_fs s1) fileDeviceID = Some \<lparr>f_data = Text deviceID, f_mode = mode_0644\<rparr>"
      "svc_completeFailed s1 = svc_completeFailed s"
proof -
  let ?F = issue_files
  obtain r1 fs1 where rot: "RotateCloudKey en (svc_fs s) = (r1, fs1)" by fastforce
  obtain r2 fs2 where csr: "GenerateCSR en (pe_uhwid pe) fs1 = (r2, fs2)" by fastforce
  obtain r3 fs3 where tok: "boardToken en pe fs2 = (r3, fs3)" by fastforce
  have f1: "frame ?F (svc_fs s) fs1" using frame_RotateCloudKey [OF rot] by (rule frame_mono) simp
  have f2: "frame ?F (svc_fs s) fs2" by (rule frame_step [OF f1 frame_GenerateCSR [OF csr]]) simp
  have f3: "frame ?F (svc_fs s) fs3" by (rule frame_step [OF f2 frame_boardToken [OF tok]]) simp
  consider (early) e fs where "r = Some e" "svc_fs s' = fs" "fs \<in> {fs1, fs2, fs3}"
      "svc_completeFailed s' = svc_completeFailed s"
    | (submitted) c token x n where "r2 = Inr c" "r3 = Inr token" "r1 = None"
        "submitCSRWithRetry pe token c deadline = Some (Inr x, n)"
    using assms rot csr tok
    by (auto simp: issuePhase_def set_fs_def Let_def split: option.splits sum.splits prod.splits)
  then show ?thesis
  proof cases
    case early
    then show ?thesis using failed f1 f2 f3 by auto
  next
    case (submitted c token x n)
    obtain deviceID certPEM where x: "x = (deviceID, certPEM)" by (cases x)
    obtain r4 fs4 where sc: "StoreDeviceCert en certPEM fs3 = (r4, fs4)" by fastforce
    obtain r5 fs5 where si: "StoreDeviceID en deviceID fs4 = (r5, fs5)" by fastforce
    note stored = store_issued [OF sc si f3]
    obtain k where k: "pe_submit pe token c k = Inr (deviceID, certPEM)"
      using retry_loop_success [OF submitted(4) [unfolded submitCSRWithRetry_def]] x by blast
    let ?s = "s\<lparr>svc_submits := svc_submits s + n, svc_fs := fs5\<rparr>"
    have run: "(if r4 = None then if r5 = None then completePhase en pe token deadline ?s = Some (r, s')
        else r = map_option ProvKeystore r5 \<and> s' = ?s
      else r = map_option ProvKeystore r4 \<and> s' = s\<lparr>svc_submits := svc_submits s + n, svc_fs := fs4\<rparr>)"
      using assms rot csr tok submitted x sc si
      by (auto simp: issuePhase_def set_fs_def Let_def split: option.splits)
    show ?thesis
    proof (cases "r4 = None \<and> r5 = None")
      case True
      then show ?thesis using issued [of ?s token c k] run k stored by simp
    next
      case False
      then show ?thesis using failed run stored(1,2) by (auto split: if_splits)
    qed
  qed
qed

text \<open>The three ways through \<open>RunAttempt\<close>.\<close>

lemma RunAttempt_cases:
  assumes "RunAttempt en pe s = Some (r, s')"
  obtains (no_marker) fs where "fst (markerTimestamp en (svc_fs s)) = None" "r = Some NoInflightMarker"
      "frame {} (svc_fs s) fs" "s' = set_fs s fs"
  | (resume) ts fs fs1 where "fst (markerTimestamp en (svc_fs s)) = Some ts" "frame {} (svc_fs s) fs"
      "resumePhase en pe (ts + provisioningWindow) (set_fs s fs) = Some (r, s')"
      "frame {} (svc_fs s) fs1" "fst (IsProvisioned en fs1)"
  | (issue) ts fs fs1 where "fst (markerTimestamp en (svc_fs s)) = Some ts" "frame {} (svc_fs s) fs"
      "issuePhase en pe (ts + provisioningWindow) (set_fs s fs) = Some (r, s')"
      "frame {} (svc_fs s) fs1" "\<not> fst (IsProvisioned en fs1)"
proof -
  obtain ts fs1 where m: "markerTimestamp en (svc_fs s) = (ts, fs1)" by fastforce
  obtain b fs2 where p: "IsProvisioned en fs1 = (b, fs2)" by fastforce
  have f1: "frame {} (svc_fs s) fs1" by (rule frame_markerTimestamp [OF m])
  have f2: "frame {} (svc_fs s) fs2" by (rule frame_step [OF f1 frame_IsProvisioned [OF p]]) simp
  show ?thesis
  proof (cases ts)
    case None
    then show ?thesis using assms m no_marker f1 by (auto simp: RunAttempt_def markerDeadline_def)
  next
    case (Some t)
    then have "(if b then resumePhase en pe (t + provisioningWindow) (set_fs s fs2)
        else issuePhase en pe (t + provisioningWindow) (set_fs s fs2)) = Some (r, s')"
      using assms m p by (simp add: RunAttempt_def markerDeadline_def)
    then show ?thesis
      using resume [of t fs2 fs1] issue [of t fs2 fs1] f1 f2 p m Some by (auto split: if_splits)
  qed
qed

lemma set_fs_simps [simp]:
  "svc_fs (set_fs s fs) = fs" "svc_submits (set_fs s fs) = svc_submits s"
  "svc_completes (set_fs s fs) = svc_completes s" "svc_completeFailed (set_fs s fs) = svc_completeFailed s"
  by (simp_all add: set_fs_def)

lemma resumePhase_cases:
  assumes "resumePhase en pe deadline s = Some (r, s')"
  obtains (failed) e where "r = Some e" "frame {} (svc_fs s) (svc_fs s')" "svc_submits s' = svc_submits s"
      "svc_completeFailed s' = svc_completeFailed s"
  | (complete) s1 token where "frame {} (svc_fs s) (svc_fs s1)" "completePhase en pe token deadline s1 = Some (r, s')"
      "svc_submits s1 = svc_submits s" "svc_completeFailed s1 = svc_completeFailed s"
proof -
  obtain r1 fs1 where d: "DeviceID en (svc_fs s) = (r1, fs1)" by fastforce
  obtain r2 fs2 where t: "boardToken en pe fs1 = (r2, fs2)" by fastforce
  have f1: "frame {} (svc_fs s) fs1" by (rule frame_DeviceID [OF d])
  have f2: "frame {} (svc_fs s) fs2" by (rule frame_step [OF f1 frame_boardToken [OF t]]) simp
  show ?thesis
    using assms d t f1 f2 failed complete [of "set_fs s fs2"]
    by (auto simp: resumePhase_def set_fs_def split: sum.splits)
qed

text \<open>
  What must be true of an attempt for the disk to look provisioned at some point: the service
  answered the activation, or the window expired, the failure is remembered and the certificate
  could not be removed.
\<close>

definition accounted :: "osenv \<Rightarrow> penv \<Rightarrow> prov_error option \<Rightarrow> Service \<Rightarrow> disk \<Rightarrow> bool" where
  "accounted en pe r s' d \<longleftrightarrow> d = fs_files (svc_fs s') \<and>
     ((r = None \<and> (\<exists>token k. pe_complete pe token k = Inr ())) \<or>
      (\<exists>e fs. r = Some (RetryWindowExpired e) \<and> svc_completeFailed s' = r \<and>
         fst (WipeCloudCredentials en fs) \<noteq> None))"

lemma clearMarker_last: "evolves (\<lambda>d. d = fs_files (snd (clearMarker en fs))) fs (snd (clearMarker en fs))"
  by (auto simp: clearMarker_def os_Remove_def intro: evolves_commit split: prod.splits if_splits option.splits)

lemma completePhase_accounted:
  assumes "completePhase en pe token deadline s = Some (r, s')" and "fs_files (svc_fs s) markerFile \<noteq> None"
  shows "evolves (\<lambda>d. looks_provisioned d \<longrightarrow> accounted en pe r s' d) (svc_fs s) (svc_fs s')"
  using assms(1)
proof (cases rule: completePhase_cases)
  case (activated k)
  show ?thesis
    unfolding activated(3)
    by (rule evolves_mono [OF clearMarker_last]) (use activated in \<open>auto simp: accounted_def\<close>)
next
  case (expired e)
  obtain w fs1 where w: "WipeCloudCredentials en (svc_fs s) = (w, fs1)" by fastforce
  have fs': "svc_fs s' = snd (clearMarker en fs1)" using expired w by simp
  have e1: "evolves (\<lambda>d. \<not> looks_provisioned d) (svc_fs s) fs1"
    by (rule frame_not_looks(1) [OF Wipe_spec(1) [OF w]]) (use assms(2) in simp_all)
  have "evolves (\<lambda>d. looks_provisioned d \<longrightarrow> accounted en pe r s' d) fs1 (svc_fs s')"
    unfolding fs'
  proof (rule evolves_mono [OF clearMarker_last], rule impI)
    fix d
    assume d: "d = fs_files (snd (clearMarker en fs1))" and looks: "looks_provisioned d"
    have "fs_files fs1 fileDeviceCert \<noteq> None"
      using looks frame_last [OF frame_clearMarker [of fs1 en], of fileDeviceCert]
      by (auto simp: looks_provisioned_def d)
    then have "w \<noteq> None" using Wipe_spec(2) [OF w, of fileDeviceCert] by (cases w) simp_all
    then have "fst (WipeCloudCredentials en (svc_fs s)) \<noteq> None" using w by simp
    then have "\<exists>fs. fst (WipeCloudCredentials en fs) \<noteq> None" by (rule exI)
    moreover have "d = fs_files (svc_fs s')" by (simp only: d fs')
    ultimately show "accounted en pe r s' d" using expired(1,2) by (simp add: accounted_def)
  qed
  moreover have "evolves (\<lambda>d. looks_provisioned d \<longrightarrow> accounted en pe r s' d) (svc_fs s) fs1"
    by (rule evolves_mono [OF e1]) simp
  ultimately show ?thesis by (rule evolves_trans [rotated])
qed (simp_all add: evolves_def)

lemma frame_accounted:
  assumes "frame F a fs" and "markerFile \<notin> F" and "fs_files a markerFile \<noteq> None"
    and "fs_files fs markerFile \<noteq> None \<Longrightarrow> evolves (\<lambda>d. looks_provisioned d \<longrightarrow> Q d) fs b"
  shows "evolves (\<lambda>d. looks_provisioned d \<longrightarrow> Q d) a b"
proof (rule evolves_trans)
  show "evolves (\<lambda>d. looks_provisioned d \<longrightarrow> Q d) a fs"
    by (rule evolves_mono [OF frame_not_looks(1) [OF assms(1-3)]]) simp
  show "evolves (\<lambda>d. looks_provisioned d \<longrightarrow> Q d) fs b"
    by (rule assms(4) [OF frame_not_looks(2) [OF assms(1-3)]])
qed

lemma resumePhase_accounted:
  assumes "resumePhase en pe deadline s = Some (r, s')" and "fs_files (svc_fs s) markerFile \<noteq> None"
  shows "evolves (\<lambda>d. looks_provisioned d \<longrightarrow> accounted en pe r s' d) (svc_fs s) (svc_fs s')"
  using assms(1)
proof (cases rule: resumePhase_cases)
  case (failed e)
  from frame_accounted [OF failed(2) _ assms(2)] show ?thesis by simp
next
  case (complete s2 token)
  from frame_accounted [OF complete(1) _ assms(2) completePhase_accounted [OF complete(2)]] show ?thesis by simp
qed

lemma issuePhase_accounted:
  assumes "issuePhase en pe deadline s = Some (r, s')" and "fs_files (svc_fs s) markerFile \<noteq> None"
  shows "evolves (\<lambda>d. looks_provisioned d \<longrightarrow> accounted en pe r s' d) (svc_fs s) (svc_fs s')"
  using assms(1)
proof (cases rule: issuePhase_cases)
  case (failed e)
  from frame_accounted [OF failed(2) _ assms(2)] show ?thesis by simp
next
  case (issued s2 token)
  from frame_accounted [OF issued(1) _ assms(2) completePhase_accounted [OF issued(2)]] show ?thesis by simp
qed

lemma RunAttempt_accounted:
  assumes "RunAttempt en pe s = Some (r, s')" and "fs_files (svc_fs s) markerFile \<noteq> None"
  shows "evolves (\<lambda>d. looks_provisioned d \<longrightarrow> accounted en pe r s' d) (svc_fs s) (svc_fs s')"
  using assms(1)
proof (cases rule: RunAttempt_cases)
  case no_marker
  from frame_accounted [OF no_marker(3) _ assms(2)] no_marker(4) show ?thesis by simp
next
  case (resume ts fs)
  from frame_accounted [OF resume(2) _ assms(2)] resumePhase_accounted [OF resume(3)] show ?thesis by simp
next
  case (issue ts fs)
  from frame_accounted [OF issue(2) _ assms(2)] issuePhase_accounted [OF issue(3)] show ?thesis by simp
qed

section \<open>The prelude on the disk\<close>

abbreviation marker_at :: "time \<Rightarrow> fileinfo" where
  "marker_at t \<equiv> \<lparr>f_data = RFC3339Nano t, f_mode = mode_0600\<rparr>"

lemma writeMarker_spec:
  assumes "writeMarker en now fs = (r, fs')"
  shows "evolves (\<lambda>d. (\<forall>g. visible g \<longrightarrow> d g = fs_files fs g) \<or> d markerFile = Some (marker_at now)) fs fs'"
    and "visible g \<Longrightarrow> fs_files fs' g = (if g = markerFile \<and> r = None then Some (marker_at now) else fs_files fs g)"
proof -
  note v = replace_file_visible [OF assms [unfolded writeMarker_def] visible_markerFile]
  show "evolves (\<lambda>d. (\<forall>g. visible g \<longrightarrow> d g = fs_files fs g) \<or> d markerFile = Some (marker_at now)) fs fs'"
    by (rule evolves_mono [OF v(1)]) (simp, metis)
  show "fs_files fs' g = (if g = markerFile \<and> r = None then Some (marker_at now) else fs_files fs g)" if "visible g"
    using v(2) [OF that] by simp
qed

lemma BeginProvisioning_success:
  assumes "BeginProvisioning en now org s = (None, s')"
  obtains fs1 fs2 where "writeMarker en now (svc_fs s) = (None, fs1)" "WipeCloudCredentials en fs1 = (None, fs2)"
    "if org = [] then svc_fs s' = fs2 else StoreOrganizationID en org fs2 = (None, svc_fs s')"
    "svc_completeFailed s' = None"
  using assms
  by (auto simp: BeginProvisioning_def setCompleteFailure_def set_fs_def Let_def
      split: option.splits prod.splits if_splits)

lemma BeginProvisioning_files:
  assumes "BeginProvisioning en now org s = (None, s')"
  shows "fs_files (svc_fs s') markerFile = Some (marker_at now)"
    and "fs_files (svc_fs s') fileDeviceCert = None" and "fs_files (svc_fs s') fileDeviceID = None"
    and "fs_files (svc_fs s') fileOrganizationID =
      (if org = [] then None else Some \<lparr>f_data = Text org, f_mode = mode_0644\<rparr>)"
    and "svc_completeFailed s' = None"
    and "evolves (\<lambda>d. (\<forall>g. visible g \<longrightarrow> d g = fs_files (svc_fs s) g) \<or> d markerFile = Some (marker_at now))
      (svc_fs s) (svc_fs s')"
proof -
  let ?P = "\<lambda>d. (\<forall>g. visible g \<longrightarrow> d g = fs_files (svc_fs s) g) \<or> d markerFile = Some (marker_at now)"
  obtain fs1 fs2 where wm: "writeMarker en now (svc_fs s) = (None, fs1)"
    and wc: "WipeCloudCredentials en fs1 = (None, fs2)"
    and so: "if org = [] then svc_fs s' = fs2 else StoreOrganizationID en org fs2 = (None, svc_fs s')"
    and cf: "svc_completeFailed s' = None"
    using BeginProvisioning_success [OF assms] by blast
  have m1: "fs_files fs1 markerFile = Some (marker_at now)" using writeMarker_spec(2) [OF wm] by simp
  have f2: "frame {fileDeviceCert, fileDeviceID, fileOrganizationID} fs1 fs2" by (rule Wipe_spec(1) [OF wc])
  have f3: "frame {fileOrganizationID} fs2 (svc_fs s')"
    using so by (auto simp: StoreOrganizationID_def dest: frame_writeFile split: if_splits)
  have f: "frame {fileDeviceCert, fileDeviceID, fileOrganizationID} fs1 (svc_fs s')"
    by (rule frame_step [OF f2 f3]) simp
  show "fs_files (svc_fs s') markerFile = Some (marker_at now)" using frame_last [OF f] m1 by simp
  show "fs_files (svc_fs s') fileDeviceCert = None" "fs_files (svc_fs s') fileDeviceID = None"
    using frame_last [OF f3] Wipe_spec(2) [OF wc] by simp_all
  show "fs_files (svc_fs s') fileOrganizationID =
      (if org = [] then None else Some \<lparr>f_data = Text org, f_mode = mode_0644\<rparr>)"
    using so Wipe_spec(2) [OF wc, of fileOrganizationID]
    by (auto simp: StoreOrganizationID_def dest!: writeFile_visible(2) [where g = fileOrganizationID] split: if_splits)
  show "svc_completeFailed s' = None" by (rule cf)
  have "evolves ?P fs1 (svc_fs s')" by (rule frame_evolves [OF f]) (use m1 in simp)
  with writeMarker_spec(1) [OF wm] show "evolves ?P (svc_fs s) (svc_fs s')" by (rule evolves_trans)
qed

lemma ProvState_in_flight:
  assumes "svc_completeFailed s = None" and "fs_files (svc_fs s) markerFile = Some (marker_at t)"
    and "\<not> faulty en (svc_fs s)"
  shows "fst (ProvState_of en now s) =
    (if now < t + provisioningWindow then ProvStateProvisioning else ProvStateError)"
  using assms by (simp add: ProvState_of_def markerTimestamp_def os_ReadFile_def)

text \<open>Without disk faults: the wipe succeeds, and the prelude never shows a new certificate.\<close>

lemma wipe_loop_calm: "\<forall>n. os_fault en n = None \<Longrightarrow> fst (wipe_loop en files fs) = None"
  by (induction files arbitrary: fs)
    (auto simp: os_Remove_def faulty_def split: prod.splits option.splits if_splits)

lemma Wipe_calm: "\<forall>n. os_fault en n = None \<Longrightarrow> fst (WipeCloudCredentials en fs) = None"
  unfolding WipeCloudCredentials_def by (rule wipe_loop_calm)

lemma BeginProvisioning_calm:
  assumes "BeginProvisioning en now org s = (r, s')" and nf: "\<forall>n. os_fault en n = None"
  shows "evolves (\<lambda>d. looks_provisioned d \<longrightarrow> (\<forall>g. visible g \<longrightarrow> d g = fs_files (svc_fs s) g))
    (svc_fs s) (svc_fs s')" (is "evolves ?P _ _")
proof -
  obtain r1 fs1 where wm: "writeMarker en now (svc_fs s) = (r1, fs1)" by fastforce
  obtain fs2 where wc: "WipeCloudCredentials en fs1 = (None, fs2)" by (metis Wipe_calm nf prod.collapse)
  obtain r3 fs3 where so: "StoreOrganizationID en org fs2 = (r3, fs3)" by fastforce
  have e1: "evolves ?P (svc_fs s) fs1"
    by (rule evolves_mono [OF writeMarker_spec(1) [OF wm]]) (auto simp: looks_provisioned_def)
  show ?thesis
  proof (cases r1)
    case (Some e)
    then have "svc_fs s' = fs1"
      using assms(1) wm by (auto simp: BeginProvisioning_def setCompleteFailure_def set_fs_def)
    with e1 show ?thesis by simp
  next
    case None
    then have m: "fs_files fs1 markerFile \<noteq> None" using writeMarker_spec(2) [OF wm] by simp
    have nl: "evolves ?P a b" if "evolves (\<lambda>d. \<not> looks_provisioned d) a b" for a b
      by (rule evolves_mono [OF that]) simp
    note f2 = frame_not_looks [OF Wipe_spec(1) [OF wc] _ m]
    have e2: "evolves ?P (svc_fs s) fs2" using e1 nl [OF f2(1)] by (rule evolves_trans) simp
    have fr3: "frame {fileOrganizationID} fs2 fs3" using so by (simp add: StoreOrganizationID_def frame_writeFile)
    note f3 = frame_not_looks [OF fr3 _ f2(2)]
    have e3: "evolves ?P (svc_fs s) fs3" using e2 nl [OF f3(1)] by (rule evolves_trans) simp_all
    have "fs_files fs3 fileDeviceCert = None" using Wipe_spec(2) [OF wc] frame_last [OF fr3] by simp
    then have "evolves (\<lambda>d. \<not> looks_provisioned d) fs3 (snd (clearMarker en fs3))"
      by (intro frame_evolves [OF frame_clearMarker]) (simp add: looks_provisioned_def)
    with e3 have e4: "evolves ?P (svc_fs s) (snd (clearMarker en fs3))" using nl evolves_trans by blast
    have "svc_fs s' \<in> {fs2, fs3, snd (clearMarker en fs3)}"
      using assms(1) wm wc so None
      by (auto simp: BeginProvisioning_def setCompleteFailure_def set_fs_def Let_def split: if_splits option.splits)
    then show ?thesis using e2 e3 e4 by auto
  qed
qed

section \<open>Attempts return\<close>

lemma submitCSRWithRetry_total [simp]: "submitCSRWithRetry pe token csr deadline \<noteq> None"
  using retry_loop_total [of "pe_submit pe token csr" "pe_submit_env pe" deadline 0 "le_start (pe_submit_env pe)"]
  by (auto simp: submitCSRWithRetry_def backoff_at_bounds)

lemma completeWithRetry_total [simp]: "completeWithRetry pe token deadline \<noteq> None"
  using retry_loop_total [of "pe_complete pe token" "pe_complete_env pe" deadline 0 "le_start (pe_complete_env pe)"]
  by (auto simp: completeWithRetry_def backoff_at_bounds)

lemma completePhase_total [simp]: "completePhase en pe token deadline s \<noteq> None"
  by (auto simp: completePhase_def Let_def simp del: not_None_eq split: option.split)

lemma issuePhase_total [simp]: "issuePhase en pe deadline s \<noteq> None"
  by (auto simp: issuePhase_def Let_def simp del: not_None_eq split: option.split sum.split prod.split)

lemma resumePhase_total [simp]: "resumePhase en pe deadline s \<noteq> None"
  by (auto simp: resumePhase_def simp del: not_None_eq split: sum.split prod.split)

lemma RunAttempt_total: "\<exists>r s'. RunAttempt en pe s = Some (r, s')"
proof -
  have "RunAttempt en pe s \<noteq> None"
    by (auto simp: RunAttempt_def simp del: not_None_eq split: option.split prod.split)
  then show ?thesis by auto
qed

lemma submitCSRWithRetry_count:
  "submitCSRWithRetry pe token csr (ts + provisioningWindow) = Some (r, n) \<Longrightarrow>
     ts \<le> le_start (pe_submit_env pe) \<Longrightarrow> n \<le> 24"
  using retry_loop_count [of "ts + provisioningWindow" "le_start (pe_submit_env pe)" 0 "le_start (pe_submit_env pe)"]
  by (simp add: submitCSRWithRetry_def backoff_at_bounds)

lemma completeWithRetry_count:
  "completeWithRetry pe token (ts + provisioningWindow) = Some (r, n) \<Longrightarrow>
     ts \<le> le_start (pe_complete_env pe) \<Longrightarrow> n \<le> 24"
  using retry_loop_count [of "ts + provisioningWindow" "le_start (pe_complete_env pe)" 0 "le_start (pe_complete_env pe)"]
  by (simp add: completeWithRetry_def backoff_at_bounds)

lemma completePhase_count:
  assumes "completePhase en pe token (ts + provisioningWindow) s = Some (r, s')"
    and "ts \<le> le_start (pe_complete_env pe)"
  shows "svc_completes s' \<le> svc_completes s + 24" and "svc_submits s' = svc_submits s"
  using assms completeWithRetry_count [of pe token ts]
  by (auto simp: completePhase_def Let_def set_fs_def setCompleteFailure_def
      split: option.splits sum.splits prod.splits prov_error.splits)

lemma issuePhase_count:
  assumes "issuePhase en pe (ts + provisioningWindow) s = Some (r, s')"
    and "ts \<le> le_start (pe_submit_env pe)" and "ts \<le> le_start (pe_complete_env pe)"
  shows "svc_submits s' \<le> svc_submits s + 24 \<and> svc_completes s' \<le> svc_completes s + 24"
  using assms submitCSRWithRetry_count [of pe _ _ ts] completePhase_count [OF _ assms(3)]
  by (fastforce simp: issuePhase_def Let_def set_fs_def split: option.splits sum.splits prod.splits)

lemma resumePhase_count:
  assumes "resumePhase en pe (ts + provisioningWindow) s = Some (r, s')"
    and "ts \<le> le_start (pe_complete_env pe)"
  shows "svc_submits s' = svc_submits s \<and> svc_completes s' \<le> svc_completes s + 24"
  using assms completePhase_count [OF _ assms(2)]
  by (fastforce simp: resumePhase_def Let_def set_fs_def split: sum.splits prod.splits)

lemma RunAttempt_count:
  assumes "RunAttempt en pe s = Some (r, s')"
    and "\<And>ts. fst (markerTimestamp en (svc_fs s)) = Some ts \<Longrightarrow>
      ts \<le> le_start (pe_submit_env pe) \<and> ts \<le> le_start (pe_complete_env pe)"
  shows "svc_submits s' \<le> svc_submits s + 24 \<and> svc_completes s' \<le> svc_completes s + 24"
  using assms(1)
proof (cases rule: RunAttempt_cases)
  case (resume ts fs)
  then show ?thesis using assms(2) [OF resume(1)] resumePhase_count [OF resume(3)] by simp
next
  case (issue ts fs)
  then show ?thesis using assms(2) [OF issue(1)] issuePhase_count [OF issue(3)] by simp
qed simp

text \<open>Without faults, a restart under the marker with both credentials goes to the activation.\<close>

lemma RunAttempt_resumes:
  assumes "RunAttempt en pe s = Some (r, s')" and "fs_files (svc_fs s) markerFile \<noteq> None"
    and "fs_files (svc_fs s) fileDeviceCert \<noteq> None" and "fs_files (svc_fs s) fileDeviceID \<noteq> None"
    and "\<forall>n. os_fault en n = None"
  obtains deadline fs where "frame {} (svc_fs s) fs" "resumePhase en pe deadline (set_fs s fs) = Some (r, s')"
  using assms(1)
proof (cases rule: RunAttempt_cases)
  case no_marker
  then show ?thesis
    using assms(2,5) by (auto simp: markerTimestamp_def os_ReadFile_def faulty_def split: content.splits)
next
  case (issue ts fs fs1)
  then show ?thesis
    using assms(3-5) frame_last [OF issue(4)] by (auto simp: IsProvisioned_def os_Stat_def faulty_def)
qed

lemma clearMarker_gone: "\<not> faulty en fs \<Longrightarrow> fs_files (snd (clearMarker en fs)) markerFile = None"
  by (simp add: clearMarker_def os_Remove_def split: option.split)

text \<open>A successful attempt without disk faults: resumed, or with the certificate just answered.\<close>

lemma completePhase_success:
  assumes "completePhase en pe token deadline s = Some (None, s')" and nf: "\<forall>n. os_fault en n = None"
  obtains k where "pe_complete pe token k = Inr ()" "fs_files (svc_fs s') markerFile = None"
    "\<And>g. visible g \<Longrightarrow> g \<noteq> markerFile \<Longrightarrow> fs_files (svc_fs s') g = fs_files (svc_fs s) g"
    "svc_completeFailed s' = svc_completeFailed s"
  using assms(1)
proof (cases rule: completePhase_cases)
  case (activated k)
  then show ?thesis
    using that [of k] frame_last [OF frame_clearMarker] clearMarker_gone [of en] nf by (simp add: faulty_def)
qed simp_all

lemma RunAttempt_success:
  assumes "RunAttempt en pe s = Some (None, s')" and nf: "\<forall>n. os_fault en n = None"
  obtains (resumed) token k where "pe_complete pe token k = Inr ()" "fs_files (svc_fs s') markerFile = None"
      "fs_files (svc_fs s') fileDeviceCert = fs_files (svc_fs s) fileDeviceCert"
      "fs_files (svc_fs s') fileDeviceID = fs_files (svc_fs s) fileDeviceID"
      "fs_files (svc_fs s) fileDeviceCert \<noteq> None" "fs_files (svc_fs s) fileDeviceID \<noteq> None"
  | (issued) token csr j k deviceID certPEM where "pe_submit pe token csr j = Inr (deviceID, certPEM)"
      "pe_complete pe token k = Inr ()" "fs_files (svc_fs s') markerFile = None"
      "fs_files (svc_fs s') fileDeviceCert = Some \<lparr>f_data = Text certPEM, f_mode = mode_0644\<rparr>"
      "fs_files (svc_fs s') fileDeviceID = Some \<lparr>f_data = Text deviceID, f_mode = mode_0644\<rparr>"
      "fs_files (svc_fs s') fileOrganizationID = fs_files (svc_fs s) fileOrganizationID"
      "svc_completeFailed s' = svc_completeFailed s"
  using assms(1)
proof (cases rule: RunAttempt_cases)
  case no_marker
  then show ?thesis by simp
next
  case (resume ts fs fs1)
  have creds: "fs_files (svc_fs s) fileDeviceCert \<noteq> None" "fs_files (svc_fs s) fileDeviceID \<noteq> None"
    using resume(5) frame_last [OF resume(4)]
    by (auto simp: IsProvisioned_def os_Stat_def split: if_splits option.splits)
  note f = frame_last [OF resume(2)]
  from resume(3) show ?thesis
  proof (cases rule: resumePhase_cases)
    case (complete s2 token)
    note f2 = frame_last [OF complete(1)]
    show ?thesis
      by (rule completePhase_success [OF complete(2) nf]) (rule resumed, use f f2 creds in simp_all)
  qed simp
next
  case (issue ts fs fs1)
  note f = frame_last [OF issue(2)]
  have o: "fileOrganizationID \<notin> issue_files" "fileOrganizationID \<noteq> markerFile"
    by (simp_all add: file_names markerFile_def)
  from issue(3) show ?thesis
  proof (cases rule: issuePhase_cases)
    case (failed e)
    then show ?thesis by simp
  next
    case (issued s2 token csr j deviceID certPEM)
    note f2 = frame_last [OF issued(1) _ o(1)]
    show ?thesis
      by (rule completePhase_success [OF issued(2) nf])
        (rule that(2) [OF issued(3)], use f f2 issued o in simp_all)
  qed
qed

text \<open>The success of the whole flow, without disk faults.\<close>

lemma Start_success:
  assumes "Start en pe now org s = Some (None, s')" and nf: "\<forall>n. os_fault en n = None"
  obtains token csr j k deviceID certPEM where "pe_submit pe token csr j = Inr (deviceID, certPEM)"
    "pe_complete pe token k = Inr ()" "fs_files (svc_fs s') markerFile = None"
    "fs_files (svc_fs s') fileDeviceCert = Some \<lparr>f_data = Text certPEM, f_mode = mode_0644\<rparr>"
    "fs_files (svc_fs s') fileDeviceID = Some \<lparr>f_data = Text deviceID, f_mode = mode_0644\<rparr>"
    "fs_files (svc_fs s') fileOrganizationID =
       (if org = [] then None else Some \<lparr>f_data = Text org, f_mode = mode_0644\<rparr>)"
    "svc_completeFailed s' = None"
proof -
  obtain s1 where b: "BeginProvisioning en now org s = (None, s1)" and run: "RunAttempt en pe s1 = Some (None, s')"
    using assms(1) by (auto simp: Start_def split: prod.splits option.splits)
  note files = BeginProvisioning_files [OF b]
  from run nf show ?thesis
  proof (cases rule: RunAttempt_success)
    case (resumed token k)
    then show ?thesis using files(2) by simp
  next
    case (issued token csr j k deviceID certPEM)
    show ?thesis by (rule that [OF issued(1-5)]) (use issued(6,7) files(4,5) in simp_all)
  qed
qed

section \<open>Properties of provisioning\<close>

text \<open>
  C11. A certificate that was never activated is not taken for a working one. Let an attempt run
  with the marker on disk, under any faults of the disk, the Provisioning API and the clock. If at
  any point the disk shows a certificate and a device id without the marker (what a restarted
  daemon reads as provisioned), then the attempt returned success after the API had answered
  \<open>provision/complete\<close>, or it returned the window's expiry, with the failure remembered, and
  the certificate is still there because its removal failed.
\<close>

theorem unactivated_never_provisioned:
  assumes "RunAttempt en pe s = Some (r, s')" and "fs_files (svc_fs s) markerFile \<noteq> None"
  shows "\<exists>new. fs_hist (svc_fs s') = fs_hist (svc_fs s) @ new \<and>
    (\<forall>d \<in> set new. d markerFile = None \<and> d fileDeviceCert \<noteq> None \<and> d fileDeviceID \<noteq> None \<longrightarrow>
       (r = None \<and> (\<exists>token k. pe_complete pe token k = Inr ())) \<or>
       (\<exists>e fs. r = Some (RetryWindowExpired e) \<and> svc_completeFailed s' = r \<and>
          fst (WipeCloudCredentials en fs) \<noteq> None))"
  using RunAttempt_accounted [OF assms]
  unfolding evolves_def looks_provisioned_def accounted_def by fast

text \<open>
  The environment and the board of the witnesses: the API answers at once; a board with old
  credentials, and one restarted with the marker and a certificate that is not activated.
\<close>

definition prompt :: loopenv where
  "prompt = \<lparr>le_start = 0, le_call = (\<lambda>_. 0), le_cancelled = (\<lambda>_. False), le_sleep = (\<lambda>_. Some 0)\<rparr>"

definition api_ok :: penv where
  "api_ok = \<lparr>pe_submit = (\<lambda>_ _ _. Inr (''device'', ''cert'')), pe_submit_env = prompt,
     pe_complete = (\<lambda>_ _. Inr ()), pe_complete_env = prompt, pe_token = (\<lambda>_. Inr ''token''),
     pe_uhwid = ''uhwid''\<rparr>"

definition old_board :: Service where
  "old_board = \<lparr>svc_fs = \<lparr>fs_files = [fileDeviceCert \<mapsto> \<lparr>f_data = Text ''old'', f_mode = mode_0644\<rparr>,
       fileDeviceID \<mapsto> \<lparr>f_data = Text ''id'', f_mode = mode_0644\<rparr>,
       fileProvisioningPrivKey \<mapsto> \<lparr>f_data = Text ''priv'', f_mode = mode_0600\<rparr>], fs_ops = 0, fs_hist = []\<rparr>,
     svc_completeFailed = None, svc_submits = 0, svc_completes = 0\<rparr>"

definition interrupted_board :: Service where
  "interrupted_board = old_board\<lparr>svc_fs := (svc_fs old_board)\<lparr>fs_files :=
     (fs_files (svc_fs old_board))(markerFile \<mapsto> marker_at 0)\<rparr>\<rparr>"

lemma interrupted_board_files:
  "fs_files (svc_fs interrupted_board) markerFile = Some (marker_at 0)"
  "fs_files (svc_fs interrupted_board) fileDeviceCert \<noteq> None"
  "fs_files (svc_fs interrupted_board) fileDeviceID \<noteq> None"
  by (simp_all add: interrupted_board_def old_board_def file_names markerFile_def)

theorem unactivated_never_provisioned_witness:
  "\<exists>r s' new. RunAttempt calm api_ok interrupted_board = Some (r, s') \<and> fs_hist (svc_fs s') = new \<and>
    (\<forall>d \<in> set new. looks_provisioned d \<longrightarrow> r = None \<or> svc_completeFailed s' = r)"
proof -
  obtain r s' where run: "RunAttempt calm api_ok interrupted_board = Some (r, s')"
    using RunAttempt_total [of calm api_ok interrupted_board] by blast
  have "fs_files (svc_fs interrupted_board) markerFile \<noteq> None" by (simp add: interrupted_board_files)
  from unactivated_never_provisioned [OF run this] run show ?thesis
    by (auto simp: looks_provisioned_def interrupted_board_def old_board_def)
qed

text \<open>
  C16. The prelude is crash-safe: when \<open>BeginProvisioning\<close> succeeds, every state the disk went
  through either still has every file as it was or holds the in-flight marker with this attempt's
  start; at the end the marker is there, the old certificate and device id are gone, the
  organization is the requested one (or none), and the state reads Provisioning until the window
  is over and Error from then on.
\<close>

theorem begin_crash_safe:
  assumes "BeginProvisioning en now org s = (None, s')"
  shows "(\<exists>new. fs_hist (svc_fs s') = fs_hist (svc_fs s) @ new \<and>
      (\<forall>d \<in> set new. (\<forall>g. visible g \<longrightarrow> d g = fs_files (svc_fs s) g) \<or>
         d markerFile = Some \<lparr>f_data = RFC3339Nano now, f_mode = mode_0600\<rparr>)) \<and>
    fs_files (svc_fs s') fileDeviceCert = None \<and> fs_files (svc_fs s') fileDeviceID = None \<and>
    fs_files (svc_fs s') fileOrganizationID =
      (if org = [] then None else Some \<lparr>f_data = Text org, f_mode = mode_0644\<rparr>) \<and>
    (\<forall>en2 t. \<not> faulty en2 (svc_fs s') \<longrightarrow> fst (ProvState_of en2 t s') =
       (if t < now + provisioningWindow then ProvStateProvisioning else ProvStateError))"
  using BeginProvisioning_files(2-4) [OF assms] BeginProvisioning_files(6) [OF assms]
    ProvState_in_flight [OF BeginProvisioning_files(5) [OF assms] BeginProvisioning_files(1) [OF assms]]
  unfolding evolves_def by blast

theorem begin_crash_safe_witness:
  "\<exists>s'. BeginProvisioning calm 5 ''org'' old_board = (None, s') \<and>
     fst (ProvState_of calm 6 s') = ProvStateProvisioning"
proof -
  have "fst (BeginProvisioning calm 5 ''org'' old_board) = None" by code_simp
  then obtain s' where b: "BeginProvisioning calm 5 ''org'' old_board = (None, s')" by (metis prod.collapse)
  have "\<not> faulty calm (svc_fs s')" by (simp add: faulty_def calm_def)
  then have "fst (ProvState_of calm 6 s') = ProvStateProvisioning"
    using begin_crash_safe [OF b] by (simp add: provisioningWindow_def second_def)
  with b show ?thesis by blast
qed



text \<open>
  Remark. A restart does not spend a second CSR: with the marker, the certificate and the device id
  on disk and no disk fault, the attempt never calls \<open>SubmitCSR\<close>; unless its window expires it
  leaves both credentials as they are, and unless it succeeds the marker too.
\<close>

theorem resume_reuses_certificate:
  assumes "RunAttempt en pe s = Some (r, s')" and "fs_files (svc_fs s) markerFile \<noteq> None"
    and "fs_files (svc_fs s) fileDeviceCert \<noteq> None" and "fs_files (svc_fs s) fileDeviceID \<noteq> None"
    and "\<forall>n. os_fault en n = None"
  shows "svc_submits s' = svc_submits s \<and>
    ((\<forall>e. r \<noteq> Some (RetryWindowExpired e)) \<longrightarrow>
       fs_files (svc_fs s') fileDeviceCert = fs_files (svc_fs s) fileDeviceCert \<and>
       fs_files (svc_fs s') fileDeviceID = fs_files (svc_fs s) fileDeviceID \<and>
       (r \<noteq> None \<longrightarrow> fs_files (svc_fs s') markerFile = fs_files (svc_fs s) markerFile))"
proof -
  obtain deadline fs where f: "frame {} (svc_fs s) fs"
    and res: "resumePhase en pe deadline (set_fs s fs) = Some (r, s')"
    using RunAttempt_resumes [OF assms] by blast
  note f1 = frame_last [OF f]
  from res show ?thesis
  proof (cases rule: resumePhase_cases)
    case (failed e)
    then show ?thesis using f1 frame_last [OF failed(2)] by simp
  next
    case (complete s1 token)
    note f2 = frame_last [OF complete(1)]
    from complete(2) show ?thesis
    proof (cases rule: completePhase_cases)
      case (activated k)
      then show ?thesis using f1 f2 complete(3) frame_last [OF frame_clearMarker] by simp
    qed (use f1 f2 complete(3) in simp_all)
  qed
qed

theorem resume_reuses_certificate_witness:
  "\<exists>r s'. RunAttempt calm api_ok interrupted_board = Some (r, s') \<and> svc_submits s' = 0"
proof -
  obtain r s' where run: "RunAttempt calm api_ok interrupted_board = Some (r, s')"
    using RunAttempt_total [of calm api_ok interrupted_board] by blast
  have "svc_submits s' = svc_submits interrupted_board"
    using resume_reuses_certificate [OF run] interrupted_board_files by (simp add: calm_def)
  with run show ?thesis by (simp add: interrupted_board_def old_board_def)
qed

text \<open>
  Remark. A whole provisioning: when \<open>Start\<close> succeeds on a disk without faults, the stored
  certificate and device id are the pair one call of \<open>SubmitCSR\<close> answered, \<open>provision/complete\<close>
  was answered for the same board token, the organization is the requested one, and from then on
  (in a later process too) the state reads Provisioned.
\<close>

theorem start_provisions:
  assumes "Start en pe now org s = Some (None, s')" and "\<forall>n. os_fault en n = None"
  shows "(\<exists>token csr j k deviceID certPEM. pe_submit pe token csr j = Inr (deviceID, certPEM) \<and>
      pe_complete pe token k = Inr () \<and>
      fs_files (svc_fs s') fileDeviceCert = Some \<lparr>f_data = Text certPEM, f_mode = mode_0644\<rparr> \<and>
      fs_files (svc_fs s') fileDeviceID = Some \<lparr>f_data = Text deviceID, f_mode = mode_0644\<rparr>) \<and>
    fs_files (svc_fs s') fileOrganizationID =
      (if org = [] then None else Some \<lparr>f_data = Text org, f_mode = mode_0644\<rparr>) \<and>
    (\<forall>t. fst (ProvState_of en t s') = ProvStateProvisioned)"
proof (rule Start_success [OF assms], goal_cases)
  case (1 token csr j k deviceID certPEM)
  have "fst (ProvState_of en t s') = ProvStateProvisioned" for t
    using 1 assms(2)
    by (simp add: ProvState_of_def markerTimestamp_def os_ReadFile_def faulty_def IsProvisioned_def os_Stat_def)
  with 1 show ?case by blast
qed

text \<open>The system calls and the replacement of a file on a calm disk.\<close>

lemma calm_simps:
  "\<not> faulty calm fs" "os_fault calm n = None" "os_rnd calm n = ''1''" "os_genkey calm n = Inr (''priv'', ''pub'')"
  "os_parsekey calm c = Inr ''key''" "os_csr calm u k = Inr ''csr''"
  by (simp_all add: faulty_def calm_def)

lemma calm_calls:
  "os_Stat calm p fs = (case fs_files fs p of None \<Rightarrow> Inl ErrNotExist | Some f \<Rightarrow> Inr f, tick fs)"
  "os_ReadFile calm p fs = (case fs_files fs p of None \<Rightarrow> Inl ErrNotExist | Some f \<Rightarrow> Inr (f_data f), tick fs)"
  "os_Remove calm p fs = (case fs_files fs p of
             None \<Rightarrow> (Some ErrNotExist, tick fs)
           | Some _ \<Rightarrow> (None, commit ((fs_files fs)(p := None)) (tick fs)))"
  by (simp_all add: os_Stat_def os_ReadFile_def os_Remove_def calm_simps)

definition calm_put :: "string \<Rightarrow> content \<Rightarrow> nat option \<Rightarrow> FS \<Rightarrow> FS" where
  "calm_put t c mode fs = snd (replace_file calm t c mode fs)"

lemma calm_replace_file:
  assumes "fs_files fs (''.'' @ t @ ''.tmp-1'') = None"
  shows "replace_file calm t c mode fs = (None, calm_put t c mode fs)"
    and "fs_files (calm_put t c mode fs) = (fs_files fs)(t \<mapsto>
      \<lparr>f_data = c, f_mode = (case mode of None \<Rightarrow> mode_0600 | Some m \<Rightarrow> m)\<rparr>)"
proof -
  have neq: "t \<noteq> ''.'' @ t @ ''.tmp-1''" "''.'' @ t @ ''.tmp-1'' \<noteq> t"
    using arg_cong [where f = length, of t "''.'' @ t @ ''.tmp-1''"] by auto
  have "fst (replace_file calm t c mode fs) = None \<and> fs_files (snd (replace_file calm t c mode fs)) =
      (fs_files fs)(t \<mapsto> \<lparr>f_data = c, f_mode = (case mode of None \<Rightarrow> mode_0600 | Some m \<Rightarrow> m)\<rparr>)"
    using assms neq
    by (cases mode)
      (auto simp: replace_file_def replace_body_def tmp_name_def os_CreateTemp_def os_Write_def os_Chmod_def
        os_Close_def os_Rename_def os_Remove_def calm_simps Let_def fun_upd_twist)
  then show "replace_file calm t c mode fs = (None, calm_put t c mode fs)"
    and "fs_files (calm_put t c mode fs) = (fs_files fs)(t \<mapsto>
      \<lparr>f_data = c, f_mode = (case mode of None \<Rightarrow> mode_0600 | Some m \<Rightarrow> m)\<rparr>)"
    by (simp_all add: calm_put_def prod_eq_iff)
qed

lemmas calm_runs = calm_simps calm_calls calm_replace_file Let_def set_fs_def prompt_def

lemma Start_calm:
  assumes "pe_submit pe ''token'' ''csr'' 0 = Inr x" and "pe_complete pe ''token'' 0 = Inr ()"
    and "pe_token pe = (\<lambda>_. Inr ''token'')"
  shows "\<exists>s'. Start calm pe 0 ''org'' old_board = Some (None, s') \<and>
    fs_files (svc_fs s') fileCloudPrivKey = Some \<lparr>f_data = Text ''priv'', f_mode = mode_0600\<rparr>"
proof -
  have "map_option (\<lambda>(r, s). (r, fs_files (svc_fs s) fileCloudPrivKey)) (Start calm pe 0 ''org'' old_board) =
      Some (None, Some \<lparr>f_data = Text ''priv'', f_mode = mode_0600\<rparr>)"
    by (cases x) (simp add: assms Start_def BeginProvisioning_def writeMarker_def WipeCloudCredentials_def RunAttempt_def
        issuePhase_def completePhase_def submitCSRWithRetry_def completeWithRetry_def retry_loop.simps
        StoreOrganizationID_def StoreDeviceCert_def StoreDeviceID_def RotateCloudKey_def ensureKeyPair_def
        GenerateCSR_def CloudPrivateKey_def loadPrivKey_def boardToken_def ProvisioningPrivateKey_def
        checkPrivKeyPermissions_def writeFile_def markerDeadline_def markerTimestamp_def IsProvisioned_def
        clearMarker_def setCompleteFailure_def calm_runs old_board_def file_names
        markerFile_def mode_0600_def mode_0644_def)
  then show ?thesis by auto
qed

theorem start_provisions_witness:
  "\<exists>s'. Start calm api_ok 0 ''org'' old_board = Some (None, s') \<and>
     fst (ProvState_of calm 1 s') = ProvStateProvisioned"
proof -
  obtain s' where run: "Start calm api_ok 0 ''org'' old_board = Some (None, s')"
    using Start_calm [of api_ok] by (auto simp: api_ok_def)
  have "\<forall>n. os_fault calm n = None" by (simp add: calm_def)
  from start_provisions [OF run this] run show ?thesis by blast
qed

text \<open>
  Remark. A prelude that fails after the wipe does not leave the board as it was: on a provisioned
  board, when only the last write of \<open>BeginProvisioning\<close> (the organization id) fails, the call
  returns an error, the marker is rolled back, and the board, provisioned before, is unprovisioned:
  the old certificate and device id are lost.
\<close>

theorem failed_prelude_loses_credentials:
  "\<exists>en e s'. fst (ProvState_of calm 0 old_board) = ProvStateProvisioned \<and>
     BeginProvisioning en 0 ''org'' old_board = (Some e, s') \<and>
     fst (ProvState_of calm 0 s') = ProvStateUnprovisioned"
proof -
  let ?en = "calm\<lparr>os_fault := (\<lambda>n. if n = 8 then Some 0 else None)\<rparr>"
  have "fst (ProvState_of calm 0 old_board) = ProvStateProvisioned" by code_simp
  moreover have "fst (BeginProvisioning ?en 0 ''org'' old_board) \<noteq> None" by code_simp
  moreover have "fst (ProvState_of calm 0 (snd (BeginProvisioning ?en 0 ''org'' old_board))) =
    ProvStateUnprovisioned" by code_simp
  ultimately show ?thesis by (metis option.exhaust prod.collapse)
qed

text \<open>
  Remark. The remembered failure does not survive a restart: there is a run in which the window
  expires, the removal of the certificate fails, the marker is cleared, and a new process (with
  nothing remembered) reads Provisioned although the API never answered \<open>provision/complete\<close>.
\<close>

theorem expired_certificate_survives_restart:
  "\<exists>en pe e s'. (\<forall>token k. \<exists>x. pe_complete pe token k = Inl x) \<and>
     RunAttempt en pe interrupted_board = Some (Some e, s') \<and>
     fst (ProvState_of calm 0 s') = ProvStateError \<and>
     fst (ProvState_of calm 0 (s'\<lparr>svc_completeFailed := None\<rparr>)) = ProvStateProvisioned"
proof -
  let ?pe = "api_ok\<lparr>pe_complete := (\<lambda>_ _. Inl ''503''), pe_complete_env := prompt\<lparr>le_start := provisioningWindow\<rparr>\<rparr>"
  let ?en = "calm\<lparr>os_fault := (\<lambda>n. if n = 5 then Some 0 else None)\<rparr>"
  obtain r s' where run: "RunAttempt ?en ?pe interrupted_board = Some (r, s')"
    using RunAttempt_total by blast
  have "map_option (\<lambda>(r, s'). (r \<noteq> None, fst (ProvState_of calm 0 s'),
      fst (ProvState_of calm 0 (s'\<lparr>svc_completeFailed := None\<rparr>)))) (RunAttempt ?en ?pe interrupted_board) =
    Some (True, ProvStateError, ProvStateProvisioned)" by code_simp
  then obtain e where "r = Some e" "fst (ProvState_of calm 0 s') = ProvStateError"
    "fst (ProvState_of calm 0 (s'\<lparr>svc_completeFailed := None\<rparr>)) = ProvStateProvisioned"
    using run by auto
  moreover have "\<forall>token k. \<exists>x. pe_complete ?pe token k = Inl x" by simp
  ultimately show ?thesis using run by blast
qed

end
