(* ===== verification/Daemon.thy ===== *)
theory Daemon
  imports Outbound Provisioning
begin

text \<open>
  The top-level state machine of \<open>internal/daemon/daemon.go\<close> over the provisioning service and
  the cloud FSM it supervises. Every state function is an entry part and a handler per case of its
  \<open>select\<close>; the steps of the attached cloud FSM interleave with those of the daemon, and the
  process may crash in any step, at any state the disk passes through, and restart. The lemmas
  show that a cloud connection is only opened with an activated certificate, that credentials are
  never changed under a live cloud FSM, what \<open>Reprovision\<close> answers, and that a cancelled cloud
  FSM stops.
\<close>

section \<open>State\<close>

text \<open>
  The control point of \<open>Run\<close>. \<open>WaitInternet\<close> holds the delay of the next probe, \<open>Attempting\<close> is
  the running provisioning attempt, \<open>StoppingCloud\<close> waits for the end of the cloud FSM, to serve a
  reprovision request (the organization) or to return.
\<close>

datatype daemonStateFn =
    runCheckInternet | WaitInternet duration
  | runProvisioning bool | Attempting | WaitCommand
  | runRun | WaitRun | StoppingCloud "string option"
  | DaemonReturned

text \<open>
  \<open>d_svc\<close> holds the disk. The registry is shared with the cloud FSM: while one is attached, its
  \<open>f_reg\<close> is the current one. \<open>d_replies\<close> are the results sent to the callers of \<open>Reprovision\<close>,
  \<open>d_activated\<close> records the certificates whose attempt returned success.
\<close>

record Daemon =
  d_svc :: Service
  d_reg :: Registry
  d_state :: DaemonState
  d_snapshot :: DaemonSnapshot
  d_cloud :: "FSM option"
  d_pc :: daemonStateFn
  d_replies :: "prov_error option list"
  d_activated :: "content list"

text \<open>What a step of the daemon sees: system calls, the Provisioning API, the clock, the context.\<close>

record denv =
  dn_os :: osenv
  dn_prov :: penv
  dn_now :: time
  dn_cancelled :: bool
  dn_version :: string
  dn_format :: "time \<Rightarrow> string"

definition internetCheckBackoff :: duration where
  "internetCheckBackoff = 5 * second"

definition internetCheckTimeout :: duration where
  "internetCheckTimeout = 5 * second"

definition New_daemon :: "Registry \<Rightarrow> Service \<Rightarrow> Daemon" where
  "New_daemon reg svc =
     \<lparr>d_svc = svc, d_reg = reg, d_state = StateCheckInternet,
      d_snapshot = \<lparr>ds_State = StateCheckInternet, ds_Cloud = None\<rparr>,
      d_cloud = None, d_pc = runCheckInternet, d_replies = [], d_activated = []\<rparr>"

definition Snapshot_daemon :: "Daemon \<Rightarrow> DaemonSnapshot" where
  "Snapshot_daemon d =
     (case d_cloud d of
        None \<Rightarrow> d_snapshot d
      | Some f \<Rightarrow> (d_snapshot d)\<lparr>ds_Cloud := Some (f_snapshot f)\<rparr>)"

definition transition_daemon :: "DaemonState \<Rightarrow> Daemon \<Rightarrow> Daemon" where
  "transition_daemon state d =
     d\<lparr>d_state := state,
       d_snapshot := \<lparr>ds_State = state,
         ds_Cloud = (if state \<noteq> StateRun then None else ds_Cloud (d_snapshot d))\<rparr>\<rparr>"

definition attachCloud :: "FSM \<Rightarrow> Daemon \<Rightarrow> Daemon" where
  "attachCloud f d = d\<lparr>d_cloud := Some f\<rparr>"

text \<open>The registry stays with the daemon when the cloud FSM is gone.\<close>

definition detachCloud :: "Daemon \<Rightarrow> Daemon" where
  "detachCloud d =
     d\<lparr>d_reg := (case d_cloud d of None \<Rightarrow> d_reg d | Some f \<Rightarrow> f_reg f), d_cloud := None,
       d_snapshot := (d_snapshot d)\<lparr>ds_Cloud := None\<rparr>\<rparr>"

definition goto_daemon :: "daemonStateFn \<Rightarrow> Daemon \<Rightarrow> Daemon" where
  "goto_daemon pc d = d\<lparr>d_pc := pc\<rparr>"

section \<open>The internet check\<close>

text \<open>
  The outcomes of the probe's calls: the dial, the write of a request, the read of any answer. A
  48-byte NTPv3 client request; the socket deadline is the earlier of the timeout and the context's.
\<close>

record probe =
  pr_dial :: bool
  pr_write :: "time \<Rightarrow> bytes \<Rightarrow> bool"
  pr_read :: "time \<Rightarrow> bool"

definition ntp_request :: bytes where
  "ntp_request = (replicate 48 0)[0 := 0x1B]"

definition probe_deadline :: "time \<Rightarrow> time option \<Rightarrow> time" where
  "probe_deadline now ctx_deadline =
     (let deadline = now + internetCheckTimeout
      in case ctx_deadline of None \<Rightarrow> deadline | Some t \<Rightarrow> if t < deadline then t else deadline)"

definition isInternetReachable :: "probe \<Rightarrow> time \<Rightarrow> time option \<Rightarrow> bool" where
  "isInternetReachable pr now ctx_deadline =
     (if \<not> pr_dial pr then False
      else let deadline = probe_deadline now ctx_deadline
           in if \<not> pr_write pr deadline ntp_request then False
              else if \<not> pr_read pr deadline then False
              else True)"

definition pickPostInternetState :: "denv \<Rightarrow> Daemon \<Rightarrow> Daemon" where
  "pickPostInternetState en d =
     (case ProvState_of (dn_os en) (dn_now en) (d_svc d) of
        (st, svc) \<Rightarrow>
          goto_daemon
            (case st of
               ProvStateProvisioning \<Rightarrow> runProvisioning True
             | ProvStateProvisioned \<Rightarrow> runRun
             | _ \<Rightarrow> runProvisioning False)
            (d\<lparr>d_svc := svc\<rparr>))"

definition CheckInternet_entry :: "Daemon \<Rightarrow> Daemon" where
  "CheckInternet_entry d = goto_daemon (WaitInternet 0) (transition_daemon StateCheckInternet d)"

definition CheckInternet_timer :: "denv \<Rightarrow> bool \<Rightarrow> Daemon \<Rightarrow> Daemon" where
  "CheckInternet_timer en reachable d =
     (if reachable then pickPostInternetState en d
      else goto_daemon (WaitInternet internetCheckBackoff) d)"

section \<open>Provisioning\<close>

definition Provisioning_entry :: "bool \<Rightarrow> Daemon \<Rightarrow> Daemon" where
  "Provisioning_entry runAttemptNow d =
     goto_daemon (if runAttemptNow then Attempting else WaitCommand) (transition_daemon StateProvisioning d)"

text \<open>The attempt; the record of activated certificates is that of the model, not of the code.\<close>

definition cert_data :: "FS \<Rightarrow> content list" where
  "cert_data fs = (case fs_files fs fileDeviceCert of None \<Rightarrow> [] | Some f \<Rightarrow> [f_data f])"

definition Provisioning_attempt :: "denv \<Rightarrow> Daemon \<Rightarrow> Daemon option" where
  "Provisioning_attempt en d =
     (case RunAttempt (dn_os en) (dn_prov en) (d_svc d) of
        None \<Rightarrow> None
      | Some (Some err, svc) \<Rightarrow>
          Some (goto_daemon (if dn_cancelled en then DaemonReturned else WaitCommand) (d\<lparr>d_svc := svc\<rparr>))
      | Some (None, svc) \<Rightarrow>
          Some (goto_daemon runRun
            (d\<lparr>d_svc := svc, d_activated := d_activated d @ cert_data (svc_fs svc)\<rparr>)))"

text \<open>The second component is the value \<open>beginReprovision\<close> returns.\<close>

definition beginReprovision :: "denv \<Rightarrow> string \<Rightarrow> Daemon \<Rightarrow> Daemon \<times> bool" where
  "beginReprovision en organizationID d =
     (case BeginProvisioning (dn_os en) (dn_now en) organizationID (d_svc d) of
        (err, svc) \<Rightarrow> (d\<lparr>d_svc := svc, d_replies := d_replies d @ [err]\<rparr>, err = None))"

definition Provisioning_command :: "denv \<Rightarrow> string \<Rightarrow> Daemon \<Rightarrow> Daemon" where
  "Provisioning_command en organizationID d =
     (case beginReprovision en organizationID d of
        (d, proceed) \<Rightarrow> goto_daemon (if proceed then Attempting else WaitCommand) d)"

section \<open>Run\<close>

definition content_string :: "denv \<Rightarrow> content \<Rightarrow> string" where
  "content_string en c = (case c of Text s \<Rightarrow> s | RFC3339Nano t \<Rightarrow> dn_format en t)"

definition read_deviceID :: "denv \<Rightarrow> FS \<Rightarrow> (string, string) result \<times> FS" where
  "read_deviceID en fs =
     (case DeviceID (dn_os en) fs of
        (Inl _, fs) \<Rightarrow> (Inl ''device_id'', fs)
      | (Inr c, fs) \<Rightarrow> (Inr (content_string en c), fs))"

definition Run_entry :: "denv \<Rightarrow> Daemon \<Rightarrow> Daemon" where
  "Run_entry en d =
     (let d = transition_daemon StateRun d
      in case read_deviceID en (svc_fs (d_svc d)) of
           (dev, fs) \<Rightarrow>
             let d = d\<lparr>d_svc := set_fs (d_svc d) fs\<rparr>
             in (case New (dn_version en) dev (d_reg d) of
                   Inl _ \<Rightarrow> goto_daemon runCheckInternet d
                 | Inr f \<Rightarrow> goto_daemon WaitRun (attachCloud f d)))"

definition Run_cancelled :: "Daemon \<Rightarrow> Daemon" where
  "Run_cancelled d = goto_daemon (StoppingCloud None) d"

definition Run_command :: "string \<Rightarrow> Daemon \<Rightarrow> Daemon" where
  "Run_command organizationID d = goto_daemon (StoppingCloud (Some organizationID)) d"

text \<open>After \<open><-f.Done()\<close>.\<close>

definition Run_stopped :: "denv \<Rightarrow> string option \<Rightarrow> Daemon \<Rightarrow> Daemon" where
  "Run_stopped en request d =
     (let d = detachCloud d
      in case request of
           None \<Rightarrow> goto_daemon DaemonReturned d
         | Some organizationID \<Rightarrow>
             (case beginReprovision en organizationID d of
                (d, proceed) \<Rightarrow> goto_daemon (runProvisioning proceed) d))"

section \<open>Requests\<close>

text \<open>
  The command channel is unbuffered: the non-blocking send succeeds exactly when the daemon waits
  in a \<open>select\<close> that receives commands, and the daemon takes the command in the same step.
\<close>

definition parked :: "daemonStateFn \<Rightarrow> bool" where
  "parked pc \<longleftrightarrow> pc = WaitCommand \<or> pc = WaitRun"

definition Reprovision :: "denv \<Rightarrow> string \<Rightarrow> Daemon \<Rightarrow> (daemon_error, Daemon) result" where
  "Reprovision en organizationID d =
     (case d_pc d of
        WaitCommand \<Rightarrow> Inr (Provisioning_command en organizationID d)
      | WaitRun \<Rightarrow> Inr (Run_command organizationID d)
      | _ \<Rightarrow> Inl ErrBusy)"

text \<open>What the caller gets: the reply, or its own context's error, whichever the \<open>select\<close> takes.\<close>

definition Reprovision_result ::
  "prov_error option option \<Rightarrow> bool \<Rightarrow> (daemon_error, prov_error option) result set" where
  "Reprovision_result reply ctx_done =
     (case reply of None \<Rightarrow> {} | Some err \<Rightarrow> {Inr err}) \<union> (if ctx_done then {Inl ContextCancelled} else {})"

section \<open>Steps\<close>

definition daemon_enter :: "denv \<Rightarrow> Daemon \<Rightarrow> Daemon option" where
  "daemon_enter en d =
     (case d_pc d of
        runCheckInternet \<Rightarrow> Some (CheckInternet_entry d)
      | runProvisioning b \<Rightarrow> Some (Provisioning_entry b d)
      | Attempting \<Rightarrow> Provisioning_attempt en d
      | runRun \<Rightarrow> Some (Run_entry en d)
      | _ \<Rightarrow> None)"

definition daemon_cancel :: "Daemon \<Rightarrow> Daemon option" where
  "daemon_cancel d =
     (case d_pc d of
        WaitInternet _ \<Rightarrow> Some (goto_daemon DaemonReturned d)
      | WaitCommand \<Rightarrow> Some (goto_daemon DaemonReturned d)
      | WaitRun \<Rightarrow> Some (Run_cancelled d)
      | _ \<Rightarrow> None)"

text \<open>The context of the cloud FSM is cancelled once the daemon wants it to stop.\<close>

definition cloud_cancelled :: "Daemon \<Rightarrow> bool" where
  "cloud_cancelled d \<longleftrightarrow> (case d_pc d of StoppingCloud _ \<Rightarrow> True | _ \<Rightarrow> False)"

datatype daemon_label =
    EnterD denv | Probe denv bool | CancelD | Request denv string | CloudDone denv
  | CloudStep fsm_label | RegistryD reg_op

inductive daemon_step ::
  "(f64 \<Rightarrow> int) \<Rightarrow> decoder \<Rightarrow> (denv \<Rightarrow> bool) \<Rightarrow> Daemon \<Rightarrow> daemon_label \<Rightarrow> Daemon \<Rightarrow> bool"
  for oob :: "f64 \<Rightarrow> int" and decode :: decoder and ok :: "denv \<Rightarrow> bool" where
  step_enterD: "daemon_enter en d = Some d' \<Longrightarrow> ok en \<Longrightarrow> daemon_step oob decode ok d (EnterD en) d'"
| step_probe: "d_pc d = WaitInternet delay \<Longrightarrow> ok en \<Longrightarrow>
     daemon_step oob decode ok d (Probe en reachable) (CheckInternet_timer en reachable d)"
| step_cancelD: "daemon_cancel d = Some d' \<Longrightarrow> daemon_step oob decode ok d CancelD d'"
| step_request: "Reprovision en org d = Inr d' \<Longrightarrow> ok en \<Longrightarrow>
     daemon_step oob decode ok d (Request en org) d'"
| step_done: "d_pc d = StoppingCloud req \<Longrightarrow> d_cloud d = Some f \<Longrightarrow> f_pc f = Finished \<Longrightarrow> ok en \<Longrightarrow>
     daemon_step oob decode ok d (CloudDone en) (Run_stopped en req d)"
| step_cloud: "d_cloud d = Some f \<Longrightarrow> fsm_step oob decode f l f' \<Longrightarrow>
     (l = Cancel \<longrightarrow> cloud_cancelled d) \<Longrightarrow>
     daemon_step oob decode ok d (CloudStep l) (d\<lparr>d_cloud := Some f'\<rparr>)"
| step_registryD: "d_cloud d = None \<Longrightarrow> reg_step (d_reg d) op r \<Longrightarrow>
     daemon_step oob decode ok d (RegistryD op) (d\<lparr>d_reg := r\<rparr>)"

text \<open>
  A process with crashes: a step may be cut short at any state of the disk within it, and a new
  process starts there with nothing in memory. An activation counts when the step reached its end.
\<close>

definition reboot :: "Registry \<Rightarrow> disk \<Rightarrow> content list \<Rightarrow> Daemon" where
  "reboot reg dk act =
     (New_daemon reg \<lparr>svc_fs = \<lparr>fs_files = dk, fs_ops = 0, fs_hist = []\<rparr>, svc_completeFailed = None,
        svc_submits = 0, svc_completes = 0\<rparr>)\<lparr>d_activated := act\<rparr>"

abbreviation d_fs :: "Daemon \<Rightarrow> FS" where
  "d_fs d \<equiv> svc_fs (d_svc d)"

abbreviation d_disk :: "Daemon \<Rightarrow> disk" where
  "d_disk d \<equiv> fs_files (d_fs d)"

inductive process_step ::
  "(f64 \<Rightarrow> int) \<Rightarrow> decoder \<Rightarrow> (denv \<Rightarrow> bool) \<Rightarrow> Daemon \<Rightarrow> daemon_label option \<Rightarrow> Daemon \<Rightarrow> bool"
  for oob :: "f64 \<Rightarrow> int" and decode :: decoder and ok :: "denv \<Rightarrow> bool" where
  live: "daemon_step oob decode ok d l d' \<Longrightarrow> process_step oob decode ok d (Some l) d'"
| crash: "daemon_step oob decode ok d l d' \<Longrightarrow> fs_hist (d_fs d') = fs_hist (d_fs d) @ new \<Longrightarrow>
     dk \<in> set (d_disk d # new) \<Longrightarrow>
     process_step oob decode ok d None
       (reboot reg dk (if dk = d_disk d' then d_activated d' else d_activated d))"

definition booted :: "Daemon \<Rightarrow> bool" where
  "booted d \<longleftrightarrow> (\<exists>reg dk. d = reboot reg dk [] \<and> \<not> looks_provisioned dk)"

section \<open>Shape of the states\<close>

text \<open>What the control point says about the published state and the attached cloud FSM.\<close>

fun pc_state :: "daemonStateFn \<Rightarrow> DaemonState option" where
  "pc_state (WaitInternet _) = Some StateCheckInternet"
| "pc_state Attempting = Some StateProvisioning"
| "pc_state WaitCommand = Some StateProvisioning"
| "pc_state WaitRun = Some StateRun"
| "pc_state (StoppingCloud _) = Some StateRun"
| "pc_state _ = None"

definition daemon_shape :: "Daemon \<Rightarrow> bool" where
  "daemon_shape d \<longleftrightarrow>
     (d_cloud d \<noteq> None \<longleftrightarrow> d_pc d = WaitRun \<or> (\<exists>req. d_pc d = StoppingCloud req)) \<and>
     d_snapshot d = \<lparr>ds_State = d_state d, ds_Cloud = None\<rparr> \<and>
     (\<forall>st. pc_state (d_pc d) = Some st \<longrightarrow> d_state d = st) \<and>
     (\<forall>f. d_cloud d = Some f \<longrightarrow> fsm_inv f)"

lemmas daemon_defs = goto_daemon_def transition_daemon_def attachCloud_def detachCloud_def
  CheckInternet_entry_def CheckInternet_timer_def pickPostInternetState_def Provisioning_entry_def
  Provisioning_attempt_def beginReprovision_def Provisioning_command_def Run_cancelled_def
  Run_command_def Run_stopped_def Run_entry_def daemon_enter_def daemon_cancel_def Reprovision_def

lemma enter_shape: "daemon_enter en d = Some d' \<Longrightarrow> daemon_shape d \<Longrightarrow> daemon_shape d'"
  by (auto simp: daemon_shape_def daemon_defs New_def Let_def fsm_inv_newFSM
      split: daemonStateFn.splits option.splits prod.splits sum.splits if_splits ProvState.splits)

lemma step_shape: "daemon_step oob decode ok d l d' \<Longrightarrow> daemon_shape d \<Longrightarrow> daemon_shape d'"
proof (induction rule: daemon_step.induct)
  case (step_enterD en d d')
  then show ?case using enter_shape by blast
next
  case (step_cloud d f l f')
  then show ?case using fsm_step_inv by (auto simp: daemon_shape_def)
qed (auto simp: daemon_shape_def daemon_defs Let_def
    split: daemonStateFn.splits prod.splits option.splits if_splits ProvState.splits)

lemma reboot_shape: "daemon_shape (reboot reg dk act)"
  by (simp add: daemon_shape_def reboot_def New_daemon_def)

lemma process_shape: "process_step oob decode ok d l d' \<Longrightarrow> daemon_shape d \<Longrightarrow> daemon_shape d'"
  by (induction rule: process_step.induct) (auto intro: step_shape reboot_shape)

interpretation daemon: invariant_system booted "process_step oob decode ok" daemon_shape for oob decode ok
  by unfold_locales (auto simp: booted_def reboot_shape intro: process_shape)

section \<open>Certificates\<close>

definition no_faults :: "denv \<Rightarrow> bool" where
  "no_faults en \<longleftrightarrow> (\<forall>n. os_fault (dn_os en) n = None)"

text \<open>A disk that looks provisioned holds an activated certificate.\<close>

definition cert_ok :: "content list \<Rightarrow> disk \<Rightarrow> bool" where
  "cert_ok act dk \<longleftrightarrow> looks_provisioned dk \<longrightarrow> (\<exists>f. dk fileDeviceCert = Some f \<and> f_data f \<in> set act)"

fun in_run :: "daemonStateFn \<Rightarrow> bool" where
  "in_run runRun = True"
| "in_run WaitRun = True"
| "in_run (StoppingCloud _) = True"
| "in_run _ = False"

definition cert_inv :: "Daemon \<Rightarrow> bool" where
  "cert_inv d \<longleftrightarrow> cert_ok (d_activated d) (d_disk d) \<and> (in_run (d_pc d) \<longrightarrow> looks_provisioned (d_disk d))"

text \<open>
  A step that keeps the certificates accounted for: every state of the disk within it is, by the
  activations before the step or, at the last state, after it.
\<close>

definition cert_step :: "Daemon \<Rightarrow> Daemon \<Rightarrow> bool" where
  "cert_step d d' \<longleftrightarrow> cert_inv d' \<and>
     evolves (\<lambda>dk. cert_ok (if dk = d_disk d' then d_activated d' else d_activated d) dk) (d_fs d) (d_fs d')"

lemma looks_provisioned_cong:
  "(\<And>g. visible g \<Longrightarrow> dk g = dk' g) \<Longrightarrow> looks_provisioned dk = looks_provisioned dk'"
  by (simp add: looks_provisioned_def)

lemma cert_ok_cong: "(\<And>g. visible g \<Longrightarrow> dk g = dk' g) \<Longrightarrow> cert_ok act dk = cert_ok act dk'"
  using looks_provisioned_cong [of dk dk'] by (simp add: cert_ok_def)

text \<open>A step that leaves the credentials alone.\<close>

lemma cert_step_same:
  assumes "cert_inv d" and "evolves (\<lambda>_. False) (d_fs d) (d_fs d')" and "d_activated d' = d_activated d"
    and "in_run (d_pc d') \<Longrightarrow> looks_provisioned (d_disk d)"
  shows "cert_step d d'"
proof -
  have "d_disk d' = d_disk d" using assms(2) by (simp add: evolves_def)
  then show ?thesis using assms by (auto simp: cert_step_def cert_inv_def elim: evolves_mono)
qed

text \<open>A step that only writes certificates already accounted for, or none.\<close>

lemma cert_step_old:
  assumes "cert_inv d" and "d_activated d' = d_activated d" and "\<not> in_run (d_pc d')"
    and "evolves (\<lambda>dk. looks_provisioned dk \<longrightarrow> (\<forall>g. visible g \<longrightarrow> dk g = d_disk d g)) (d_fs d) (d_fs d')"
      (is "evolves ?P _ _")
  shows "cert_step d d'"
proof -
  have P: "cert_ok (d_activated d) dk" if "?P dk" for dk
    using that assms(1) cert_ok_cong [of dk "d_disk d"] by (auto simp: cert_inv_def cert_ok_def)
  have "evolves (cert_ok (d_activated d)) (d_fs d) (d_fs d')" using assms(4) P by (rule evolves_mono)
  moreover have "cert_ok (d_activated d) (d_disk d')" using evolves_last [OF assms(4)] P by simp
  ultimately show ?thesis using assms(2,3) by (auto simp: cert_step_def cert_inv_def elim: evolves_mono)
qed

lemma begin_cert_step:
  assumes "cert_inv d" and "no_faults en" and "\<not> in_run (d_pc d')"
    and "BeginProvisioning (dn_os en) (dn_now en) org (d_svc d) = (r, d_svc d')"
    and "d_activated d' = d_activated d"
  shows "cert_step d d'"
  using assms(1,5,3) BeginProvisioning_calm [OF assms(4)] assms(2)
  by (intro cert_step_old) (simp_all add: no_faults_def)

lemma RunAttempt_no_marker:
  assumes "RunAttempt en pe s = Some (r, s')" and "fs_files (svc_fs s) markerFile = None"
  shows "r \<noteq> None \<and> evolves (\<lambda>_. False) (svc_fs s) (svc_fs s')"
proof -
  have "markerDeadline en (svc_fs s) = (None, tick (svc_fs s))"
    using assms(2) by (simp add: markerDeadline_def markerTimestamp_def os_ReadFile_def)
  then show ?thesis using assms(1) by (auto simp: RunAttempt_def)
qed

lemma attempt_cert_step:
  assumes inv: "cert_inv d" and nf: "no_faults en" and "d_pc d = Attempting"
    and att: "Provisioning_attempt en d = Some d'"
  shows "cert_step d d'"
proof -
  obtain r s' where run: "RunAttempt (dn_os en) (dn_prov en) (d_svc d) = Some (r, s')"
    and d': "d_svc d' = s'" "d_activated d' = (if r = None then d_activated d @ cert_data (svc_fs s') else d_activated d)"
      "d_pc d' = (if r = None then runRun else if dn_cancelled en then DaemonReturned else WaitCommand)"
    using att by (auto simp: Provisioning_attempt_def goto_daemon_def split: option.splits)
  have nf': "\<forall>n. os_fault (dn_os en) n = None" using nf by (simp add: no_faults_def)
  show ?thesis
  proof (cases "d_disk d markerFile")
    case None
    note nm = RunAttempt_no_marker [OF run None]
    show ?thesis by (rule cert_step_same [OF inv]) (use nm d' in \<open>auto split: if_splits\<close>)
  next
    case (Some m)
    have acc: "evolves (\<lambda>dk. looks_provisioned dk \<longrightarrow> r = None \<and> dk = d_disk d') (d_fs d) (d_fs d')"
      unfolding d'(1)
      by (rule evolves_mono [OF RunAttempt_accounted [OF run]])
        (use Some Wipe_calm [OF nf'] in \<open>auto simp: accounted_def\<close>)
    show ?thesis
    proof (cases r)
      case None
      have looks: "looks_provisioned (d_disk d')"
        using RunAttempt_success [OF run [unfolded None] nf'] unfolding d'(1) looks_provisioned_def by (metis option.distinct(1))
      then obtain f where f: "d_disk d' fileDeviceCert = Some f" by (auto simp: looks_provisioned_def)
      then have "cert_ok (d_activated d') (d_disk d')" using None d' by (simp add: cert_ok_def cert_data_def)
      then show ?thesis
        using looks None d' acc by (auto simp: cert_step_def cert_inv_def cert_ok_def elim!: evolves_mono)
    next
      case (Some e)
      show ?thesis
        by (rule cert_step_old [OF inv]) (use Some d' acc in \<open>auto elim!: evolves_mono\<close>)
    qed
  qed
qed

text \<open>The readers leave the disk alone.\<close>

lemma quiet_reads:
  "evolves (\<lambda>_. False) fs (snd (markerTimestamp en fs))" "evolves (\<lambda>_. False) fs (snd (DeviceID en fs))"
  "evolves (\<lambda>_. False) fs (snd (IsProvisioned en fs))"
  using evolves_trans [OF evolves_tick evolves_tick, of "\<lambda>_. False" fs]
  by (auto simp: markerTimestamp_def DeviceID_def read_credential_def os_ReadFile_def IsProvisioned_def os_Stat_def
      split: option.splits content.splits if_splits)

lemma quiet_ProvState: "evolves (\<lambda>_. False) (svc_fs s) (svc_fs (snd (ProvState_of en now s)))"
proof -
  let ?m = "markerTimestamp en (svc_fs s)"
  have "evolves (\<lambda>_. False) (svc_fs s) (snd (IsProvisioned en (snd ?m)))"
    using quiet_reads(1) quiet_reads(3) by (rule evolves_trans)
  then show ?thesis
    using quiet_reads(1) [of "svc_fs s" en]
    by (auto simp: ProvState_of_def split: option.splits prod.splits)
qed

lemma ProvState_provisioned:
  assumes "fst (ProvState_of en now s) = ProvStateProvisioned" and "\<forall>n. os_fault en n = None"
  shows "looks_provisioned (fs_files (svc_fs s))"
  using assms
  by (auto simp: ProvState_of_def looks_provisioned_def markerTimestamp_def os_ReadFile_def faulty_def
      IsProvisioned_def os_Stat_def split: if_splits option.splits content.splits)

lemma pick_cert_step:
  assumes "cert_inv d" and "no_faults en" and "d_pc d = WaitInternet delay"
  shows "cert_step d (pickPostInternetState en d)"
proof -
  let ?st = "ProvState_of (dn_os en) (dn_now en) (d_svc d)"
  have pick: "d_svc (pickPostInternetState en d) = snd ?st"
    "d_activated (pickPostInternetState en d) = d_activated d"
    "in_run (d_pc (pickPostInternetState en d)) \<longleftrightarrow> fst ?st = ProvStateProvisioned"
    by (auto simp: pickPostInternetState_def goto_daemon_def split: prod.split ProvState.split)
  show ?thesis
    by (rule cert_step_same [OF assms(1)])
      (use pick quiet_ProvState ProvState_provisioned [of "dn_os en" "dn_now en" "d_svc d"] assms(2)
        in \<open>auto simp: no_faults_def\<close>)
qed

lemma run_entry_cert_step:
  assumes "cert_inv d" and "d_pc d = runRun"
  shows "cert_step d (Run_entry en d)"
proof -
  let ?fs = "snd (DeviceID (dn_os en) (d_fs d))"
  have "d_fs (Run_entry en d) = ?fs" "d_activated (Run_entry en d) = d_activated d"
    by (auto simp: Run_entry_def daemon_defs read_deviceID_def Let_def New_def split: prod.split sum.split)
  then show ?thesis
    using cert_step_same [OF assms(1), of "Run_entry en d"] quiet_reads(2) [of "d_fs d"] assms
    by (simp add: cert_inv_def)
qed

lemma request_cert_step:
  assumes "cert_inv d" and "no_faults en" and "Reprovision en org d = Inr d'"
  shows "cert_step d d'"
proof -
  consider "d_pc d = WaitCommand" "d' = Provisioning_command en org d"
    | "d_pc d = WaitRun" "d' = Run_command org d"
    using assms(3) by (auto simp: Reprovision_def split: daemonStateFn.splits)
  then show ?thesis
  proof cases
    case 1
    obtain r svc where b: "BeginProvisioning (dn_os en) (dn_now en) org (d_svc d) = (r, svc)" by fastforce
    show ?thesis
      by (rule begin_cert_step [OF assms(1,2), of d' org r])
        (simp_all add: 1 b Provisioning_command_def beginReprovision_def goto_daemon_def)
  next
    case 2
    then show ?thesis using assms(1)
      by (intro cert_step_same) (simp_all add: Run_command_def goto_daemon_def cert_inv_def)
  qed
qed

lemma stopped_cert_step:
  assumes "cert_inv d" and "no_faults en"
  shows "cert_step d (Run_stopped en req d)"
proof (cases req)
  case None
  then show ?thesis using assms(1)
    by (intro cert_step_same) (auto simp: Run_stopped_def detachCloud_def goto_daemon_def)
next
  case (Some org)
  obtain r svc where b: "BeginProvisioning (dn_os en) (dn_now en) org (d_svc d) = (r, svc)" by fastforce
  show ?thesis
    by (rule begin_cert_step [OF assms, of _ org r])
      (simp_all add: Some b Run_stopped_def beginReprovision_def detachCloud_def goto_daemon_def Let_def)
qed

lemma step_cert: "daemon_step oob decode no_faults d l d' \<Longrightarrow> cert_inv d \<Longrightarrow> cert_step d d'"
proof (induction rule: daemon_step.induct)
  case (step_enterD en d d')
  have "cert_step d (CheckInternet_entry d)" "cert_step d (Provisioning_entry b d)" for b
    by (rule cert_step_same [OF step_enterD.prems]; simp add: daemon_defs split: if_splits)+
  then show ?case
    using step_enterD attempt_cert_step [of d en d'] run_entry_cert_step [of d en]
    by (auto simp: daemon_enter_def split: daemonStateFn.splits)
next
  case (step_probe d delay en reachable)
  have "cert_step d (goto_daemon (WaitInternet internetCheckBackoff) d)"
    by (rule cert_step_same [OF step_probe.prems]) (simp_all add: goto_daemon_def)
  then show ?case using step_probe pick_cert_step [of d en delay] by (simp add: CheckInternet_timer_def)
next
  case (step_cancelD d d')
  then show ?case
    by (intro cert_step_same)
      (auto simp: daemon_cancel_def goto_daemon_def Run_cancelled_def cert_inv_def
        split: daemonStateFn.splits)
next
  case (step_request en org d d')
  then show ?case by (intro request_cert_step [of d en org d'])
next
  case (step_done d req f en)
  then show ?case by (intro stopped_cert_step) auto
next
  case (step_cloud d f l f')
  then show ?case by (intro cert_step_same) (auto simp: cert_inv_def)
next
  case (step_registryD d op r)
  then show ?case by (intro cert_step_same) (auto simp: cert_inv_def)
qed

lemma process_cert: "process_step oob decode no_faults d l d' \<Longrightarrow> cert_inv d \<Longrightarrow> cert_inv d'"
proof (induction rule: process_step.induct)
  case (live d l d')
  then show ?case using step_cert by (simp add: cert_step_def)
next
  case (crash d l d' new dk reg)
  have st: "cert_step d d'" using crash step_cert by blast
  have "cert_ok (if dk = d_disk d' then d_activated d' else d_activated d) dk"
  proof (cases "dk \<in> set new")
    case True
    then show ?thesis using st crash.hyps(2) by (auto simp: cert_step_def evolves_def)
  next
    case False
    then have "dk = d_disk d" using crash.hyps(3) by simp
    then show ?thesis using st crash.prems by (auto simp: cert_step_def cert_inv_def)
  qed
  then show ?case by (simp add: cert_inv_def reboot_def New_daemon_def)
qed

interpretation certs: invariant_system booted "process_step oob decode no_faults" cert_inv for oob decode
proof
  show "cert_inv d" if "booted d" for d
    using that by (auto simp: booted_def cert_inv_def cert_ok_def reboot_def New_daemon_def)
  show "cert_inv d'" if "cert_inv d" "process_step oob decode no_faults d l d'" for d l d'
    using process_cert [OF that(2,1)] .
qed

section \<open>Stopping the cloud FSM\<close>

text \<open>One step of a cancelled cloud FSM towards its end, and the distance of a control point from it.\<close>

definition stop_step :: "(f64 \<Rightarrow> int) \<Rightarrow> env \<Rightarrow> FSM \<Rightarrow> FSM" where
  "stop_step oob en f =
     (case fsm_cancel f of
        Some f' \<Rightarrow> f'
      | None \<Rightarrow>
          if f_pc f = Returned then goto Finished (shutdown en f)
          else (case fsm_enter oob en f of Some f' \<Rightarrow> f' | None \<Rightarrow> f))"

fun stop_rank :: "stateFn \<Rightarrow> nat" where
  "stop_rank Finished = 0"
| "stop_rank Returned = 1"
| "stop_rank runReconnecting = 3"
| "stop_rank runSteady = 3"
| "stop_rank runAwaitingThingID = 4"
| "stop_rank runSyncingLastValues = 4"
| "stop_rank runAnnouncingDevice = 5"
| "stop_rank runConnecting = 6"
| "stop_rank _ = 2"

lemma enter_rank: "fsm_enter oob en f = Some f' \<Longrightarrow> stop_rank (f_pc f') < stop_rank (f_pc f)"
  by (auto simp: fsm_enter_def Reconnecting_entry_def Connecting_entry_def AnnouncingDevice_entry_def
      AwaitingThingID_entry_def SyncingLastValues_entry_def requestLastValues_def Steady_entry_def goto_def
      disconnect_and_reconnect_def Let_def split: stateFn.splits option.splits prod.splits if_splits)

lemma stop_step_rank: "f_pc f \<noteq> Finished \<Longrightarrow> stop_rank (f_pc (stop_step oob en f)) < stop_rank (f_pc f)"
  using enter_rank [of oob en f]
  by (cases "f_pc f") (auto simp: stop_step_def fsm_cancel_def waiting_def goto_def fsm_enter_def)

lemma stop_step_finished: "f_pc f = Finished \<Longrightarrow> stop_step oob en f = f"
  by (simp add: stop_step_def fsm_cancel_def waiting_def fsm_enter_def)

lemma stop_run: "stop_rank (f_pc f) \<le> length ens \<Longrightarrow> f_pc (fold (stop_step oob) ens f) = Finished"
proof (induction ens arbitrary: f)
  case Nil
  then show ?case by (cases "f_pc f") simp_all
next
  case (Cons en ens)
  show ?case
  proof (cases "f_pc f = Finished")
    case True
    then show ?thesis using Cons.IH [of f] by (simp add: stop_step_finished)
  next
    case False
    then show ?thesis using Cons.IH Cons.prems stop_step_rank [OF False, of oob en] by simp
  qed
qed

lemma stop_rank_le: "stop_rank pc \<le> 6"
  by (cases pc) simp_all

text \<open>Each of these steps is one of the daemon's transitions while it waits for the end.\<close>

lemma stop_step_is_step:
  assumes "d_pc d = StoppingCloud req" and "d_cloud d = Some f" and "valid_env en" and "f_pc f \<noteq> Finished"
  shows "\<exists>l. daemon_step oob decode ok d (CloudStep l) (d\<lparr>d_cloud := Some (stop_step oob en f)\<rparr>)"
proof -
  have "\<exists>l. fsm_step oob decode f l (stop_step oob en f)"
  proof (cases "fsm_cancel f")
    case (Some f')
    then have "fsm_step oob decode f Cancel (stop_step oob en f)"
      by (simp add: stop_step_def fsm_step.step_cancel)
    then show ?thesis ..
  next
    case None
    then show ?thesis
      using assms(3,4) step_shutdown [of f oob decode en] step_enter [of oob en f _ decode]
      by (cases "f_pc f") (auto simp: stop_step_def fsm_cancel_def waiting_def fsm_enter_def)
  qed
  then obtain l where "fsm_step oob decode f l (stop_step oob en f)" ..
  from step_cloud [OF assms(2) this] have
    "daemon_step oob decode ok d (CloudStep l) (d\<lparr>d_cloud := Some (stop_step oob en f)\<rparr>)"
    by (simp add: assms(1) cloud_cancelled_def)
  then show ?thesis ..
qed

section \<open>Running the daemon\<close>

fun daemon_run :: "daemon_label list \<Rightarrow> Daemon \<Rightarrow> Daemon option" where
  "daemon_run [] d = Some d"
| "daemon_run (EnterD en # ls) d = (case daemon_enter en d of None \<Rightarrow> None | Some d \<Rightarrow> daemon_run ls d)"
| "daemon_run (Probe en b # ls) d =
     (case d_pc d of WaitInternet _ \<Rightarrow> daemon_run ls (CheckInternet_timer en b d) | _ \<Rightarrow> None)"
| "daemon_run (Request en org # ls) d =
     (case Reprovision en org d of Inl _ \<Rightarrow> None | Inr d \<Rightarrow> daemon_run ls d)"
| "daemon_run (_ # ls) d = None"

fun label_env :: "daemon_label \<Rightarrow> denv option" where
  "label_env (EnterD en) = Some en"
| "label_env (Probe en b) = Some en"
| "label_env (Request en org) = Some en"
| "label_env _ = None"

lemma daemon_run_reach:
  "daemon_run ls d = Some d' \<Longrightarrow> reach booted (process_step oob decode ok) d \<Longrightarrow>
     (\<forall>l \<in> set ls. \<forall>en. label_env l = Some en \<longrightarrow> ok en) \<Longrightarrow> reach booted (process_step oob decode ok) d'"
proof (induction ls d rule: daemon_run.induct)
  case (2 en ls d)
  then obtain e where e: "daemon_enter en d = Some e" "daemon_run ls e = Some d'" by (auto split: option.splits)
  have "process_step oob decode ok d (Some (EnterD en)) e" using e 2 by (auto intro: live step_enterD)
  then have "reach booted (process_step oob decode ok) e" by (rule reach_step [OF 2(3)])
  then show ?case using 2 e by auto
next
  case (3 en b ls d)
  then obtain t where t: "d_pc d = WaitInternet t" by (auto split: daemonStateFn.splits)
  have "process_step oob decode ok d (Some (Probe en b)) (CheckInternet_timer en b d)"
    using t 3 by (auto intro: live step_probe)
  then have "reach booted (process_step oob decode ok) (CheckInternet_timer en b d)"
    by (rule reach_step [OF 3(3)])
  then show ?case using 3 t by auto
next
  case (4 en org ls d)
  then obtain e where e: "Reprovision en org d = Inr e" "daemon_run ls e = Some d'" by (auto split: sum.splits)
  have "process_step oob decode ok d (Some (Request en org)) e" using e 4 by (auto intro: live step_request)
  then have "reach booted (process_step oob decode ok) e" by (rule reach_step [OF 4(3)])
  then show ?case using 4 e by auto
qed simp_all

definition calm_denv :: denv where
  "calm_denv = \<lparr>dn_os = calm, dn_prov = api_ok, dn_now = 0, dn_cancelled = False, dn_version = ''1.0'',
     dn_format = (\<lambda>_. [])\<rparr>"

text \<open>A board restarted in the middle of an attempt, and its way to the cloud.\<close>

definition demo_boot :: Daemon where
  "demo_boot = reboot NewRegistry (fs_files (svc_fs interrupted_board)) []"

definition demo_daemon :: Daemon where
  "demo_daemon = the (daemon_run [EnterD calm_denv, Probe calm_denv True, EnterD calm_denv, EnterD calm_denv,
     EnterD calm_denv] demo_boot)"

lemma demo_daemon_check:
  "map_option (\<lambda>d. (d_pc d, map_option (\<lambda>f. (f_deviceID f, f_pc f)) (d_cloud d), d_activated d))
     (daemon_run [EnterD calm_denv, Probe calm_denv True, EnterD calm_denv, EnterD calm_denv, EnterD calm_denv]
       demo_boot) = Some (WaitRun, Some (''id'', runReconnecting), [Text ''old''])"
  by code_simp

lemma demo_daemon_facts:
  "reach booted (process_step oob decode no_faults) demo_daemon"
  "d_pc demo_daemon = WaitRun" "map_option (\<lambda>f. (f_deviceID f, f_pc f)) (d_cloud demo_daemon) = Some (''id'', runReconnecting)"
  "d_activated demo_daemon = [Text ''old'']"
proof -
  let ?ls = "[EnterD calm_denv, Probe calm_denv True, EnterD calm_denv, EnterD calm_denv, EnterD calm_denv]"
  obtain d where d: "daemon_run ?ls demo_boot = Some d" and
    f: "d_pc d = WaitRun" "map_option (\<lambda>f. (f_deviceID f, f_pc f)) (d_cloud d) = Some (''id'', runReconnecting)" "d_activated d = [Text ''old'']"
    using demo_daemon_check by (auto simp del: daemon_run.simps)
  have demo: "demo_daemon = d" using d by (simp add: demo_daemon_def del: daemon_run.simps)
  have "booted demo_boot"
    unfolding booted_def demo_boot_def
    by (rule exI [of _ NewRegistry], rule exI [of _ "fs_files (svc_fs interrupted_board)"])
      (simp add: looks_provisioned_def interrupted_board_files)
  then have "reach booted (process_step oob decode no_faults) demo_boot" by (rule reach_init)
  from daemon_run_reach [OF d this] show "reach booted (process_step oob decode no_faults) demo_daemon"
    by (simp add: demo no_faults_def calm_denv_def calm_def)
  show "d_pc demo_daemon = WaitRun" "map_option (\<lambda>f. (f_deviceID f, f_pc f)) (d_cloud demo_daemon) = Some (''id'', runReconnecting)"
    "d_activated demo_daemon = [Text ''old'']"
    using f by (simp_all only: demo)
qed

section \<open>Properties of the daemon\<close>





text \<open>
  C25. Credentials are never changed under a live connection: while a cloud FSM that has not
  finished is attached, no step of the daemon changes a file or takes the disk through any other
  state. The wipe for a new provisioning waits until the cloud FSM has shut down.
\<close>

theorem credentials_frozen_while_connected:
  assumes "daemon_step oob decode ok d l d'" and "reach booted (process_step oob decode ok) d"
    and "d_cloud d = Some f" and "f_pc f \<noteq> Finished"
  shows "d_disk d' = d_disk d \<and> fs_hist (d_fs d') = fs_hist (d_fs d)"
proof -
  have "daemon_shape d" using assms(2) by (rule daemon.reach_inv)
  then have "d_pc d = WaitRun \<or> (\<exists>req. d_pc d = StoppingCloud req)" using assms(3) by (simp add: daemon_shape_def)
  with assms(1,3,4) show ?thesis
    by (induction rule: daemon_step.induct)
      (auto simp: daemon_enter_def daemon_cancel_def Reprovision_def Run_command_def Run_cancelled_def goto_daemon_def)
qed

theorem credentials_frozen_while_connected_witness:
  "\<exists>d'. daemon_step (\<lambda>_. 0) no_decode no_faults demo_daemon (Request calm_denv ''org'') d' \<and>
     d_disk d' = d_disk demo_daemon"
proof -
  let ?d = "Run_command ''org'' demo_daemon"
  obtain f where f: "d_cloud demo_daemon = Some f" "f_pc f \<noteq> Finished" using demo_daemon_facts(3) by auto
  have st: "daemon_step (\<lambda>_. 0) no_decode no_faults demo_daemon (Request calm_denv ''org'') ?d"
    by (rule step_request) (simp_all add: Reprovision_def demo_daemon_facts(2) no_faults_def calm_denv_def calm_def)
  from credentials_frozen_while_connected [OF st demo_daemon_facts(1) f] st show ?thesis by blast
qed

text \<open>
  Remark. \<open>Reprovision\<close> on every branch: it is refused as busy exactly when the daemon does not wait
  for commands; in the provisioning state the prelude's result is the reply and decides whether the
  attempt runs; in the run state the request first stops the cloud FSM, and the reply follows when
  that has finished and the connection is detached.
\<close>

theorem Reprovision_branches:
  "(Reprovision en org d = Inl ErrBusy \<longleftrightarrow> d_pc d \<notin> {WaitCommand, WaitRun}) \<and>
   (d_pc d = WaitCommand \<longrightarrow> (\<exists>err svc d'. BeginProvisioning (dn_os en) (dn_now en) org (d_svc d) = (err, svc) \<and>
      Reprovision en org d = Inr d' \<and> d_svc d' = svc \<and> d_replies d' = d_replies d @ [err] \<and>
      d_pc d' = (if err = None then Attempting else WaitCommand))) \<and>
   (d_pc d = WaitRun \<longrightarrow> Reprovision en org d = Inr (d\<lparr>d_pc := StoppingCloud (Some org)\<rparr>)) \<and>
   (\<exists>err svc. BeginProvisioning (dn_os en) (dn_now en) org (d_svc d) = (err, svc) \<and>
      d_svc (Run_stopped en (Some org) d) = svc \<and> d_cloud (Run_stopped en (Some org) d) = None \<and>
      d_replies (Run_stopped en (Some org) d) = d_replies d @ [err] \<and>
      d_pc (Run_stopped en (Some org) d) = runProvisioning (err = None))"
proof -
  obtain err svc where "BeginProvisioning (dn_os en) (dn_now en) org (d_svc d) = (err, svc)" by fastforce
  then show ?thesis
    by (cases "d_pc d")
      (simp_all add: Reprovision_def Provisioning_command_def beginReprovision_def Run_command_def
        Run_stopped_def detachCloud_def goto_daemon_def Let_def)
qed

theorem Reprovision_branches_witness:
  "Reprovision calm_denv ''org'' demo_daemon = Inr (demo_daemon\<lparr>d_pc := StoppingCloud (Some ''org'')\<rparr>)"
  using Reprovision_branches [of calm_denv "''org''" demo_daemon] demo_daemon_facts(2) by simp

text \<open>
  Remark. A cancelled cloud FSM stops: whatever the broker answers to its remaining calls, six of its
  own steps lead from any control point to the end of its shutdown, so that the daemon's wait for
  it ends.
\<close>

theorem cloud_stops:
  assumes "6 \<le> length ens"
  shows "f_pc (fold (stop_step oob) ens f) = Finished"
  using stop_run [of f ens oob] stop_rank_le [of "f_pc f"] assms by simp

theorem cloud_stops_witness:
  "f_pc (fold (stop_step (\<lambda>_. 0)) (replicate 6 (good_env\<lparr>env_ans := \<lambda>_. Some ''EOF''\<rparr>)) demo_fsm) = Finished"
  using cloud_stops [of "replicate 6 (good_env\<lparr>env_ans := \<lambda>_. Some ''EOF''\<rparr>)" "\<lambda>_. 0" demo_fsm] by simp

end
