(* ===== verification/Pem.thy ===== *)
theory Pem
  imports Go_Strings
begin

text \<open>
  \<open>pem.EncodeToMemory\<close> of the standard library, in which the program writes keys, requests and
  certificates: a BEGIN line, the standard base64 text in lines of 64 characters, an END line. A
  strict reader of that format, written independently of it, reads every block back.
\<close>

section \<open>Base64\<close>

definition b64_char :: "nat \<Rightarrow> char" where
  "b64_char n = char_of (if n < 26 then n + 65 else if n < 52 then n + 71 else if n < 62 then n - 4
     else if n = 62 then 43 else 47)"

definition b64_value :: "char \<Rightarrow> nat option" where
  "b64_value c =
     (let n = of_char c in
      if 65 \<le> n \<and> n \<le> 90 then Some (n - 65) else if 97 \<le> n \<and> n \<le> 122 then Some (n - 71)
      else if 48 \<le> n \<and> n \<le> 57 then Some (n + 4) else if n = 43 then Some 62 else if n = 47 then Some 63 else None)"

text \<open>The four digits of a group of 24 bits.\<close>

definition b64_group :: "nat \<Rightarrow> string" where
  "b64_group n = [b64_char (n div 262144), b64_char (n div 4096 mod 64), b64_char (n div 64 mod 64), b64_char (n mod 64)]"

fun base64 :: "bytes \<Rightarrow> string" where
  "base64 [] = []"
| "base64 [a] = take 2 (b64_group (unat a * 65536)) @ ''==''"
| "base64 [a, b] = take 3 (b64_group (unat a * 65536 + unat b * 256)) @ ''=''"
| "base64 (a # b # c # bs) = b64_group (unat a * 65536 + unat b * 256 + unat c) @ base64 bs"

text \<open>The reader: padding only at the end, with no bits set beyond the last byte.\<close>

definition b64_number :: "string \<Rightarrow> nat option" where
  "b64_number s = fold (\<lambda>c acc. case (acc, b64_value c) of (Some n, Some v) \<Rightarrow> Some (64 * n + v) | _ \<Rightarrow> None) s (Some 0)"

fun base64_read :: "string \<Rightarrow> bytes option" where
  "base64_read [] = Some []"
| "base64_read (p # q # r # s # rest) =
     (if r = CHR ''='' \<and> s = CHR ''='' \<and> rest = [] then
        (case b64_number [p, q] of
           Some n \<Rightarrow> if n mod 16 = 0 then Some [of_nat (n div 16)] else None
         | None \<Rightarrow> None)
      else if s = CHR ''='' \<and> rest = [] then
        (case b64_number [p, q, r] of
           Some n \<Rightarrow> if n mod 4 = 0 then Some [of_nat (n div 1024), of_nat (n div 4 mod 256)] else None
         | None \<Rightarrow> None)
      else
        (case (b64_number [p, q, r, s], base64_read rest) of
           (Some n, Some bs) \<Rightarrow> Some (of_nat (n div 65536) # of_nat (n div 256 mod 256) # of_nat (n mod 256) # bs)
         | _ \<Rightarrow> None))"
| "base64_read _ = None"

lemma b64_value_char: "n < 64 \<Longrightarrow> b64_value (b64_char n) = Some n"
  by (auto simp: b64_value_def b64_char_def Let_def)

lemma b64_char_plain: "n < 64 \<Longrightarrow> b64_char n \<noteq> CHR ''='' \<and> b64_char n \<noteq> CHR 0x0A"
proof -
  assume n: "n < 64"
  have "b64_value (CHR ''='') = None" "b64_value (CHR 0x0A) = None" by (simp_all add: b64_value_def)
  then show ?thesis using b64_value_char [OF n] by auto
qed

text \<open>Numbers to base 64: their digits, and the number of the digits.\<close>

lemma b64_digits:
  fixes n :: nat
  assumes "n < 2 ^ 24"
  shows "n div 262144 < 64" "n div 4096 mod 64 < 64" "n div 64 mod 64 < 64" "n mod 64 < 64"
    "64 * (n div 262144) + n div 4096 mod 64 = n div 4096"
    "64 * (64 * (n div 262144) + n div 4096 mod 64) + n div 64 mod 64 = n div 64"
    "64 * (64 * (64 * (n div 262144) + n div 4096 mod 64) + n div 64 mod 64) + n mod 64 = n"
proof -
  have a: "n div 262144 = n div 4096 div 64" "n div 4096 = n div 64 div 64" by (simp_all add: div_mult2_eq [symmetric])
  have m: "64 * (k div 64) + k mod 64 = k" for k :: nat by simp
  show "n div 262144 < 64" using assms by simp
  show "n div 4096 mod 64 < 64" "n div 64 mod 64 < 64" "n mod 64 < 64" by simp_all
  show s: "64 * (n div 262144) + n div 4096 mod 64 = n div 4096" unfolding a(1) by (rule m)
  show t: "64 * (64 * (n div 262144) + n div 4096 mod 64) + n div 64 mod 64 = n div 64" unfolding s unfolding a(2) by (rule m)
  show "64 * (64 * (64 * (n div 262144) + n div 4096 mod 64) + n div 64 mod 64) + n mod 64 = n" unfolding t by (rule m)
qed

lemma b64_number_group:
  assumes "n < 2 ^ 24"
  shows "b64_number (take 2 (b64_group n)) = Some (n div 4096)" "b64_number (take 3 (b64_group n)) = Some (n div 64)"
    "b64_number (b64_group n) = Some n"
  using b64_digits [OF assms] by (simp_all add: b64_number_def b64_group_def b64_value_char)

lemma b64_group_plain:
  assumes "n < 2 ^ 24"
  shows "list_all (\<lambda>c. c \<noteq> CHR ''='' \<and> c \<noteq> CHR 0x0A) (b64_group n)"
  using b64_digits(1-4) [OF assms] b64_char_plain by (simp add: b64_group_def)

text \<open>Three bytes in a number of 24 bits.\<close>

lemma byte_bound: "unat (a :: 8 word) \<le> 255"
  using unsigned_less [of a, where ?'a = nat] by simp

lemma three_bytes:
  fixes a b c :: "8 word"
  defines "n \<equiv> unat a * 65536 + unat b * 256 + unat c"
  shows "n < 2 ^ 24" "n div 65536 = unat a" "n div 256 mod 256 = unat b" "n mod 256 = unat c"
proof -
  have b: "unat a \<le> 255" "unat b \<le> 255" "unat c \<le> 255" by (rule byte_bound)+
  show "n < 2 ^ 24" using b by (simp add: n_def)
  have s: "n = 65536 * unat a + (256 * unat b + unat c)" "n = 256 * (256 * unat a + unat b) + unat c" by (simp_all add: n_def)
  show "n div 65536 = unat a" unfolding s(1) using b by (subst div_mult_self4) simp_all
  have "n div 256 = 256 * unat a + unat b" unfolding s(2) using b by (subst div_mult_self4) simp_all
  then show "n div 256 mod 256 = unat b" using b by simp
  show "n mod 256 = unat c" unfolding s(2) using b by (subst mod_mult_self4) simp_all
qed


lemma base64_read_group:
  assumes "n < 2 ^ 24" and "base64_read rest = Some bs"
  shows "base64_read (b64_group n @ rest) = Some (of_nat (n div 65536) # of_nat (n div 256 mod 256) # of_nat (n mod 256) # bs)"
  using b64_group_plain [OF assms(1)] b64_number_group(3) [OF assms(1)] assms(2) by (simp add: b64_group_def)

lemma base64_roundtrip: "base64_read (base64 bs) = Some bs"
proof (induction bs rule: base64.induct)
  case (2 a)
  let ?n = "unat a * 65536"
  have n: "?n < 2 ^ 24" "?n div 4096 = 16 * unat a" using three_bytes(1) [of a 0 0] by simp_all
  show ?case
    using b64_group_plain [OF n(1)] b64_number_group(1) [OF n(1)] n(2) by (simp add: b64_group_def)
next
  case (3 a b)
  let ?n = "unat a * 65536 + unat b * 256"
  have n: "?n < 2 ^ 24" using three_bytes(1) [of a b 0] by simp
  have "?n = 64 * (1024 * unat a + 4 * unat b)" by simp
  then have d: "?n div 64 = 1024 * unat a + 4 * unat b" by simp
  have "(1024 * unat a + 4 * unat b) div 1024 = unat a" using byte_bound [of b] by (subst div_mult_self4) simp_all
  moreover have "(1024 * unat a + 4 * unat b) div 4 = 256 * unat a + unat b"
  proof -
    have "1024 * unat a + 4 * unat b = 4 * (256 * unat a + unat b)" by simp
    then show ?thesis by (simp only: nonzero_mult_div_cancel_left)
  qed
  moreover have "(256 * unat a + unat b) mod 256 = unat b" using byte_bound [of b] by simp
  ultimately show ?case
    using b64_group_plain [OF n] b64_number_group(2) [OF n] d by (simp add: b64_group_def)
next
  case (4 a b c bs)
  from base64_read_group [OF three_bytes(1) [of a b c] 4] show ?case by (simp add: three_bytes(2-4))
qed simp

section \<open>The blocks\<close>

text \<open>The text in lines of 64 characters, each ended by a newline.\<close>

function break_lines :: "string \<Rightarrow> string list" where
  "break_lines s = (if s = [] then [] else take 64 s # break_lines (drop 64 s))"
  by pat_completeness auto
termination
  by (relation "measure length") auto

declare break_lines.simps [simp del]

definition begin_line :: "string \<Rightarrow> string" where
  "begin_line typ = ''-----BEGIN '' @ typ @ ''-----''"

definition end_line :: "string \<Rightarrow> string" where
  "end_line typ = ''-----END '' @ typ @ ''-----''"

definition pem_EncodeToMemory :: "string \<Rightarrow> bytes \<Rightarrow> string" where
  "pem_EncodeToMemory typ bs =
     concat (map (\<lambda>l. l @ [CHR 0x0A]) (begin_line typ # break_lines (base64 bs) @ [end_line typ]))"

text \<open>The reader: the lines of one block, whose type is the text of the BEGIN line.\<close>

definition pem_read :: "string \<Rightarrow> (string \<times> bytes) option" where
  "pem_read text =
     (case Split text (CHR 0x0A) of
        b # ls \<Rightarrow>
          (let typ = take (length b - 16) (drop 11 b); body = butlast (butlast ls)
           in if ls = body @ [end_line typ, []] \<and> b = begin_line typ \<and> list_all (\<lambda>l. l \<noteq> [] \<and> length l \<le> 64) body
              then map_option (Pair typ) (base64_read (concat body)) else None)
      | [] \<Rightarrow> None)"

lemma concat_break_lines: "concat (break_lines s) = s"
  by (induction s rule: break_lines.induct) (simp add: break_lines.simps)

lemma break_lines_short: "list_all (\<lambda>l. l \<noteq> [] \<and> length l \<le> 64 \<and> set l \<subseteq> set s) (break_lines s)"
proof (induction s rule: break_lines.induct)
  case (1 s)
  then show ?case
    by (subst break_lines.simps) (force simp: list_all_iff dest: in_set_takeD in_set_dropD)
qed

lemma Split_lines:
  assumes "list_all (\<lambda>l. sep \<notin> set l) ls"
  shows "Split (concat (map (\<lambda>l. l @ [sep]) ls)) sep = ls @ [[]]"
  using assms by (induction ls) (simp_all add: Split_append)

lemma base64_plain: "CHR 0x0A \<notin> set (base64 bs)"
proof (induction bs rule: base64.induct)
  case (4 a b c bs)
  then show ?case using b64_group_plain [OF three_bytes(1) [of a b c]] by (auto simp: list_all_iff)
next
  case (2 a)
  then show ?case using b64_group_plain [OF three_bytes(1) [of a 0 0]] by (auto simp: list_all_iff b64_group_def)
next
  case (3 a b)
  then show ?case using b64_group_plain [OF three_bytes(1) [of a b 0]] by (auto simp: list_all_iff b64_group_def)
qed simp

text \<open>
  Every block the program writes reads back: the strict reader finds the type and exactly the bytes.
\<close>

lemma pem_roundtrip:
  assumes "CHR 0x0A \<notin> set typ"
  shows "pem_read (pem_EncodeToMemory typ bs) = Some (typ, bs)"
proof -
  let ?ls = "begin_line typ # break_lines (base64 bs) @ [end_line typ]"
  have "list_all (\<lambda>l. CHR 0x0A \<notin> set l) ?ls"
    using assms base64_plain [of bs] break_lines_short [of "base64 bs"]
    by (auto simp: begin_line_def end_line_def list_all_iff)
  then have "Split (pem_EncodeToMemory typ bs) (CHR 0x0A) = ?ls @ [[]]"
    unfolding pem_EncodeToMemory_def by (rule Split_lines)
  then show ?thesis
    using break_lines_short [of "base64 bs"]
    by (auto simp: pem_read_def begin_line_def butlast_append concat_break_lines base64_roundtrip list_all_iff Let_def)
qed

text \<open>Reading a block of a given type.\<close>

definition pem_block :: "string \<Rightarrow> string \<Rightarrow> bytes option" where
  "pem_block typ text = (case pem_read text of Some (t, bs) \<Rightarrow> if t = typ then Some bs else None | None \<Rightarrow> None)"

interpretation pem: codec "pem_EncodeToMemory ty" "pem_block ty" "\<lambda>_. CHR 0x0A \<notin> set ty" for ty
  by unfold_locales (simp add: pem_block_def pem_roundtrip)

end
