(* ===== verification/Mqtt_Client.thy ===== *)
theory Mqtt_Client
  imports Daemon Pem
begin

text \<open>
  The MQTT client of \<open>internal/mqtt/client_paho.go\<close>: the wrapper's state, the dialling of the
  broker, and the bounded waits for acknowledgements. The Paho library, DNS, TCP and TLS are the
  environment. The lemmas show that the first address that works is used and nothing is left open,
  that every call returns after at most the acknowledgement timeout, that a publication the broker
  does not acknowledge drives the cloud FSM to reconnect, and when sessions can overlap.
\<close>

section \<open>State and library\<close>

definition brokerAckTimeout :: duration where
  "brokerAckTimeout = 10 * second"

datatype mqtt_error =
    ErrBrokerAckTimeout string
  | NotConnected
  | TokenError string
  | EncodeCommand
  | MqttKeystore keystore_error
  | TlsError string
  | CAFile string
  | MqttCtxErr

text \<open>
  The calls into the library, on the library client with the given handle.
\<close>

datatype paho_call =
    PahoNew nat string
  | PahoDisconnect nat
  | PahoSubscribe nat string
  | PahoUnsubscribe nat string
  | PahoPublish nat string bytes

text \<open>
  \<open>pc_client\<close> is the current library client, \<open>pc_handler\<close> whether a connection-lost handler is
  registered, \<open>pc_notified\<close> the errors it was called with. \<open>pc_open\<close> are the library clients whose
  broker session is open, \<open>pc_fresh\<close> the next handle.
\<close>

record pahoClient =
  pc_client :: "nat option"
  pc_handler :: bool
  pc_notified :: "string list"
  pc_calls :: "paho_call list"
  pc_open :: "nat list"
  pc_fresh :: nat

definition NewPahoClient :: pahoClient where
  "NewPahoClient = \<lparr>pc_client = None, pc_handler = False, pc_notified = [], pc_calls = [], pc_open = [],
     pc_fresh = 0\<rparr>"

text \<open>
  The token of a call: acknowledged after some time, without or with an error. A wait with a
  timeout answers false when the acknowledgement comes later than that, or never (\<open>None\<close>).
\<close>

type_synonym token = "(duration \<times> string option) option"

definition WaitTimeout :: "duration \<Rightarrow> token \<Rightarrow> bool" where
  "WaitTimeout timeout tok = (case tok of None \<Rightarrow> False | Some (t, _) \<Rightarrow> t \<le> timeout)"

definition token_error :: "token \<Rightarrow> string option" where
  "token_error tok = (case tok of None \<Rightarrow> None | Some (_, e) \<Rightarrow> e)"

text \<open>How long a wait with a timeout takes.\<close>

definition wait_time :: "duration \<Rightarrow> token \<Rightarrow> duration" where
  "wait_time timeout tok = (case tok of None \<Rightarrow> timeout | Some (t, _) \<Rightarrow> min t timeout)"

definition log_call :: "paho_call \<Rightarrow> pahoClient \<Rightarrow> pahoClient" where
  "log_call pcall c = c\<lparr>pc_calls := pc_calls c @ [pcall]\<rparr>"

section \<open>Handler and client\<close>

definition OnConnectionLost :: "pahoClient \<Rightarrow> pahoClient" where
  "OnConnectionLost c = c\<lparr>pc_handler := True\<rparr>"

definition getClient :: "pahoClient \<Rightarrow> nat option" where
  "getClient c = pc_client c"

definition setClient :: "nat option \<Rightarrow> pahoClient \<Rightarrow> pahoClient" where
  "setClient client c = c\<lparr>pc_client := client\<rparr>"

definition notifyConnectionLost :: "string \<Rightarrow> pahoClient \<Rightarrow> pahoClient" where
  "notifyConnectionLost err c = (if pc_handler c then c\<lparr>pc_notified := pc_notified c @ [err]\<rparr> else c)"

text \<open>\<open>IsConnected\<close> of a library client is whether its session is open.\<close>

definition Disconnect_paho :: "pahoClient \<Rightarrow> pahoClient" where
  "Disconnect_paho c =
     (let client = pc_client c;
          c = c\<lparr>pc_client := None\<rparr>
      in case client of
           None \<Rightarrow> c
         | Some h \<Rightarrow>
             if h \<in> set (pc_open c)
             then log_call (PahoDisconnect h) (c\<lparr>pc_open := removeAll h (pc_open c)\<rparr>) else c)"

definition IsConnected :: "pahoClient \<Rightarrow> bool" where
  "IsConnected c = (case getClient c of None \<Rightarrow> False | Some h \<Rightarrow> h \<in> set (pc_open c))"

section \<open>TLS configuration\<close>

text \<open>
  \<open>tls_marshal\<close> is \<open>x509.MarshalECPrivateKey\<close>, \<open>tls_pair\<close> is \<open>tls.X509KeyPair\<close> on the texts of the
  certificate and the key, \<open>tls_read\<close> the reading and parsing of a CA file: \<open>None\<close> when it
  cannot be read, otherwise the certificates found; \<open>tls_format\<close> writes a time as text.
\<close>

record tlsenv =
  tls_marshal :: "string \<Rightarrow> (string, bytes) result"
  tls_pair :: "content \<Rightarrow> string \<Rightarrow> (string, string) result"
  tls_read :: "string \<Rightarrow> (string, string list) result"
  tls_format :: "time \<Rightarrow> string"

datatype tls_version = VersionTLS12 | VersionTLS13

record tlsConfig =
  tc_certificate :: string
  tc_MinVersion :: tls_version
  tc_MaxVersion :: tls_version
  tc_RootCAs :: "string list option"
  tc_ServerName :: string

definition brokerRootCAs :: "tlsenv \<Rightarrow> string \<Rightarrow> (mqtt_error, string list option) result" where
  "brokerRootCAs te caFile =
     (if caFile = [] then Inr None
      else case tls_read te caFile of
             Inl e \<Rightarrow> Inl (CAFile e)
           | Inr certs \<Rightarrow> if certs = [] then Inl (CAFile ''no certificates parsed'') else Inr (Some certs))"

definition buildTLSConfig :: "osenv \<Rightarrow> tlsenv \<Rightarrow> string \<Rightarrow> FS \<Rightarrow> (mqtt_error, tlsConfig) result \<times> FS" where
  "buildTLSConfig en te caFile fs =
     (case DeviceCertPEM en fs of
        (Inl e, fs) \<Rightarrow> (Inl (MqttKeystore e), fs)
      | (Inr certPEM, fs) \<Rightarrow>
     (case CloudPrivateKey en fs of
        (Inl e, fs) \<Rightarrow> (Inl (MqttKeystore e), fs)
      | (Inr privKey, fs) \<Rightarrow>
          (case tls_marshal te privKey of
             Inl e \<Rightarrow> Inl (TlsError e)
           | Inr privKeyDER \<Rightarrow>
          (case tls_pair te certPEM (pem_EncodeToMemory ''EC PRIVATE KEY'' privKeyDER) of
             Inl e \<Rightarrow> Inl (TlsError e)
           | Inr cert \<Rightarrow>
          (case brokerRootCAs te caFile of
             Inl e \<Rightarrow> Inl e
           | Inr pool \<Rightarrow>
               Inr \<lparr>tc_certificate = cert, tc_MinVersion = VersionTLS12, tc_MaxVersion = VersionTLS12,
                    tc_RootCAs = pool, tc_ServerName = []\<rparr>)), fs)))"

section \<open>Dialling\<close>

text \<open>
  What one dial sees: the answer of the resolver, the TCP dial per address (a connection or an
  error), and the TLS handshake over a connection with a configuration. The result lists the
  connections that were closed again.
\<close>

record dialenv =
  dl_lookup :: "string \<Rightarrow> (string, string list) result"
  dl_tcp :: "string \<Rightarrow> (string, nat) result"
  dl_handshake :: "nat \<Rightarrow> tlsConfig \<Rightarrow> string option"
  dl_join :: "string \<Rightarrow> string \<Rightarrow> string"

definition broker_port :: "string \<Rightarrow> string \<Rightarrow> string" where
  "broker_port scheme port =
     (if port = [] then
        (if scheme \<in> {''ssl'', ''tls'', ''mqtts'', ''wss''} then ''8883'' else ''1883'')
      else port)"

definition pin_server_name :: "string \<Rightarrow> tlsConfig \<Rightarrow> tlsConfig" where
  "pin_server_name host cfg = (if tc_ServerName cfg = [] then cfg\<lparr>tc_ServerName := host\<rparr> else cfg)"

fun try_ips ::
  "dialenv \<Rightarrow> string \<Rightarrow> string \<Rightarrow> tlsConfig \<Rightarrow> string list \<Rightarrow> string option \<Rightarrow>
     (string option, nat) result \<times> nat list" where
  "try_ips dl host port cfg [] lastErr = (Inl lastErr, [])"
| "try_ips dl host port cfg (ip # ips) lastErr =
     (case dl_tcp dl (dl_join dl ip port) of
        Inl dialErr \<Rightarrow> try_ips dl host port cfg ips (Some dialErr)
      | Inr tcpConn \<Rightarrow>
          (case dl_handshake dl tcpConn (pin_server_name host cfg) of
             Some hsErr \<Rightarrow>
               (case try_ips dl host port cfg ips (Some hsErr) of (r, shut) \<Rightarrow> (r, tcpConn # shut))
           | None \<Rightarrow> (Inr tcpConn, [])))"

datatype dial_error = DnsLookup string | NoAddresses | AllFailed "string option"

definition openFreshConnection ::
  "dialenv \<Rightarrow> string \<Rightarrow> string \<Rightarrow> string \<Rightarrow> tlsConfig \<Rightarrow> (dial_error, nat) result \<times> nat list" where
  "openFreshConnection dl scheme host port tlsCfg =
     (case dl_lookup dl host of
        Inl e \<Rightarrow> (Inl (DnsLookup e), [])
      | Inr ips \<Rightarrow>
          if ips = [] then (Inl NoAddresses, [])
          else case try_ips dl host (broker_port scheme port) tlsCfg ips None of
                 (Inl e, shut) \<Rightarrow> (Inl (AllFailed e), shut)
               | (Inr conn, shut) \<Rightarrow> (Inr conn, shut))"

section \<open>Connect\<close>

text \<open>
  How the library's connect ends for the waiting caller: its token completes (with an error or
  not), or the context is done first; then the library client may still complete its session.
\<close>

datatype connect_outcome = TokenDone "string option" | CtxDone bool

definition Connect_paho ::
  "osenv \<Rightarrow> tlsenv \<Rightarrow> string \<Rightarrow> connect_outcome \<Rightarrow> pahoClient \<times> FS \<Rightarrow> mqtt_error option \<times> pahoClient \<times> FS" where
  "Connect_paho en te caFile out cf =
     (case cf of (c, fs) \<Rightarrow>
        let c = Disconnect_paho c
        in (case buildTLSConfig en te caFile fs of
              (Inl e, fs) \<Rightarrow> (Some e, c, fs)
            | (Inr tlsCfg, fs) \<Rightarrow>
           (case DeviceID en fs of
              (dev, fs) \<Rightarrow>
                let h = pc_fresh c;
                    clientID = (case dev of Inl _ \<Rightarrow> [] | Inr (Text d) \<Rightarrow> d | Inr (RFC3339Nano t) \<Rightarrow> tls_format te t);
                    c = log_call (PahoNew h clientID) (c\<lparr>pc_fresh := Suc h\<rparr>)
                in (case out of
                      CtxDone completes \<Rightarrow> (Some MqttCtxErr, if completes then c\<lparr>pc_open := h # pc_open c\<rparr> else c, fs)
                    | TokenDone (Some e) \<Rightarrow> (Some (TokenError e), c, fs)
                    | TokenDone None \<Rightarrow> (None, setClient (Some h) (c\<lparr>pc_open := h # pc_open c\<rparr>), fs)))))"

text \<open>The library reports a lost connection of one of its clients.\<close>

definition ConnectionLost :: "nat \<Rightarrow> string \<Rightarrow> pahoClient \<Rightarrow> pahoClient" where
  "ConnectionLost h err c = notifyConnectionLost err (c\<lparr>pc_open := removeAll h (pc_open c)\<rparr>)"

section \<open>Subscriptions and publications\<close>

text \<open>The result of waiting for an acknowledgement.\<close>

definition ack_result :: "string \<Rightarrow> token \<Rightarrow> mqtt_error option" where
  "ack_result topic tok =
     (if \<not> WaitTimeout brokerAckTimeout tok then Some (ErrBrokerAckTimeout topic)
      else map_option TokenError (token_error tok))"

text \<open>\<open>tok\<close> is the token the library returns for a call.\<close>

definition SubscribeCommandChannel_paho ::
  "(paho_call \<Rightarrow> token) \<Rightarrow> string \<Rightarrow> pahoClient \<Rightarrow> mqtt_error option \<times> pahoClient" where
  "SubscribeCommandChannel_paho tok deviceID c =
     (case getClient c of
        None \<Rightarrow> (Some NotConnected, c)
      | Some h \<Rightarrow>
          let topic = commandDownTopic deviceID; k = PahoSubscribe h topic
          in (ack_result topic (tok k), log_call k c))"

text \<open>What a message on the command channel hands to the FSM.\<close>

definition on_command :: "(bytes \<Rightarrow> (command_error, Cmd) result) \<Rightarrow> bytes \<Rightarrow> event option" where
  "on_command decode payload = (case decode payload of Inl _ \<Rightarrow> None | Inr cmd \<Rightarrow> Some (evCommandMessage cmd))"

definition SubscribePropertyTopic_paho ::
  "(paho_call \<Rightarrow> token) \<Rightarrow> string \<Rightarrow> pahoClient \<Rightarrow> mqtt_error option \<times> pahoClient" where
  "SubscribePropertyTopic_paho tok thingID c =
     (case getClient c of
        None \<Rightarrow> (Some NotConnected, c)
      | Some h \<Rightarrow>
          let topic = propertyInTopic thingID; k = PahoSubscribe h topic
          in (ack_result topic (tok k), log_call k c))"

definition UnsubscribePropertyTopic_paho ::
  "(paho_call \<Rightarrow> token) \<Rightarrow> string \<Rightarrow> pahoClient \<Rightarrow> mqtt_error option \<times> pahoClient" where
  "UnsubscribePropertyTopic_paho tok thingID c =
     (case getClient c of
        None \<Rightarrow> (None, c)
      | Some h \<Rightarrow>
          let k = PahoUnsubscribe h (propertyInTopic thingID)
          in (if \<not> WaitTimeout brokerAckTimeout (tok k) then None
              else map_option TokenError (token_error (tok k)), log_call k c))"

definition PublishCommand_paho ::
  "(Cmd \<Rightarrow> bytes option) \<Rightarrow> (paho_call \<Rightarrow> token) \<Rightarrow> string \<Rightarrow> Cmd \<Rightarrow> pahoClient \<Rightarrow> mqtt_error option \<times> pahoClient" where
  "PublishCommand_paho encode tok deviceID cmd c =
     (case getClient c of
        None \<Rightarrow> (Some NotConnected, c)
      | Some h \<Rightarrow>
          (case encode cmd of
             None \<Rightarrow> (Some EncodeCommand, c)
           | Some payload \<Rightarrow>
               let topic = commandUpTopic deviceID; k = PahoPublish h topic payload
               in (ack_result topic (tok k), log_call k c)))"

definition PublishProperty_paho ::
  "(paho_call \<Rightarrow> token) \<Rightarrow> string \<Rightarrow> bytes \<Rightarrow> pahoClient \<Rightarrow> mqtt_error option \<times> pahoClient" where
  "PublishProperty_paho tok thingID payload c =
     (case getClient c of
        None \<Rightarrow> (Some NotConnected, c)
      | Some h \<Rightarrow>
          let topic = propertyOutTopic thingID; k = PahoPublish h topic payload; c = log_call k c
          in if \<not> WaitTimeout brokerAckTimeout (tok k)
             then (Some (ErrBrokerAckTimeout topic), notifyConnectionLost (''property publish ack timeout on '' @ topic) c)
             else (map_option TokenError (token_error (tok k)), c))"

section \<open>The first working address\<close>

definition usable :: "dialenv \<Rightarrow> string \<Rightarrow> string \<Rightarrow> tlsConfig \<Rightarrow> string \<Rightarrow> bool" where
  "usable dl host port cfg ip \<longleftrightarrow>
     (case dl_tcp dl (dl_join dl ip port) of
        Inl _ \<Rightarrow> False | Inr conn \<Rightarrow> dl_handshake dl conn (pin_server_name host cfg) = None)"

fun dialled :: "dialenv \<Rightarrow> string \<Rightarrow> string list \<Rightarrow> nat list" where
  "dialled dl port [] = []"
| "dialled dl port (ip # ips) =
     (case dl_tcp dl (dl_join dl ip port) of Inl _ \<Rightarrow> dialled dl port ips | Inr conn \<Rightarrow> conn # dialled dl port ips)"

lemma try_ips_usable:
  "usable dl host port cfg ip \<Longrightarrow>
     \<exists>conn. dl_tcp dl (dl_join dl ip port) = Inr conn \<and> try_ips dl host port cfg (ip # ips) e = (Inr conn, [])"
  by (auto simp: usable_def split: sum.splits)

lemma try_ips_unusable:
  "\<not> usable dl host port cfg ip \<Longrightarrow>
     \<exists>e'. fst (try_ips dl host port cfg (ip # ips) e) = fst (try_ips dl host port cfg ips e') \<and>
       snd (try_ips dl host port cfg (ip # ips) e) = dialled dl port [ip] @ snd (try_ips dl host port cfg ips e')"
  by (auto simp: usable_def split: sum.splits option.splits prod.splits) (metis fst_conv snd_conv)

lemma try_ips_shut:
  "snd (try_ips dl host port cfg ips e) = dialled dl port (takeWhile (\<lambda>ip. \<not> usable dl host port cfg ip) ips)"
proof (induction ips arbitrary: e)
  case (Cons ip ips)
  show ?case
  proof (cases "usable dl host port cfg ip")
    case True
    then show ?thesis using try_ips_usable [OF True, of ips e] by auto
  next
    case False
    obtain e' where "snd (try_ips dl host port cfg (ip # ips) e) =
        dialled dl port [ip] @ snd (try_ips dl host port cfg ips e')"
      using try_ips_unusable [OF False] by blast
    then show ?thesis using Cons.IH [of e'] False by (simp del: try_ips.simps split: sum.split)
  qed
qed simp

lemma try_ips_conn:
  assumes "fst (try_ips dl host port cfg ips e) = Inr conn"
  shows "\<exists>pre ip post. ips = pre @ ip # post \<and> (\<forall>x \<in> set pre. \<not> usable dl host port cfg x) \<and>
    usable dl host port cfg ip \<and> dl_tcp dl (dl_join dl ip port) = Inr conn"
  using assms
proof (induction ips arbitrary: e)
  case (Cons ip ips)
  show ?case
  proof (cases "usable dl host port cfg ip")
    case True
    then have "dl_tcp dl (dl_join dl ip port) = Inr conn"
      using try_ips_usable [OF True, of ips e] Cons.prems by auto
    then show ?thesis using True by (intro exI [of _ "[]"] exI [of _ ip] exI [of _ ips]) simp
  next
    case False
    then obtain pre i post where "ips = pre @ i # post" "\<forall>x \<in> set pre. \<not> usable dl host port cfg x"
      "usable dl host port cfg i" "dl_tcp dl (dl_join dl i port) = Inr conn"
      using try_ips_unusable [OF False, of ips e] Cons by metis
    then show ?thesis using False by (intro exI [of _ "ip # pre"] exI [of _ i] exI [of _ post]) simp
  qed
qed simp

lemma try_ips_some: "ip \<in> set ips \<Longrightarrow> usable dl host port cfg ip \<Longrightarrow> \<exists>conn. fst (try_ips dl host port cfg ips e) = Inr conn"
proof (induction ips arbitrary: e)
  case (Cons i ips)
  show ?case
  proof (cases "usable dl host port cfg i")
    case True
    then show ?thesis using try_ips_usable [OF True, of ips e] by auto
  next
    case False
    then have "ip \<in> set ips" using Cons.prems by auto
    then show ?thesis using try_ips_unusable [OF False, of ips e] Cons by metis
  qed
qed simp

section \<open>Sessions\<close>

text \<open>The users of the client: the cloud FSM, the outbound worker and the library's callback.\<close>

datatype mqtt_label =
    ConnectL osenv tlsenv string connect_outcome
  | DisconnectL
  | HandlerL
  | LostL nat string
  | SubscribeCommandL "paho_call \<Rightarrow> token" string
  | SubscribePropertyL "paho_call \<Rightarrow> token" string
  | UnsubscribePropertyL "paho_call \<Rightarrow> token" string
  | PublishCommandL "Cmd \<Rightarrow> bytes option" "paho_call \<Rightarrow> token" string Cmd
  | PublishPropertyL "paho_call \<Rightarrow> token" string bytes

fun mqtt_exec :: "mqtt_label \<Rightarrow> pahoClient \<times> FS \<Rightarrow> pahoClient \<times> FS" where
  "mqtt_exec (ConnectL en te ca out) s = snd (Connect_paho en te ca out s)"
| "mqtt_exec DisconnectL (c, fs) = (Disconnect_paho c, fs)"
| "mqtt_exec HandlerL (c, fs) = (OnConnectionLost c, fs)"
| "mqtt_exec (LostL h e) (c, fs) = (ConnectionLost h e c, fs)"
| "mqtt_exec (SubscribeCommandL tok d) (c, fs) = (snd (SubscribeCommandChannel_paho tok d c), fs)"
| "mqtt_exec (SubscribePropertyL tok t) (c, fs) = (snd (SubscribePropertyTopic_paho tok t c), fs)"
| "mqtt_exec (UnsubscribePropertyL tok t) (c, fs) = (snd (UnsubscribePropertyTopic_paho tok t c), fs)"
| "mqtt_exec (PublishCommandL enc tok d cmd) (c, fs) = (snd (PublishCommand_paho enc tok d cmd c), fs)"
| "mqtt_exec (PublishPropertyL tok t p) (c, fs) = (snd (PublishProperty_paho tok t p c), fs)"

fun abandoned :: "mqtt_label \<Rightarrow> bool" where
  "abandoned (ConnectL _ _ _ (CtxDone completes)) = completes"
| "abandoned _ = False"

text \<open>Handles are fresh, and without an abandoned connect only the current client has a session.\<close>

definition session_inv :: "pahoClient \<times> FS \<Rightarrow> bool" where
  "session_inv s \<longleftrightarrow>
     distinct (pc_open (fst s)) \<and> (\<forall>h \<in> set (pc_open (fst s)). h < pc_fresh (fst s)) \<and>
     (\<forall>h. pc_client (fst s) = Some h \<longrightarrow> h < pc_fresh (fst s)) \<and>
     set (pc_open (fst s)) \<subseteq> set_option (pc_client (fst s))"

lemma frame_client [simp]:
  "pc_open (snd (SubscribeCommandChannel_paho tok d c)) = pc_open c"
  "pc_client (snd (SubscribeCommandChannel_paho tok d c)) = pc_client c"
  "pc_fresh (snd (SubscribeCommandChannel_paho tok d c)) = pc_fresh c"
  "pc_open (snd (SubscribePropertyTopic_paho tok t c)) = pc_open c"
  "pc_client (snd (SubscribePropertyTopic_paho tok t c)) = pc_client c"
  "pc_fresh (snd (SubscribePropertyTopic_paho tok t c)) = pc_fresh c"
  "pc_open (snd (UnsubscribePropertyTopic_paho tok t c)) = pc_open c"
  "pc_client (snd (UnsubscribePropertyTopic_paho tok t c)) = pc_client c"
  "pc_fresh (snd (UnsubscribePropertyTopic_paho tok t c)) = pc_fresh c"
  "pc_open (snd (PublishCommand_paho enc tok d cmd c)) = pc_open c"
  "pc_client (snd (PublishCommand_paho enc tok d cmd c)) = pc_client c"
  "pc_fresh (snd (PublishCommand_paho enc tok d cmd c)) = pc_fresh c"
  "pc_open (snd (PublishProperty_paho tok t p c)) = pc_open c"
  "pc_client (snd (PublishProperty_paho tok t p c)) = pc_client c"
  "pc_fresh (snd (PublishProperty_paho tok t p c)) = pc_fresh c"
  by (simp_all add: SubscribeCommandChannel_paho_def SubscribePropertyTopic_paho_def Let_def
      UnsubscribePropertyTopic_paho_def PublishCommand_paho_def PublishProperty_paho_def log_call_def
      notifyConnectionLost_def split: option.split)

lemma Disconnect_sessions:
  "pc_client (Disconnect_paho c) = None" "pc_fresh (Disconnect_paho c) = pc_fresh c"
  "pc_open (Disconnect_paho c) = (case pc_client c of None \<Rightarrow> pc_open c | Some h \<Rightarrow> removeAll h (pc_open c))"
  by (auto simp: Disconnect_paho_def log_call_def Let_def removeAll_id split: option.split)

lemma Connect_sessions:
  assumes "Connect_paho en te ca out (c, fs) = (r, c', fs')"
  shows "pc_fresh c \<le> pc_fresh c'"
    and "pc_open c' = pc_open (Disconnect_paho c) \<or> pc_open c' = pc_fresh c # pc_open (Disconnect_paho c) \<and>
      pc_fresh c < pc_fresh c' \<and> (pc_client c' = Some (pc_fresh c) \<or> out = CtxDone True)"
    and "pc_client c' = Some h \<Longrightarrow> h = pc_fresh c \<and> pc_fresh c < pc_fresh c'"
    and "r = None \<longleftrightarrow> pc_client c' \<noteq> None"
  using assms
  by (auto simp: Connect_paho_def Let_def log_call_def setClient_def Disconnect_sessions
      split: prod.splits sum.splits connect_outcome.splits option.splits if_splits)

lemma mqtt_exec_inv:
  assumes "session_inv s" and "\<not> abandoned l"
  shows "session_inv (mqtt_exec l s)"
proof -
  obtain c fs where s: "s = (c, fs)" by (cases s)
  have d: "pc_open (Disconnect_paho c) = []"
    using assms(1)
    by (auto simp: s session_inv_def Disconnect_sessions removeAll_filter_not_eq filter_empty_conv
        split: option.splits)
  show ?thesis
  proof (cases l)
    case (ConnectL en te ca out)
    obtain r c' fs' where r: "Connect_paho en te ca out (c, fs) = (r, c', fs')" by (metis prod.collapse)
    have "out \<noteq> CtxDone True" using assms(2) ConnectL by auto
    then show ?thesis
      using Connect_sessions(2,3) [OF r] by (auto simp: ConnectL s r session_inv_def d)
  qed (use assms(1) d in \<open>auto simp: s session_inv_def OnConnectionLost_def ConnectionLost_def
      notifyConnectionLost_def distinct_removeAll Disconnect_sessions(1)\<close>)
qed

text \<open>Runs without an abandoned connect.\<close>

definition mqtt_init :: "pahoClient \<times> FS \<Rightarrow> bool" where
  "mqtt_init s \<longleftrightarrow> fst s = NewPahoClient"

definition mqtt_step :: "(mqtt_label \<Rightarrow> bool) \<Rightarrow> pahoClient \<times> FS \<Rightarrow> mqtt_label \<Rightarrow> pahoClient \<times> FS \<Rightarrow> bool" where
  "mqtt_step allowed s l s' \<longleftrightarrow> allowed l \<and> s' = mqtt_exec l s"

interpretation sessions: invariant_system mqtt_init "mqtt_step (\<lambda>l. \<not> abandoned l)" session_inv
proof
  show "session_inv s" if "mqtt_init s" for s
    using that by (simp add: mqtt_init_def session_inv_def NewPahoClient_def)
  show "session_inv t" if "session_inv s" "mqtt_step (\<lambda>l. \<not> abandoned l) s l t" for s l t
    using that by (simp add: mqtt_step_def mqtt_exec_inv)
qed

section \<open>Properties of the client\<close>

text \<open>
  Remark. The broker is dialled correctly: the host is resolved afresh, the first address (in the
  resolver's order) on which both the TCP dial and the TLS handshake under the host's own name
  succeed gives the connection, an error is returned exactly when there is none, and every
  connection opened to an earlier address is closed again.
\<close>

theorem openFreshConnection_first:
  assumes "openFreshConnection dl scheme host port cfg = (r, shut)" and "dl_lookup dl host = Inr ips"
    and "u = (\<lambda>ip. usable dl host (broker_port scheme port) cfg ip)"
  shows "shut = dialled dl (broker_port scheme port) (takeWhile (\<lambda>ip. \<not> u ip) ips) \<and>
    ((\<exists>conn. r = Inr conn) \<longleftrightarrow> (\<exists>ip \<in> set ips. u ip)) \<and>
    (\<forall>conn. r = Inr conn \<longrightarrow> (\<exists>pre ip post. ips = pre @ ip # post \<and> (\<forall>x \<in> set pre. \<not> u x) \<and> u ip \<and>
       dl_tcp dl (dl_join dl ip (broker_port scheme port)) = Inr conn))"
proof (cases "ips = []")
  case True
  then show ?thesis using assms(1,2) by (auto simp: openFreshConnection_def)
next
  case False
  let ?t = "try_ips dl host (broker_port scheme port) cfg ips None"
  have r: "shut = snd ?t" "(case fst ?t of Inl e \<Rightarrow> r = Inl (AllFailed e) | Inr conn \<Rightarrow> r = Inr conn)"
    using assms(1,2) False by (auto simp: openFreshConnection_def split: prod.splits sum.splits)
  have iff: "r = Inr conn \<longleftrightarrow> fst ?t = Inr conn" for conn using r(2) by (auto split: sum.splits)
  have "(\<exists>conn. r = Inr conn) \<longleftrightarrow> (\<exists>ip \<in> set ips. u ip)"
    using try_ips_some [of _ ips dl host "broker_port scheme port" cfg None]
      try_ips_conn [of dl host "broker_port scheme port" cfg ips None] unfolding iff assms(3)
    by (metis in_set_conv_decomp)
  then show ?thesis using r(1) try_ips_shut try_ips_conn unfolding iff assms(3) by blast
qed

text \<open>Two addresses, of which the first accepts the connection and fails the handshake.\<close>

definition two_addresses :: dialenv where
  "two_addresses = \<lparr>dl_lookup = (\<lambda>_. Inr [''10.0.0.1'', ''10.0.0.2'']),
     dl_tcp = (\<lambda>a. Inr (if a = ''10.0.0.1:8883'' then 1 else 2)),
     dl_handshake = (\<lambda>c cfg. if c = 1 then Some ''alert'' else None), dl_join = (\<lambda>h p. h @ '':'' @ p)\<rparr>"

definition some_tls :: tlsConfig where
  "some_tls = \<lparr>tc_certificate = ''cert'', tc_MinVersion = VersionTLS12, tc_MaxVersion = VersionTLS12,
     tc_RootCAs = None, tc_ServerName = []\<rparr>"

theorem openFreshConnection_first_witness:
  "\<exists>shut. openFreshConnection two_addresses ''ssl'' ''broker'' [] some_tls = (Inr 2, shut) \<and>
     shut = dialled two_addresses ''8883'' [''10.0.0.1'']"
proof -
  let ?u = "\<lambda>ip. usable two_addresses ''broker'' (broker_port ''ssl'' []) some_tls ip"
  have run: "openFreshConnection two_addresses ''ssl'' ''broker'' [] some_tls = (Inr 2, [1])" by code_simp
  have lk: "dl_lookup two_addresses ''broker'' = Inr [''10.0.0.1'', ''10.0.0.2'']" by code_simp
  have "takeWhile (\<lambda>ip. \<not> ?u ip) [''10.0.0.1'', ''10.0.0.2''] = [''10.0.0.1'']" by code_simp
  with openFreshConnection_first [OF run lk refl] run show ?thesis by (simp add: broker_port_def)
qed

text \<open>
  C27. A wedged connection heals: when the broker does not acknowledge a property publication in
  time, the outbound worker gets the timeout error and is not blocked, the connection-lost handler
  is called, and the cloud FSM in the steady state takes that event to its reconnection; the next
  \<open>Connect\<close> then closes the wedged session, whatever its own outcome.
\<close>

theorem wedged_publish_reconnects:
  assumes "reach mqtt_init (mqtt_step (\<lambda>l. \<not> abandoned l)) (c, fs)" and "pc_client c = Some h" and "pc_handler c"
    and "\<not> WaitTimeout brokerAckTimeout (tok (PahoPublish h (propertyOutTopic thingID) payload))"
    and "f_pc f = WaitSteady" and "f_events f = []"
  shows "\<exists>c'. PublishProperty_paho tok thingID payload c = (Some (ErrBrokerAckTimeout (propertyOutTopic thingID)), c') \<and>
    pc_notified c' = pc_notified c @ [''property publish ack timeout on '' @ propertyOutTopic thingID] \<and>
    fsm_recv decode en (send (evConnectionLost (''property publish ack timeout on '' @ propertyOutTopic thingID)) f) = Some (goto runReconnecting f) \<and>
    (\<forall>os te ca out r c'' fs''. Connect_paho os te ca out (c', fs) = (r, c'', fs'') \<longrightarrow> h \<notin> set (pc_open c''))"
proof -
  have inv: "session_inv (c, fs)" using assms(1) by (rule sessions.reach_inv)
  let ?c = "snd (PublishProperty_paho tok thingID payload c)"
  have pub: "PublishProperty_paho tok thingID payload c = (Some (ErrBrokerAckTimeout (propertyOutTopic thingID)), ?c)"
    "pc_notified ?c = pc_notified c @ [''property publish ack timeout on '' @ propertyOutTopic thingID]"
    using assms(2-4)
    by (simp_all add: PublishProperty_paho_def getClient_def Let_def log_call_def notifyConnectionLost_def)
  have "h \<notin> set (pc_open c'')" if "Connect_paho os te ca out (?c, fs) = (r, c'', fs'')" for os te ca out r c'' fs''
  proof -
    have "pc_open (Disconnect_paho ?c) = removeAll h (pc_open c)" using assms(2) by (simp add: Disconnect_sessions)
    moreover have "h \<noteq> pc_fresh ?c" using inv assms(2) by (auto simp: session_inv_def)
    ultimately show ?thesis using Connect_sessions(2) [OF that] by auto
  qed
  moreover have "fsm_recv decode en (send (evConnectionLost (''property publish ack timeout on '' @ propertyOutTopic thingID)) f) = Some (goto runReconnecting f)"
    using assms(5,6) by (simp add: send_def fsm_recv_def Steady_event_def goto_def)
  ultimately show ?thesis using pub by blast
qed

text \<open>The library and the disk of the witnesses: a connected client with a registered handler.\<close>

definition tls_ok :: tlsenv where
  "tls_ok = \<lparr>tls_marshal = (\<lambda>_. Inr [1]), tls_pair = (\<lambda>_ _. Inr ''pair''), tls_read = (\<lambda>_. Inr [''ca'']),
     tls_format = (\<lambda>_. [])\<rparr>"

definition provisioned_fs :: FS where
  "provisioned_fs = (svc_fs old_board)\<lparr>fs_files := (fs_files (svc_fs old_board))
     (fileCloudPrivKey \<mapsto> \<lparr>f_data = Text ''priv'', f_mode = mode_0600\<rparr>)\<rparr>"

lemma tls_ok_connect:
  assumes "fs_files fs = fs_files provisioned_fs"
  obtains fs' where "fs_files fs' = fs_files provisioned_fs"
    "mqtt_exec (ConnectL calm tls_ok [] out) (c, fs) =
       (let c = Disconnect_paho c; h = pc_fresh c; c = log_call (PahoNew h ''id'') (c\<lparr>pc_fresh := Suc h\<rparr>)
        in case out of
             CtxDone completes \<Rightarrow> if completes then c\<lparr>pc_open := h # pc_open c\<rparr> else c
           | TokenDone (Some e) \<Rightarrow> c
           | TokenDone None \<Rightarrow> setClient (Some h) (c\<lparr>pc_open := h # pc_open c\<rparr>), fs')"
proof -
  obtain cfg fs1 where "buildTLSConfig calm tls_ok [] fs = (Inr cfg, fs1)" "fs_files fs1 = fs_files provisioned_fs"
    using assms by (simp add: buildTLSConfig_def DeviceCertPEM_def read_credential_def CloudPrivateKey_def loadPrivKey_def
        brokerRootCAs_def tls_ok_def provisioned_fs_def old_board_def calm_runs file_names)
  moreover obtain fs2 where "DeviceID calm fs1 = (Inr (Text ''id''), fs2)" "fs_files fs2 = fs_files fs1"
    using calculation(2) by (simp add: DeviceID_def read_credential_def provisioned_fs_def old_board_def calm_runs file_names)
  ultimately show ?thesis
    by (intro that [of fs2]) (simp_all add: Connect_paho_def Let_def split: connect_outcome.split option.split)
qed

definition connected_client :: "pahoClient \<times> FS" where
  "connected_client = mqtt_exec (ConnectL calm tls_ok [] (TokenDone None)) (mqtt_exec HandlerL (NewPahoClient, provisioned_fs))"

lemma connected_client_check:
  "pc_client (fst connected_client) = Some 0 \<and> pc_handler (fst connected_client) \<and> pc_open (fst connected_client) = [0]"
  by (rule tls_ok_connect [of provisioned_fs "TokenDone None" "OnConnectionLost NewPahoClient"])
    (simp_all add: connected_client_def Disconnect_paho_def OnConnectionLost_def NewPahoClient_def setClient_def log_call_def Let_def)

lemma connected_client_reach: "reach mqtt_init (mqtt_step (\<lambda>l. \<not> abandoned l)) connected_client"
proof -
  have "reach mqtt_init (mqtt_step (\<lambda>l. \<not> abandoned l)) (NewPahoClient, provisioned_fs)"
    by (rule reach_init) (simp add: mqtt_init_def)
  from reach_step [OF this, of HandlerL "mqtt_exec HandlerL (NewPahoClient, provisioned_fs)"]
  have "reach mqtt_init (mqtt_step (\<lambda>l. \<not> abandoned l)) (mqtt_exec HandlerL (NewPahoClient, provisioned_fs))"
    by (simp add: mqtt_step_def)
  from reach_step [OF this, of "ConnectL calm tls_ok [] (TokenDone None)" connected_client]
  show ?thesis by (simp add: mqtt_step_def connected_client_def del: mqtt_exec.simps)
qed

definition silent :: "paho_call \<Rightarrow> token" where
  "silent _ = None"

theorem wedged_publish_reconnects_witness:
  "\<exists>c'. PublishProperty_paho silent ''t1'' [] (fst connected_client) =
      (Some (ErrBrokerAckTimeout (propertyOutTopic ''t1'')), c') \<and>
    pc_notified c' = pc_notified (fst connected_client) @ [''property publish ack timeout on '' @ propertyOutTopic ''t1'']"
proof -
  let ?f = "demo_fsm\<lparr>f_events := []\<rparr>"
  have r: "reach mqtt_init (mqtt_step (\<lambda>l. \<not> abandoned l)) (fst connected_client, snd connected_client)"
    using connected_client_reach by simp
  have c: "pc_client (fst connected_client) = Some 0" "pc_handler (fst connected_client)"
    using connected_client_check by simp_all
  have t: "\<not> WaitTimeout brokerAckTimeout (silent k)" for k by (simp add: WaitTimeout_def silent_def)
  have f: "f_pc ?f = WaitSteady" "f_events ?f = []" using demo_fsm_facts(2) by simp_all
  from wedged_publish_reconnects [where tok = silent and thingID = "''t1''" and payload = "[]", OF r c t f]
  show ?thesis by blast
qed

text \<open>
  Remark. One session at a time: as long as no \<open>Connect\<close> is abandoned by its context and completes
  behind its back, at most one library client has an open broker session, under every interleaving
  of the calls and of lost connections, and it is the current one.
\<close>

theorem at_most_one_session:
  assumes "reach mqtt_init (mqtt_step (\<lambda>l. \<not> abandoned l)) (c, fs)"
  shows "length (pc_open c) \<le> 1 \<and> (\<forall>h \<in> set (pc_open c). pc_client c = Some h)"
proof -
  have "session_inv (c, fs)" using assms by (rule sessions.reach_inv)
  then have d: "distinct (pc_open c)" and sub: "set (pc_open c) \<subseteq> set_option (pc_client c)"
    by (simp_all add: session_inv_def)
  have "length (pc_open c) = card (set (pc_open c))" using d by (simp add: distinct_card)
  also have "\<dots> \<le> card (set_option (pc_client c))" using sub by (intro card_mono) simp_all
  also have "\<dots> \<le> 1" by (cases "pc_client c") simp_all
  finally show ?thesis using sub by auto
qed

theorem at_most_one_session_witness: "length (pc_open (fst connected_client)) \<le> 1"
proof -
  have "reach mqtt_init (mqtt_step (\<lambda>l. \<not> abandoned l)) (fst connected_client, snd connected_client)"
    using connected_client_reach by simp
  from at_most_one_session [OF this] show ?thesis by simp
qed

text \<open>
  Remark. An abandoned \<open>Connect\<close> leaks its session: when the context ends while the library waits for
  the broker, the new library client is neither kept nor closed; if its session is established
  after all, the next \<open>Connect\<close> opens a second one under the same client id.
\<close>

theorem abandoned_connect_leaks:
  "\<exists>l s. s = mqtt_exec (ConnectL calm tls_ok [] (TokenDone None))
       (mqtt_exec DisconnectL (mqtt_exec l (NewPahoClient, provisioned_fs))) \<and>
     pc_open (fst s) = [1, 0] \<and> pc_client (fst s) = Some 1 \<and>
     pc_calls (fst s) = [PahoNew 0 ''id'', PahoNew 1 ''id'']"
proof -
  obtain fs1 where 1: "fs_files fs1 = fs_files provisioned_fs"
      "mqtt_exec (ConnectL calm tls_ok [] (CtxDone True)) (NewPahoClient, provisioned_fs) =
         (NewPahoClient\<lparr>pc_fresh := 1, pc_calls := [PahoNew 0 ''id''], pc_open := [0]\<rparr>, fs1)"
    by (rule tls_ok_connect [of provisioned_fs "CtxDone True" NewPahoClient])
      (simp_all add: Disconnect_paho_def NewPahoClient_def log_call_def Let_def)
  obtain fs2 where
    "mqtt_exec (ConnectL calm tls_ok [] (TokenDone None))
       (mqtt_exec DisconnectL (NewPahoClient\<lparr>pc_fresh := 1, pc_calls := [PahoNew 0 ''id''], pc_open := [0]\<rparr>, fs1)) =
       (NewPahoClient\<lparr>pc_fresh := 2, pc_calls := [PahoNew 0 ''id'', PahoNew 1 ''id''], pc_open := [1, 0], pc_client := Some 1\<rparr>, fs2)"
    by (rule tls_ok_connect [OF 1(1), of "TokenDone None" "NewPahoClient\<lparr>pc_fresh := 1, pc_calls := [PahoNew 0 ''id''], pc_open := [0]\<rparr>"])
      (simp_all add: Disconnect_paho_def NewPahoClient_def setClient_def log_call_def Let_def)
  then show ?thesis using 1(2) by (intro exI [of _ "ConnectL calm tls_ok [] (CtxDone True)"]) simp
qed

end
