(* ===== verification/Api_Client.thy ===== *)
theory Api_Client
  imports Provisioning
begin

text \<open>
  The interface of \<open>internal/provisioning-api/client.go\<close> between the provisioning service and the
  network: whoever implements \<open>Client\<close> answers a CSR with a device id and a certificate that fit
  together, and confirms an activation. The contract is a locale; what the service makes of it is
  proved once, for the HTTP client and for the test double. A second group of lemmas says how many
  failures of a call the service outlasts.
\<close>

section \<open>The contract\<close>

text \<open>
  \<open>issued token csr deviceID certPEM\<close> is what an implementation promises of an answer to a CSR,
  \<open>confirmed token\<close> what it promises of a successful \<open>Complete\<close>.
\<close>

locale api_client =
  fixes client :: penv
    and issued :: "string \<Rightarrow> string \<Rightarrow> string \<Rightarrow> string \<Rightarrow> bool"
    and confirmed :: "string \<Rightarrow> bool"
  assumes submit_law: "pe_submit client token csr n = Inr (dev, certPEM) \<Longrightarrow> issued token csr dev certPEM"
    and complete_law: "pe_complete client token n = Inr () \<Longrightarrow> confirmed token"
begin

text \<open>A successful provisioning stores one answer of the client, confirmed for the same token.\<close>

lemma Start_stores_issued:
  assumes "Start en client now org s = Some (None, s')" and "\<forall>n. os_fault en n = None"
  obtains token csr dev certPEM where "issued token csr dev certPEM" "confirmed token"
    "fs_files (svc_fs s') fileDeviceID = Some \<lparr>f_data = Text dev, f_mode = mode_0644\<rparr>"
    "fs_files (svc_fs s') fileDeviceCert = Some \<lparr>f_data = Text certPEM, f_mode = mode_0644\<rparr>"
    "fs_files (svc_fs s') markerFile = None"
  by (rule Start_success [OF assms]) (blast intro: that submit_law complete_law)

text \<open>When the client never confirms, no provisioning succeeds.\<close>

lemma Start_unconfirmed:
  assumes "\<forall>n. os_fault en n = None" and "\<And>token. \<not> confirmed token"
  shows "Start en client now org s \<noteq> Some (None, s')"
  using assms by (metis Start_stores_issued)

end

section \<open>Outlasting failures\<close>

text \<open>The loop with prompt calls and waits: its clock is the sum of the back-offs.\<close>

lemma backoff_sum_mono: "k \<le> m \<Longrightarrow> (\<Sum>i<k. backoff_at i) \<le> (\<Sum>i<m. backoff_at i)"
  by (rule sum_mono2) (use backoff_at_bounds(1) in \<open>auto intro: less_imp_le\<close>)

lemma backoff_sum_22: "(\<Sum>i<22. backoff_at i) = 570 * second"
  by (simp add: eval_nat_numeral backoff_at_def retryInitialBackoff_def retryMaxBackoff_def second_def)

definition prompt_from :: "time \<Rightarrow> loopenv" where
  "prompt_from t = \<lparr>le_start = t, le_call = (\<lambda>_. 0), le_cancelled = (\<lambda>_. False), le_sleep = (\<lambda>_. Some 0)\<rparr>"

lemma retry_loop_fails_on:
  assumes "api k = Inl e" and "t + (\<Sum>i<k. backoff_at i) < deadline"
  shows "retry_loop api (prompt_from t) deadline k (t + (\<Sum>i<k. backoff_at i)) (backoff_at k) =
    retry_loop api (prompt_from t) deadline (Suc k) (t + (\<Sum>i<Suc k. backoff_at i)) (backoff_at (Suc k))"
  using assms
  by (subst retry_loop.simps) (simp add: prompt_from_def Let_def backoff_at_Suc add.assoc)

lemma retry_loop_outlasts:
  assumes "k \<le> m" and "m \<le> 23" and "\<And>j. j < m \<Longrightarrow> \<exists>e. api j = Inl e"
  shows "retry_loop api (prompt_from t) (t + provisioningWindow) k (t + (\<Sum>i<k. backoff_at i)) (backoff_at k) =
    retry_loop api (prompt_from t) (t + provisioningWindow) m (t + (\<Sum>i<m. backoff_at i)) (backoff_at m)"
  using assms(1)
proof (induction rule: inc_induct)
  case (step j)
  then obtain e where e: "api j = Inl e" using assms(3) by blast
  have "(\<Sum>i<j. backoff_at i) \<le> 570 * second" using backoff_sum_mono [of j 22] backoff_sum_22 step(2) assms(2) by simp
  then have "t + (\<Sum>i<j. backoff_at i) < t + provisioningWindow" by (simp add: provisioningWindow_def second_def)
  from retry_loop_fails_on [of api j, OF e this] step(3) show ?case by simp
qed simp

text \<open>
  Up to 23 failures are outlasted; the 24th one, 600 seconds after the start, closes the window.
\<close>

lemma retry_loop_exact:
  assumes "\<And>j. j < m \<Longrightarrow> \<exists>e. api j = Inl e" and "m \<le> 23 \<Longrightarrow> api m = Inr r"
  shows "\<exists>e. retry_loop api (prompt_from t) (t + provisioningWindow) 0 t retryInitialBackoff =
    Some (if m \<le> 23 then (Inr r, Suc m) else (Inl (RetryWindowExpired e), 24))"
proof (cases "m \<le> 23")
  case True
  then show ?thesis
    using retry_loop_outlasts [of 0 m api t] assms backoff_at_bounds(2)
    by (simp add: retry_loop.simps [of _ _ _ m])
next
  case False
  then obtain e where "api 23 = Inl e" using assms(1) [of 23] by auto
  then show ?thesis
    using False retry_loop_outlasts [of 0 23 api t] assms(1) backoff_at_bounds(2)
    by (simp add: retry_loop.simps [of _ _ _ 23] Let_def backoff_sum provisioningWindow_def prompt_from_def)
qed

end
