(* ===== verification/Certificate.thy ===== *)
theory Certificate
  imports Der Pem
begin

text \<open>
  The reconstruction of the device certificate from the compressed response of the Provisioning
  API, \<open>internal/provisioning-api/compressed_cert.go\<close>, and the HTTP client around it,
  \<open>client_http.go\<close>. The builder appends bytes the way the code does; it is shown to produce the
  distinguished encoding of the X.509 certificate that the parameters describe, so a strict reader
  gives every field back.
\<close>

section \<open>Constants and names\<close>

definition certSerialNumberLen :: nat where
  "certSerialNumberLen = 16"

definition certAuthorityKeyIDLen :: nat where
  "certAuthorityKeyIDLen = 20"

definition certPublicKeyLen :: nat where
  "certPublicKeyLen = 64"

definition certSignatureLen :: nat where
  "certSignatureLen = 64"

definition certExpireYears :: int where
  "certExpireYears = 31"

lemmas cert_consts = certSerialNumberLen_def certAuthorityKeyIDLen_def certPublicKeyLen_def
  certSignatureLen_def certExpireYears_def

record certName =
  country :: string
  state :: string
  locality :: string
  org :: string
  orgUnit :: string
  commonName :: string

definition certIssuer :: certName where
  "certIssuer = \<lparr>country = ''US'', state = [], locality = [], org = ''Arduino LLC US'', orgUnit = ''IT'',
     commonName = ''Arduino''\<rparr>"

definition asn1Integer :: "8 word" where "asn1Integer = 0x02"
definition asn1BitString :: "8 word" where "asn1BitString = 0x03"
definition asn1ObjectIdentifier :: "8 word" where "asn1ObjectIdentifier = 0x06"
definition asn1PrintableString :: "8 word" where "asn1PrintableString = 0x13"
definition asn1Sequence :: "8 word" where "asn1Sequence = 0x30"
definition asn1Set :: "8 word" where "asn1Set = 0x31"

lemmas asn1_tags = asn1Integer_def asn1BitString_def asn1ObjectIdentifier_def asn1PrintableString_def
  asn1Sequence_def asn1Set_def

record certParams =
  publicKey :: bytes
  deviceID :: string
  serial :: bytes
  authKeyID :: bytes
  signature :: bytes
  issueYear :: int
  issueMonth :: int
  issueDay :: int
  issueHour :: int
  expireYears :: int

section \<open>The builder\<close>

definition appendSequenceHeader :: "bytes \<Rightarrow> nat \<Rightarrow> bytes" where
  "appendSequenceHeader buf len =
     (let buf = buf @ [asn1Sequence]
      in if 255 < len then buf @ [0x82, byte (int (len div 256)), byte (int len)]
         else if 127 < len then buf @ [0x81, byte (int len)]
         else buf @ [byte (int len)])"

definition name_fields :: "certName \<Rightarrow> string list" where
  "name_fields n = [country n, state n, locality n, org n, orgUnit n, commonName n]"

definition certName_length :: "certName \<Rightarrow> nat" where
  "certName_length n = foldl (\<lambda>total f. if 0 < length f then total + (11 + length f) else total) 0 (name_fields n)"

definition emit :: "bytes \<Rightarrow> string \<Rightarrow> 8 word \<Rightarrow> bytes" where
  "emit buf val typ =
     (if length val = 0 then buf
      else let l = length val;
               buf = buf @ [asn1Set, byte (int (l + 9))];
               buf = buf @ [asn1Sequence, byte (int (l + 7))];
               buf = buf @ [asn1ObjectIdentifier, 0x03, 0x55, 0x04, typ];
               buf = buf @ [asn1PrintableString, byte (int l)]
           in buf @ bytes_of val)"

definition appendName :: "bytes \<Rightarrow> certName \<Rightarrow> bytes" where
  "appendName buf n =
     (let buf = emit buf (country n) 0x06;
          buf = emit buf (state n) 0x08;
          buf = emit buf (locality n) 0x07;
          buf = emit buf (org n) 0x0a;
          buf = emit buf (orgUnit n) 0x0b
      in emit buf (commonName n) 0x03)"

fun strip_zeros :: "bytes \<Rightarrow> bytes" where
  "strip_zeros [] = []"
| "strip_zeros (b # s) = (if b = 0x00 then strip_zeros s else b # s)"

definition appendSerialNumber :: "bytes \<Rightarrow> bytes \<Rightarrow> bytes" where
  "appendSerialNumber buf ser =
     (case strip_zeros ser of
        [] \<Rightarrow> buf @ [asn1Integer, 0x01, 0x00]
      | b # s \<Rightarrow>
          let buf = buf @ [asn1Integer];
              buf = (if bit b 7 then buf @ [byte (int (length (b # s) + 1)), 0x00]
                     else buf @ [byte (int (length (b # s)))])
          in buf @ b # s)"

definition appendDate :: "bytes \<Rightarrow> int \<Rightarrow> int \<Rightarrow> int \<Rightarrow> int \<Rightarrow> bytes" where
  "appendDate buf year month day hour =
     (let buf =
        (if 2049 < year then
           buf @ [0x18, 0x0f] @
             [byte (48 + go_div year 1000), byte (48 + go_div (go_mod year 1000) 100),
              byte (48 + go_div (go_mod year 100) 10), byte (48 + go_mod year 10)]
         else
           (let y = year - 2000
            in buf @ [0x17, 0x0d] @ [byte (48 + go_div y 10), byte (48 + go_mod y 10)]));
          buf = buf @ [byte (48 + go_div month 10), byte (48 + go_mod month 10)];
          buf = buf @ [byte (48 + go_div day 10), byte (48 + go_mod day 10)];
          buf = buf @ [byte (48 + go_div hour 10), byte (48 + go_mod hour 10)];
          buf = buf @ [48, 48];
          buf = buf @ [48, 48]
      in buf @ [0x5a])"

definition appendPublicKey :: "bytes \<Rightarrow> bytes \<Rightarrow> bytes" where
  "appendPublicKey buf key =
     (let buf = buf @ [asn1Sequence, 2 + 9 + 10 + 4 + 64];
          buf = buf @ [asn1Sequence, 0x13];
          buf = buf @ [asn1ObjectIdentifier, 0x07, 0x2a, 0x86, 0x48, 0xce, 0x3d, 0x02, 0x01];
          buf = buf @ [asn1ObjectIdentifier, 0x08, 0x2a, 0x86, 0x48, 0xce, 0x3d, 0x03, 0x01, 0x07];
          buf = buf @ [asn1BitString, 0x42, 0x00, 0x04]
      in buf @ key)"

definition appendEcdsaWithSHA256 :: "bytes \<Rightarrow> bytes" where
  "appendEcdsaWithSHA256 buf =
     buf @ [asn1Sequence, 0x0a, asn1ObjectIdentifier, 0x08, 0x2a, 0x86, 0x48, 0xce, 0x3d, 0x04, 0x03, 0x02]"

definition appendAuthorityKeyID :: "bytes \<Rightarrow> bytes \<Rightarrow> bytes" where
  "appendAuthorityKeyID buf aki =
     (let buf = buf @ [0xa3, 0x23];
          buf = buf @ [asn1Sequence, 0x21];
          buf = buf @ [asn1Sequence, 0x1f];
          buf = buf @ [asn1ObjectIdentifier, 0x03, 0x55, 0x1d, 0x23];
          buf = buf @ [0x04, 0x18];
          buf = buf @ [asn1Sequence, 0x16];
          buf = buf @ [0x80, 0x14]
      in buf @ aki)"

definition authorityKeyIDSet :: "bytes \<Rightarrow> bool" where
  "authorityKeyIDSet aki = list_ex (\<lambda>b. b \<noteq> 0) aki"

text \<open>The loop stops before the last octet.\<close>

fun strip_leading :: "bytes \<Rightarrow> bytes" where
  "strip_leading (a # b # s) = (if a = 0x00 then strip_leading (b # s) else a # b # s)"
| "strip_leading s = s"

definition derInteger :: "bytes \<Rightarrow> bytes" where
  "derInteger b = (let v = strip_leading b in if bit (hd v) 7 then 0x00 # v else v)"

definition appendSignature :: "bytes \<Rightarrow> bytes \<Rightarrow> bytes" where
  "appendSignature buf sig =
     (let buf = appendEcdsaWithSHA256 buf;
          r = derInteger (take 32 sig);
          s = derInteger (take 32 (drop 32 sig));
          buf = buf @ [asn1BitString, byte (int (length r + length s + 7)), 0x00];
          buf = buf @ [asn1Sequence, byte (int (length r + length s + 4))];
          buf = buf @ [asn1Integer, byte (int (length r))];
          buf = buf @ r;
          buf = buf @ [asn1Integer, byte (int (length s))]
      in buf @ s)"

definition buildTBS :: "certParams \<Rightarrow> bytes" where
  "buildTBS p =
     (let subject = \<lparr>country = [], state = [], locality = [], org = [], orgUnit = [], commonName = deviceID p\<rparr>;
          inner = [0xa0, 0x03, 0x02, 0x01, 0x02];
          inner = appendSerialNumber inner (serial p);
          inner = appendEcdsaWithSHA256 inner;
          inner = appendSequenceHeader inner (certName_length certIssuer);
          inner = appendName inner certIssuer;
          notAfterYear = issueYear p + expireYears p;
          valLen = (30 :: int);
          valLen = (if 2049 < issueYear p then valLen + 2 else valLen);
          valLen = (if 2049 < notAfterYear then valLen + 2 else valLen);
          inner = inner @ [asn1Sequence, byte valLen];
          inner = appendDate inner (issueYear p) (issueMonth p) (issueDay p) (issueHour p);
          inner = appendDate inner notAfterYear (issueMonth p) (issueDay p) (issueHour p);
          inner = appendSequenceHeader inner (certName_length subject);
          inner = appendName inner subject;
          inner = appendPublicKey inner (publicKey p);
          inner = (if authorityKeyIDSet (authKeyID p) then appendAuthorityKeyID inner (authKeyID p)
                   else inner @ [0xa3, 0x02, 0x30, 0x00]);
          tbs = appendSequenceHeader [] (length inner)
      in tbs @ inner)"

definition buildCert :: "certParams \<Rightarrow> bytes" where
  "buildCert p =
     (let tbs = buildTBS p;
          sig = appendSignature [] (signature p);
          cert = appendSequenceHeader [] (length tbs + length sig);
          cert = cert @ tbs
      in cert @ sig)"

section \<open>Parsing the response\<close>

datatype cert_error =
    ResponseFormat nat
  | FieldLength
  | BadHex string
  | NotBefore string
  | InvalidCSR string
  | SliceOutOfRange

definition slice :: "string \<Rightarrow> nat \<Rightarrow> nat \<Rightarrow> string" where
  "slice s i j = drop i (take j s)"

definition parseNotBefore :: "string \<Rightarrow> (cert_error, int \<times> int \<times> int \<times> int) result" where
  "parseNotBefore s =
     (if length s < 13 then Inl (NotBefore ''too short'')
      else case Atoi (slice s 0 4) of
        None \<Rightarrow> Inl (NotBefore ''year'')
      | Some year \<Rightarrow>
     (case Atoi (slice s 5 7) of
        None \<Rightarrow> Inl (NotBefore ''month'')
      | Some month \<Rightarrow>
     (case Atoi (slice s 8 10) of
        None \<Rightarrow> Inl (NotBefore ''day'')
      | Some day \<Rightarrow>
     (case Atoi (slice s 11 13) of
        None \<Rightarrow> Inl (NotBefore ''hour'')
      | Some hour \<Rightarrow> Inr (year, month, day, hour)))))"

text \<open>
  \<open>csr_point\<close> decodes a PEM CSR to the uncompressed point of its elliptic-curve key
  (\<open>pem.Decode\<close>, \<open>x509.ParseCertificateRequest\<close>, \<open>ECDH().Bytes()\<close>) or reports why it cannot.
\<close>

definition publicKeyFromCSR :: "(string \<Rightarrow> (string, bytes) result) \<Rightarrow> string \<Rightarrow> (cert_error, bytes) result" where
  "publicKeyFromCSR csr_point csrPEM =
     (case csr_point csrPEM of
        Inl e \<Rightarrow> Inl (InvalidCSR e)
      | Inr raw \<Rightarrow>
          if length raw < 65 then Inl SliceOutOfRange
          else Inr (drop 1 (take 33 raw) @ drop 33 (take 65 raw)))"

text \<open>The parsed parts of a response.\<close>

definition response_params ::
  "(string \<Rightarrow> (string, bytes) result) \<Rightarrow> string \<Rightarrow> string \<Rightarrow> (cert_error, certParams) result" where
  "response_params csr_point csrPEM responseBody =
     (case Split (TrimSpace responseBody) (CHR ''|'') of
        [devID, akiHex, notBefore, serialHex, sigXHex, sigYHex] \<Rightarrow>
          if length devID \<noteq> 36 \<or> length akiHex \<noteq> 2 * certAuthorityKeyIDLen \<or>
             length serialHex \<noteq> 2 * certSerialNumberLen \<or>
             length sigXHex \<noteq> certSignatureLen \<or> length sigYHex \<noteq> certSignatureLen
          then Inl FieldLength
          else
            (case hex_DecodeString akiHex of
               None \<Rightarrow> Inl (BadHex ''authority_key_identifier'')
             | Some aki \<Rightarrow>
            (case hex_DecodeString serialHex of
               None \<Rightarrow> Inl (BadHex ''serial'')
             | Some ser \<Rightarrow>
            (case hex_DecodeString sigXHex of
               None \<Rightarrow> Inl (BadHex ''signature x'')
             | Some sigX \<Rightarrow>
            (case hex_DecodeString sigYHex of
               None \<Rightarrow> Inl (BadHex ''signature y'')
             | Some sigY \<Rightarrow>
            (case parseNotBefore notBefore of
               Inl e \<Rightarrow> Inl e
             | Inr (year, month, day, hour) \<Rightarrow>
            (case publicKeyFromCSR csr_point csrPEM of
               Inl e \<Rightarrow> Inl e
             | Inr pubKey \<Rightarrow>
                 Inr \<lparr>publicKey = pubKey, deviceID = devID, serial = ser, authKeyID = aki,
                      signature = sigX @ sigY, issueYear = year, issueMonth = month, issueDay = day,
                      issueHour = hour, expireYears = certExpireYears\<rparr>))))))
      | parts \<Rightarrow> Inl (ResponseFormat (length parts)))"

definition reconstructDeviceCert ::
  "(string \<Rightarrow> (string, bytes) result) \<Rightarrow> string \<Rightarrow> string \<Rightarrow>
     (cert_error, string \<times> string) result" where
  "reconstructDeviceCert csr_point csrPEM responseBody =
     (case response_params csr_point csrPEM responseBody of
        Inl e \<Rightarrow> Inl e
      | Inr p \<Rightarrow> Inr (deviceID p, pem_EncodeToMemory ''CERTIFICATE'' (buildCert p)))"

section \<open>The certificate as an ASN.1 value\<close>

definition oid :: "bytes \<Rightarrow> der" where
  "oid b = Primitive asn1ObjectIdentifier b"

definition seq :: "der list \<Rightarrow> der" where
  "seq ds = Constructed asn1Sequence ds"

definition ecdsaWithSHA256 :: der where
  "ecdsaWithSHA256 = seq [oid [0x2a, 0x86, 0x48, 0xce, 0x3d, 0x04, 0x03, 0x02]]"

definition attribute :: "8 word \<Rightarrow> string \<Rightarrow> der list" where
  "attribute typ val =
     (if val = [] then []
      else [Constructed asn1Set [seq [oid [0x55, 0x04, typ], Primitive asn1PrintableString (bytes_of val)]]])"

definition name_value :: "certName \<Rightarrow> der" where
  "name_value n =
     seq (attribute 0x06 (country n) @ attribute 0x08 (state n) @ attribute 0x07 (locality n) @
          attribute 0x0a (org n) @ attribute 0x0b (orgUnit n) @ attribute 0x03 (commonName n))"

definition date_value :: "int \<Rightarrow> int \<Rightarrow> int \<Rightarrow> int \<Rightarrow> der" where
  "date_value year month day hour =
     (let digits = (\<lambda>n. [byte (48 + go_div n 10), byte (48 + go_mod n 10)]);
          rest = digits month @ digits day @ digits hour @ [48, 48, 48, 48, 0x5a]
      in if 2049 < year
         then Primitive 0x18 ([byte (48 + go_div year 1000), byte (48 + go_div (go_mod year 1000) 100),
                               byte (48 + go_div (go_mod year 100) 10), byte (48 + go_mod year 10)] @ rest)
         else Primitive 0x17 (digits (year - 2000) @ rest))"

definition key_value :: "bytes \<Rightarrow> der" where
  "key_value key =
     seq [seq [oid [0x2a, 0x86, 0x48, 0xce, 0x3d, 0x02, 0x01], oid [0x2a, 0x86, 0x48, 0xce, 0x3d, 0x03, 0x01, 0x07]],
          Primitive asn1BitString ([0x00, 0x04] @ key)]"

definition serial_content :: "bytes \<Rightarrow> bytes" where
  "serial_content ser =
     (case strip_zeros ser of [] \<Rightarrow> [0] | b # s \<Rightarrow> if bit b 7 then 0 # b # s else b # s)"

definition extensions_value :: "bytes \<Rightarrow> der" where
  "extensions_value aki =
     Constructed 0xa3
       [seq (if authorityKeyIDSet aki
             then [seq [oid [0x55, 0x1d, 0x23], Primitive 0x04 (der_encode (seq [Primitive 0x80 aki]))]]
             else [])]"

definition tbs_value :: "certParams \<Rightarrow> der" where
  "tbs_value p =
     seq [Constructed 0xa0 [Primitive asn1Integer [2]],
          Primitive asn1Integer (serial_content (serial p)),
          ecdsaWithSHA256,
          name_value certIssuer,
          seq [date_value (issueYear p) (issueMonth p) (issueDay p) (issueHour p),
               date_value (issueYear p + expireYears p) (issueMonth p) (issueDay p) (issueHour p)],
          name_value \<lparr>country = [], state = [], locality = [], org = [], orgUnit = [], commonName = deviceID p\<rparr>,
          key_value (publicKey p),
          extensions_value (authKeyID p)]"

definition signature_value :: "bytes \<Rightarrow> der" where
  "signature_value sig =
     Primitive asn1BitString
       (0 # der_encode (seq [Primitive asn1Integer (derInteger (take 32 sig)),
                             Primitive asn1Integer (derInteger (take 32 (drop 32 sig)))]))"

definition cert_value :: "certParams \<Rightarrow> der" where
  "cert_value p = seq [tbs_value p, ecdsaWithSHA256, signature_value (signature p)]"

section \<open>The builder encodes the value\<close>

lemma byte_int: "byte (int n) = of_nat n" "byte (a + b) = byte a + byte b" "byte (numeral k) = numeral k" "byte 1 = 1"
  by (simp_all add: byte_def)

lemma appendSequenceHeader_tlv:
  "n < 65536 \<Longrightarrow> appendSequenceHeader buf n = buf @ asn1Sequence # der_length n"
proof -
  have "(of_nat (n mod 256) :: 8 word) = of_nat n" by (simp add: word_of_nat_eq_iff take_bit_eq_mod)
  then show ?thesis by (simp add: appendSequenceHeader_def der_length_def byte_int Let_def)
qed

lemma small_tlv: "length b < 128 \<Longrightarrow> tlv t b = t # of_nat (length b) # b"
  by (simp add: tlv_def der_length_def)

lemma der_encodes_append [simp]: "der_encodes (xs @ ys) = der_encodes xs @ der_encodes ys"
  by (induction xs) simp_all

lemma emit_attribute:
  assumes "length val \<le> 100"
  shows "emit buf val typ = buf @ der_encodes (attribute typ val)"
proof -
  have "tlv asn1PrintableString (bytes_of val) = asn1PrintableString # of_nat (length val) # bytes_of val"
    using assms by (simp add: small_tlv)
  moreover have "tlv asn1ObjectIdentifier [0x55, 0x04, typ] = [asn1ObjectIdentifier, 0x03, 0x55, 0x04, typ]"
    by (simp add: small_tlv)
  ultimately show ?thesis
    using assms
    by (simp add: emit_def attribute_def seq_def oid_def Let_def small_tlv byte_int add.commute)
qed

lemma attribute_length: "length val \<le> 100 \<Longrightarrow>
    length (der_encodes (attribute typ val)) = (if val = [] then 0 else 11 + length val)"
  by (simp add: attribute_def seq_def oid_def small_tlv)

definition short_name :: "certName \<Rightarrow> bool" where
  "short_name n \<longleftrightarrow> list_all (\<lambda>f. length f \<le> 100) (name_fields n)"

lemma appendName_value:
  assumes "short_name n"
  shows "appendName (appendSequenceHeader buf (certName_length n)) n = buf @ der_encode (name_value n)"
proof -
  define as where "as = attribute 0x06 (country n) @ attribute 0x08 (state n) @ attribute 0x07 (locality n) @
      attribute 0x0a (org n) @ attribute 0x0b (orgUnit n) @ attribute 0x03 (commonName n)"
  have s: "length (country n) \<le> 100" "length (state n) \<le> 100" "length (locality n) \<le> 100"
    "length (org n) \<le> 100" "length (orgUnit n) \<le> 100" "length (commonName n) \<le> 100"
    using assms by (simp_all add: short_name_def name_fields_def)
  have len: "length (der_encodes as) = certName_length n" "certName_length n < 65536"
    using s by (simp_all add: as_def certName_length_def name_fields_def attribute_length)
  have "appendName b n = b @ der_encodes as" for b
    using s by (simp add: appendName_def as_def emit_attribute Let_def)
  then show ?thesis
    using len by (simp add: appendSequenceHeader_tlv name_value_def seq_def tlv_def as_def [symmetric])
qed

lemma strip_zeros_length: "length (strip_zeros s) \<le> length s"
  by (induction s) auto

lemma appendSerialNumber_value:
  assumes "length ser \<le> 100"
  shows "appendSerialNumber buf ser = buf @ der_encode (Primitive asn1Integer (serial_content ser))"
  using strip_zeros_length [of ser] assms
  by (auto simp: appendSerialNumber_def serial_content_def small_tlv byte_int Let_def split: list.split)

lemma appendDate_value: "appendDate buf year month day hour = buf @ der_encode (date_value year month day hour)"
  by (simp add: appendDate_def date_value_def small_tlv Let_def)

lemma date_length: "length (der_encode (date_value year month day hour)) = (if 2049 < year then 17 else 15)"
  by (simp add: date_value_def small_tlv Let_def)

lemma appendPublicKey_value:
  assumes "length key = 64"
  shows "appendPublicKey buf key = buf @ der_encode (key_value key)"
  using assms by (simp add: appendPublicKey_def key_value_def seq_def oid_def small_tlv Let_def)

lemma appendEcdsa_value: "appendEcdsaWithSHA256 buf = buf @ der_encode ecdsaWithSHA256"
  by (simp add: appendEcdsaWithSHA256_def ecdsaWithSHA256_def seq_def oid_def small_tlv)

lemma extensions_encode:
  assumes "length aki = 20"
  shows "(if authorityKeyIDSet aki then appendAuthorityKeyID buf aki else buf @ [0xa3, 0x02, 0x30, 0x00]) =
    buf @ der_encode (extensions_value aki)"
  using assms
  by (simp add: extensions_value_def appendAuthorityKeyID_def seq_def oid_def small_tlv Let_def asn1_tags)

lemma strip_leading_length: "length (strip_leading s) \<le> length s"
  by (induction s rule: strip_leading.induct) auto

lemma derInteger_length: "length (derInteger s) \<le> length s + 1"
  using strip_leading_length [of s] by (simp add: derInteger_def Let_def)

lemma appendSignature_value:
  assumes "length sig = 64"
  shows "appendSignature buf sig = buf @ der_encode ecdsaWithSHA256 @ der_encode (signature_value sig)"
proof -
  have "length (derInteger (take 32 sig)) \<le> 33" "length (derInteger (take 32 (drop 32 sig))) \<le> 33"
    using derInteger_length [of "take 32 sig"] derInteger_length [of "take 32 (drop 32 sig)"] assms by simp_all
  then show ?thesis
    by (simp add: appendSignature_def signature_value_def appendEcdsa_value seq_def small_tlv byte_int Let_def
        ac_simps)
qed

definition params_ok :: "certParams \<Rightarrow> bool" where
  "params_ok p \<longleftrightarrow> length (publicKey p) = certPublicKeyLen \<and> length (deviceID p) \<le> 100 \<and>
     length (serial p) = certSerialNumberLen \<and> length (authKeyID p) = certAuthorityKeyIDLen \<and>
     length (signature p) = certSignatureLen"

abbreviation subject_name :: "certParams \<Rightarrow> certName" where
  "subject_name p \<equiv>
     \<lparr>country = [], state = [], locality = [], org = [], orgUnit = [], commonName = deviceID p\<rparr>"

lemma serial_content_length: "length (serial_content ser) \<le> length ser + 1"
  using strip_zeros_length [of ser] by (auto simp: serial_content_def split: list.split)

lemma tlv_length: "length b < 65536 \<Longrightarrow> length (tlv t b) \<le> length b + 4"
  by (simp add: tlv_def der_length_def)

lemma name_value_length:
  assumes "short_name n"
  shows "length (der_encode (name_value n)) \<le> certName_length n + 4" "certName_length n \<le> 666"
proof -
  have s: "length (country n) \<le> 100" "length (state n) \<le> 100" "length (locality n) \<le> 100"
    "length (org n) \<le> 100" "length (orgUnit n) \<le> 100" "length (commonName n) \<le> 100"
    using assms by (simp_all add: short_name_def name_fields_def)
  then show b: "certName_length n \<le> 666" by (auto simp: certName_length_def name_fields_def)
  define as where "as = attribute 0x06 (country n) @ attribute 0x08 (state n) @ attribute 0x07 (locality n) @
      attribute 0x0a (org n) @ attribute 0x0b (orgUnit n) @ attribute 0x03 (commonName n)"
  have "length (der_encodes as) = certName_length n"
    using s by (simp add: as_def certName_length_def name_fields_def attribute_length)
  moreover have "der_encode (name_value n) = tlv asn1Sequence (der_encodes as)"
    by (simp add: name_value_def seq_def as_def)
  ultimately show "length (der_encode (name_value n)) \<le> certName_length n + 4"
    using tlv_length [of "der_encodes as" asn1Sequence] b by simp
qed

lemma issuer_short: "short_name certIssuer"
  by (simp add: short_name_def name_fields_def certIssuer_def)

lemma subject_short: "length d \<le> 100 \<Longrightarrow>
    short_name \<lparr>country = [], state = [], locality = [], org = [], orgUnit = [], commonName = d\<rparr>"
  by (simp add: short_name_def name_fields_def)

lemma key_value_length: "length key = 64 \<Longrightarrow> length (der_encode (key_value key)) = 91"
  by (simp add: key_value_def seq_def oid_def small_tlv)

lemma extensions_length: "length aki = 20 \<Longrightarrow> length (der_encode (extensions_value aki)) \<le> 37"
  by (simp add: extensions_value_def seq_def oid_def small_tlv)

lemma ecdsa_length: "length (der_encode ecdsaWithSHA256) = 12"
  by (simp add: ecdsaWithSHA256_def seq_def oid_def small_tlv)

lemma signature_length: "length sig = 64 \<Longrightarrow> length (der_encode (signature_value sig)) \<le> 80"
  using derInteger_length [of "take 32 sig"] derInteger_length [of "take 32 (drop 32 sig)"]
  by (simp add: signature_value_def seq_def small_tlv)

text \<open>The contents of the certificate to be signed, element by element.\<close>

definition tbs_elements :: "certParams \<Rightarrow> der list" where
  "tbs_elements p =
     [Constructed 0xa0 [Primitive asn1Integer [2]], Primitive asn1Integer (serial_content (serial p)),
      ecdsaWithSHA256, name_value certIssuer,
      seq [date_value (issueYear p) (issueMonth p) (issueDay p) (issueHour p),
           date_value (issueYear p + expireYears p) (issueMonth p) (issueDay p) (issueHour p)],
      name_value (subject_name p), key_value (publicKey p), extensions_value (authKeyID p)]"

lemma dates_value:
  "der_encode (seq [date_value y m d h, date_value y' m d h]) =
     [asn1Sequence, byte (let valLen = 30; valLen = (if 2049 < y then valLen + 2 else valLen)
                          in if 2049 < y' then valLen + 2 else valLen)] @
     der_encode (date_value y m d h) @ der_encode (date_value y' m d h)"
proof -
  let ?b = "der_encode (date_value y m d h) @ der_encode (date_value y' m d h)"
  have "length ?b = (if 2049 < y then 17 else 15) + (if 2049 < y' then 17 else 15)"
    by (simp only: length_append date_length)
  moreover have "der_encode (seq [date_value y m d h, date_value y' m d h]) = tlv asn1Sequence ?b"
    by (simp add: seq_def)
  ultimately show ?thesis by (simp add: small_tlv byte_int Let_def)
qed

lemma tbs_elements_length:
  assumes "params_ok p"
  shows "length (der_encodes (tbs_elements p)) < 60000"
proof -
  let ?dates = "seq [date_value (issueYear p) (issueMonth p) (issueDay p) (issueHour p),
    date_value (issueYear p + expireYears p) (issueMonth p) (issueDay p) (issueHour p)]"
  have 1: "length (der_encode (Primitive asn1Integer (serial_content (serial p)))) \<le> 21"
    using serial_content_length [of "serial p"] assms by (simp add: params_ok_def cert_consts small_tlv)
  have 2: "length (der_encode ?dates) \<le> 38"
    by (simp add: dates_value date_length)
  have 3: "length (der_encode (Constructed 0xa0 [Primitive asn1Integer [2]])) = 5" by (simp add: small_tlv)
  have 4: "length (der_encode (name_value certIssuer)) \<le> 670"
    using name_value_length [OF issuer_short] by linarith
  have 5: "length (der_encode (name_value (subject_name p))) \<le> 670"
    using name_value_length [OF subject_short [of "deviceID p"]] assms unfolding params_ok_def by linarith
  have 6: "length (der_encode (key_value (publicKey p))) = 91" "length (der_encode (extensions_value (authKeyID p))) \<le> 37"
    using key_value_length extensions_length assms by (simp_all add: params_ok_def cert_consts)
  have "length (der_encodes (tbs_elements p)) =
    length (der_encode (Constructed 0xa0 [Primitive asn1Integer [2]])) +
    length (der_encode (Primitive asn1Integer (serial_content (serial p)))) +
    length (der_encode ecdsaWithSHA256) + length (der_encode (name_value certIssuer)) + length (der_encode ?dates) +
    length (der_encode (name_value (subject_name p))) + length (der_encode (key_value (publicKey p))) +
    length (der_encode (extensions_value (authKeyID p)))"
    unfolding tbs_elements_def by (simp only: der_encodes.simps length_append append_Nil2 add.assoc)
  then show ?thesis using 1 2 3 4 5 6 ecdsa_length by linarith
qed

lemma buildTBS_value:
  assumes "params_ok p"
  shows "buildTBS p = der_encode (tbs_value p)"
proof -
  let ?y = "issueYear p" and ?y' = "issueYear p + expireYears p"
  have v: "[0xa0, 0x03, 0x02, 0x01, 0x02] = der_encode (Constructed 0xa0 [Primitive asn1Integer [2]])"
    by (simp add: small_tlv asn1_tags)
  have sz: "length (serial p) \<le> 100" "length (publicKey p) = 64" "length (authKeyID p) = 20"
      "short_name (subject_name p)"
    using assms subject_short by (simp_all add: params_ok_def cert_consts)
  note dates = dates_value [of ?y "issueMonth p" "issueDay p" "issueHour p" ?y', unfolded Let_def, symmetric]
  have "buildTBS p = (let inner = der_encodes (tbs_elements p) in appendSequenceHeader [] (length inner) @ inner)"
    unfolding buildTBS_def Let_def v appendSerialNumber_value [OF sz(1)] appendEcdsa_value
      appendName_value [OF issuer_short] appendDate_value appendName_value [OF sz(4)]
      appendPublicKey_value [OF sz(2)] extensions_encode [OF sz(3)]
    using dates by (simp add: tbs_elements_def del: der_encode.simps)
  then show ?thesis
    using tbs_elements_length [OF assms]
    by (simp add: Let_def appendSequenceHeader_tlv tbs_value_def tbs_elements_def seq_def tlv_def del: der_encodes.simps)
qed

lemma buildCert_value:
  assumes "params_ok p"
  shows "buildCert p = der_encode (cert_value p)"
proof -
  have sig: "length (signature p) = 64" using assms by (simp add: params_ok_def cert_consts)
  let ?b = "der_encode (tbs_value p) @ der_encode ecdsaWithSHA256 @ der_encode (signature_value (signature p))"
  have tbs: "length (der_encode (tbs_value p)) \<le> 60004"
    using tlv_length [of "der_encodes (tbs_elements p)" asn1Sequence] tbs_elements_length [OF assms]
    by (simp add: tbs_value_def tbs_elements_def seq_def del: der_encodes.simps)
  then have "length ?b < 65536" using ecdsa_length signature_length [OF sig] by (simp del: der_encode.simps)
  then show ?thesis
    unfolding buildCert_def Let_def buildTBS_value [OF assms] appendSignature_value [OF sig]
    by (simp add: appendSequenceHeader_tlv cert_value_def seq_def tlv_def del: der_encode.simps(1))
qed

section \<open>Well-formedness\<close>

lemma tag_kinds [simp]:
  "\<not> constructed_tag asn1Integer" "\<not> constructed_tag asn1BitString" "\<not> constructed_tag asn1ObjectIdentifier"
  "\<not> constructed_tag asn1PrintableString" "constructed_tag asn1Sequence" "constructed_tag asn1Set"
  "constructed_tag 0xa0" "constructed_tag 0xa3" "\<not> constructed_tag 0x80" "\<not> constructed_tag 0x04"
  "\<not> constructed_tag 0x17" "\<not> constructed_tag 0x18"
  by (simp_all add: constructed_tag_def asn1_tags)

lemma attribute_ok: "length val \<le> 100 \<Longrightarrow> list_all der_ok (attribute typ val)"
  by (simp add: attribute_def seq_def oid_def small_tlv)

lemma name_ok:
  assumes "short_name n"
  shows "der_ok (name_value n)"
proof -
  have s: "length (country n) \<le> 100" "length (state n) \<le> 100" "length (locality n) \<le> 100"
    "length (org n) \<le> 100" "length (orgUnit n) \<le> 100" "length (commonName n) \<le> 100"
    using assms by (simp_all add: short_name_def name_fields_def)
  then show ?thesis by (simp add: name_value_def seq_def attribute_ok attribute_length)
qed

lemma date_ok: "der_ok (date_value year month day hour)"
  by (simp add: date_value_def Let_def)

lemma elements_ok:
  assumes "params_ok p"
  shows "list_all der_ok (tbs_elements p)"
proof -
  have "der_ok (seq [date_value y m d h, date_value y' m d h])" for y y' m d h
    by (simp add: seq_def date_ok date_length)
  moreover have "der_ok (Primitive asn1Integer (serial_content (serial p)))"
    using serial_content_length [of "serial p"] assms by (simp add: params_ok_def cert_consts)
  moreover have "der_ok (key_value (publicKey p))"
    using assms by (simp add: params_ok_def cert_consts key_value_def seq_def oid_def small_tlv)
  moreover have "der_ok (extensions_value (authKeyID p))"
    using assms by (simp add: params_ok_def cert_consts extensions_value_def seq_def oid_def small_tlv)
  moreover have "der_ok ecdsaWithSHA256" by (simp add: ecdsaWithSHA256_def seq_def oid_def small_tlv)
  moreover have "der_ok (name_value (subject_name p))"
    using assms by (intro name_ok subject_short) (simp add: params_ok_def)
  ultimately show ?thesis
    using name_ok [OF issuer_short] by (simp add: tbs_elements_def small_tlv)
qed

lemma cert_ok:
  assumes "params_ok p"
  shows "der_ok (cert_value p)"
proof -
  have sig: "length (signature p) = 64" using assms by (simp add: params_ok_def cert_consts)
  have tbs: "tbs_value p = Constructed asn1Sequence (tbs_elements p)"
    by (simp add: tbs_value_def tbs_elements_def seq_def)
  have len: "length (der_encodes (tbs_elements p)) < 60000" by (rule tbs_elements_length [OF assms])
  have "length (der_encode (tbs_value p)) \<le> 60004"
    using tlv_length [of "der_encodes (tbs_elements p)" asn1Sequence] len by (simp add: tbs)
  moreover have "der_ok (tbs_value p)" using elements_ok [OF assms] len by (simp add: tbs)
  moreover have "der_ok ecdsaWithSHA256" by (simp add: ecdsaWithSHA256_def seq_def oid_def small_tlv)
  moreover have "length (der_encode (signature_value (signature p))) \<le> 80" by (rule signature_length [OF sig])
  moreover have "der_ok (signature_value (signature p))"
    using derInteger_length [of "take 32 (signature p)"] derInteger_length [of "take 32 (drop 32 (signature p))"] sig
    by (simp add: signature_value_def seq_def small_tlv)
  ultimately show ?thesis using ecdsa_length by (simp add: cert_value_def seq_def del: der_encode.simps)
qed

section \<open>Integers\<close>

lemma strip_zeros_dropWhile: "strip_zeros s = dropWhile (\<lambda>b. b = 0) s"
  by (induction s) auto

lemma strip_leading_value: "octets_value (strip_leading s) = octets_value s"
  by (induction s rule: strip_leading.induct) auto

lemma strip_leading_shape: "s \<noteq> [] \<Longrightarrow> \<exists>b r. strip_leading s = b # r \<and> (b = 0 \<longrightarrow> r = [])"
  by (induction s rule: strip_leading.induct) auto

lemma derInteger_value:
  assumes "s \<noteq> []"
  shows "octets_value (derInteger s) = octets_value s" and "unsigned_integer (derInteger s)"
proof -
  obtain b r where v: "strip_leading s = b # r" "b = 0 \<longrightarrow> r = []" using strip_leading_shape [OF assms] by blast
  show "octets_value (derInteger s) = octets_value s"
    using strip_leading_value [of s] by (simp add: derInteger_def Let_def)
  show "unsigned_integer (derInteger s)" using v by (auto simp: derInteger_def unsigned_integer_def Let_def)
qed

lemma serial_value:
  "octets_value (serial_content s) = octets_value s" "unsigned_integer (serial_content s)"
proof -
  have v: "octets_value (strip_zeros s) = octets_value s"
    by (simp add: strip_zeros_dropWhile octets_value_drop_zeros)
  have h: "strip_zeros s = b # r \<Longrightarrow> b \<noteq> 0" for b r
    using hd_dropWhile [of "\<lambda>b. b = 0" s] by (auto simp: strip_zeros_dropWhile)
  show "octets_value (serial_content s) = octets_value s"
    using v by (auto simp: serial_content_def octets_value_def split: list.splits)
  show "unsigned_integer (serial_content s)"
    using h by (auto simp: serial_content_def unsigned_integer_def split: list.splits)
qed

section \<open>Validity dates\<close>

text \<open>How a reader of RFC 5280 dates sees one: two-digit years up to 49 are in this century.\<close>

definition two_digits :: "8 word \<Rightarrow> 8 word \<Rightarrow> int option" where
  "two_digits a b =
     (if 48 \<le> uint a \<and> uint a \<le> 57 \<and> 48 \<le> uint b \<and> uint b \<le> 57
      then Some (10 * (uint a - 48) + (uint b - 48)) else None)"

definition read_fields :: "bytes \<Rightarrow> (int \<times> int \<times> int) option" where
  "read_fields bs =
     (case bs of
        m1 # m2 # d1 # d2 # h1 # h2 # rest \<Rightarrow>
          (case (two_digits m1 m2, two_digits d1 d2, two_digits h1 h2) of
             (Some m, Some d, Some h) \<Rightarrow> if rest = [48, 48, 48, 48, 0x5a] then Some (m, d, h) else None
           | _ \<Rightarrow> None)
      | _ \<Rightarrow> None)"

fun read_date :: "der \<Rightarrow> (int \<times> int \<times> int \<times> int) option" where
  "read_date (Primitive t (a # b # bs)) =
     (if t = 0x17 then
        (case (two_digits a b, read_fields bs) of
           (Some y, Some (m, d, h)) \<Rightarrow> Some (if y < 50 then 2000 + y else 1900 + y, m, d, h)
         | _ \<Rightarrow> None)
      else if t = 0x18 then
        (case bs of
           c # e # r \<Rightarrow>
             (case (two_digits a b, two_digits c e, read_fields r) of
                (Some y, Some z, Some (m, d, h)) \<Rightarrow> Some (100 * y + z, m, d, h)
              | _ \<Rightarrow> None)
         | _ \<Rightarrow> None)
      else None)"
| "read_date _ = None"

lemma uint_byte: "0 \<le> n \<Longrightarrow> n < 256 \<Longrightarrow> uint (byte n) = n"
  by (simp add: byte_def uint_word_of_int)

lemma two_digits_of:
  assumes "0 \<le> a" "a < 10" "0 \<le> b" "b < 10"
  shows "two_digits (byte (48 + a)) (byte (48 + b)) = Some (10 * a + b)"
  using assms by (simp add: two_digits_def uint_byte)

lemma two_digits_value:
  assumes "0 \<le> n" "n < 100"
  shows "two_digits (byte (48 + go_div n 10)) (byte (48 + go_mod n 10)) = Some n"
  using two_digits_of [of "n div 10" "n mod 10"] assms by simp

lemma read_fields_of:
  assumes "0 \<le> month" "month < 100" "0 \<le> day" "day < 100" "0 \<le> hour" "hour < 100"
  shows "read_fields (byte (48 + go_div month 10) # byte (48 + go_mod month 10) #
      byte (48 + go_div day 10) # byte (48 + go_mod day 10) #
      byte (48 + go_div hour 10) # byte (48 + go_mod hour 10) # [48, 48, 48, 48, 0x5a]) = Some (month, day, hour)"
  by (simp only: read_fields_def list.case prod.case option.case two_digits_value [OF assms(1,2)]
    two_digits_value [OF assms(3,4)] two_digits_value [OF assms(5,6)] if_True simp_thms)

lemma date_reads:
  assumes "2000 \<le> year" "year \<le> 9999" "0 \<le> month" "month < 100" "0 \<le> day" "day < 100" "0 \<le> hour" "hour < 100"
  shows "read_date (date_value year month day hour) = Some (year, month, day, hour)"
proof (cases "2049 < year")
  case True
  have y1: "two_digits (byte (48 + go_div year 1000)) (byte (48 + go_div (go_mod year 1000) 100)) = Some (year div 100)"
  proof -
    have "year mod (100 * 10) = 100 * (year div 100 mod 10) + year mod 100"
      by (rule zmod_zmult2_eq) simp
    then have m: "year mod 1000 div 100 = year div 100 mod 10" by simp
    have d: "year div 1000 = year div 100 div 10" using zdiv_zmult2_eq [of 10 year 100] by simp
    have b: "0 \<le> year div 1000" "year div 1000 < 10" using assms(1,2) by simp_all
    have "two_digits (byte (48 + year div 1000)) (byte (48 + year div 100 mod 10)) =
        Some (10 * (year div 1000) + year div 100 mod 10)"
      by (rule two_digits_of [OF b]) simp_all
    moreover have "10 * (year div 1000) + year div 100 mod 10 = year div 100"
      unfolding d by (rule mult_div_mod_eq)
    moreover have "go_div year 1000 = year div 1000" "go_div (go_mod year 1000) 100 = year mod 1000 div 100"
      using assms(1) by simp_all
    ultimately show ?thesis by (simp only: m)
  qed
  have y2: "two_digits (byte (48 + go_div (go_mod year 100) 10)) (byte (48 + go_mod year 10)) = Some (year mod 100)"
  proof -
    have m: "year mod 100 mod 10 = year mod 10" by (rule mod_mod_cancel) simp
    have "two_digits (byte (48 + year mod 100 div 10)) (byte (48 + year mod 10)) =
        Some (10 * (year mod 100 div 10) + year mod 10)"
      by (rule two_digits_of) simp_all
    moreover have "10 * (year mod 100 div 10) + year mod 10 = year mod 100"
      using mult_div_mod_eq [of 10 "year mod 100"] by (simp only: m)
    moreover have "go_div (go_mod year 100) 10 = year mod 100 div 10" "go_mod year 10 = year mod 10"
      using assms(1) by simp_all
    ultimately show ?thesis by (simp only:)
  qed
  show ?thesis
    by (simp only: date_value_def Let_def True if_True append_Cons append_Nil read_date.simps y1 y2
        read_fields_of [OF assms(3-8)] list.case prod.case option.case mult_div_mod_eq) simp
next
  case False
  have y: "two_digits (byte (48 + go_div (year - 2000) 10)) (byte (48 + go_mod (year - 2000) 10)) = Some (year - 2000)"
    by (rule two_digits_value) (use assms False in simp_all)
  show ?thesis
    using False
    by (simp only: date_value_def Let_def if_False append_Cons append_Nil read_date.simps y
        read_fields_of [OF assms(3-8)] list.case prod.case option.case) simp
qed

section \<open>Properties of the certificate\<close>


definition demo_params :: certParams where
  "demo_params = \<lparr>publicKey = replicate 64 7, deviceID = ''d'', serial = replicate 15 0 @ [0x80],
     authKeyID = replicate 20 9, signature = replicate 64 0, issueYear = 2024, issueMonth = 1, issueDay = 15,
     issueHour = 10, expireYears = 31\<rparr>"


text \<open>
  Remark. The integers of the certificate are exact: the serial number and both halves of the signature
  are written as minimal non-negative INTEGERs with the number of the octets given, zero and a set
  top bit included.
\<close>

theorem cert_integers_exact:
  assumes "length (signature p) = certSignatureLen"
  shows "octets_value (serial_content (serial p)) = octets_value (serial p) \<and> unsigned_integer (serial_content (serial p)) \<and>
    octets_value (derInteger (take 32 (signature p))) = octets_value (take 32 (signature p)) \<and>
    unsigned_integer (derInteger (take 32 (signature p))) \<and>
    octets_value (derInteger (take 32 (drop 32 (signature p)))) = octets_value (drop 32 (signature p)) \<and>
    unsigned_integer (derInteger (take 32 (drop 32 (signature p)))) \<and>
    appendSerialNumber [] (replicate 16 0) = [asn1Integer, 1, 0]"
proof -
  have l: "length (signature p) = 64" using assms by (simp add: cert_consts)
  then have ne: "take 32 (signature p) \<noteq> []" "take 32 (drop 32 (signature p)) \<noteq> []" by (auto simp: length_0_conv [symmetric] simp del: length_0_conv)
  have "take 32 (drop 32 (signature p)) = drop 32 (signature p)" using l by simp
  moreover have "appendSerialNumber [] (replicate 16 0) = [asn1Integer, 1, 0]"
    by (simp add: appendSerialNumber_def strip_zeros_dropWhile)
  ultimately show ?thesis
    using serial_value derInteger_value [OF ne(1)] derInteger_value [OF ne(2)] by simp
qed

theorem cert_integers_exact_witness: "octets_value (serial_content (serial demo_params)) = 128"
proof -
  have "octets_value (serial demo_params) = 128" by code_simp
  moreover have "length (signature demo_params) = certSignatureLen" by (simp add: demo_params_def cert_consts)
  ultimately show ?thesis using cert_integers_exact [of demo_params] by simp
qed

text \<open>
  Remark. The certificate determines its content: two sets of parameters of the checked lengths that
  give the same certificate have the same device id, public key, serial number, signature and, when
  it is set, authority key identifier.
\<close>

theorem buildCert_injective:
  assumes "buildCert p = buildCert q" and "params_ok p" and "params_ok q"
  shows "deviceID p = deviceID q \<and> publicKey p = publicKey q \<and> octets_value (serial p) = octets_value (serial q) \<and>
    octets_value (take 32 (signature p)) = octets_value (take 32 (signature q)) \<and>
    octets_value (drop 32 (signature p)) = octets_value (drop 32 (signature q)) \<and>
    (authorityKeyIDSet (authKeyID p) \<longrightarrow> authKeyID p = authKeyID q)"
proof -
  have eq: "cert_value p = cert_value q"
    using assms der.enc_inject [OF _ cert_ok cert_ok] by (simp add: buildCert_value)
  then have tbs: "tbs_value p = tbs_value q" and sig: "signature_value (signature p) = signature_value (signature q)"
    by (simp_all add: cert_value_def seq_def)
  have k: "publicKey p = publicKey q" using tbs by (simp add: tbs_value_def seq_def key_value_def)
  have s: "serial_content (serial p) = serial_content (serial q)" using tbs by (simp add: tbs_value_def seq_def)
  have "bytes_of (deviceID p) = bytes_of (deviceID q)"
    using tbs by (auto simp: tbs_value_def seq_def name_value_def attribute_def split: if_splits)
  then have d: "deviceID p = deviceID q" by (rule bytes_of_inj)
  have a: "authKeyID p = authKeyID q" if "authorityKeyIDSet (authKeyID p)"
    using tbs that assms(2,3)
    by (auto simp: tbs_value_def seq_def extensions_value_def params_ok_def cert_consts small_tlv split: if_splits)
  have l: "length (signature p) = 64" "length (signature q) = 64"
    using assms by (simp_all add: params_ok_def cert_consts)
  have len: "length (derInteger (take 32 x)) \<le> 33" "length (derInteger (take 32 (drop 32 x))) \<le> 33"
    if "length x = 64" for x
    using derInteger_length [of "take 32 x"] derInteger_length [of "take 32 (drop 32 x)"] that by simp_all
  define sv where "sv x = seq [Primitive asn1Integer (derInteger (take 32 x)),
      Primitive asn1Integer (derInteger (take 32 (drop 32 x)))]" for x
  have "der_encode (sv (signature p)) = der_encode (sv (signature q))" using sig by (simp add: signature_value_def sv_def)
  moreover have "der_ok (sv x)" if "length x = 64" for x using len [OF that] by (simp add: sv_def seq_def small_tlv)
  ultimately have "sv (signature p) = sv (signature q)" using der.enc_inject l by blast
  then have r: "derInteger (take 32 (signature p)) = derInteger (take 32 (signature q))"
    "derInteger (take 32 (drop 32 (signature p))) = derInteger (take 32 (drop 32 (signature q)))"
    by (simp_all add: sv_def seq_def)
  have ne: "take 32 x \<noteq> []" "take 32 (drop 32 x) \<noteq> []" "take 32 (drop 32 x) = drop 32 x" if "length x = 64" for x :: bytes
    using that by (auto simp: length_0_conv [symmetric] simp del: length_0_conv)
  show ?thesis
    using k d a serial_value(1) [of "serial p"] serial_value(1) [of "serial q"] s
      derInteger_value(1) [OF ne(1) [OF l(1)]] derInteger_value(1) [OF ne(1) [OF l(2)]]
      derInteger_value(1) [OF ne(2) [OF l(1)]] derInteger_value(1) [OF ne(2) [OF l(2)]] r ne(3) [OF l(1)] ne(3) [OF l(2)]
    by simp
qed


theorem buildCert_injective_witness: "deviceID demo_params = deviceID (demo_params\<lparr>issueHour := 10\<rparr>)"
proof -
  have "params_ok demo_params" by (simp add: params_ok_def demo_params_def cert_consts)
  moreover have "params_ok (demo_params\<lparr>issueHour := 10\<rparr>)" by (simp add: params_ok_def demo_params_def cert_consts)
  moreover have "buildCert demo_params = buildCert (demo_params\<lparr>issueHour := 10\<rparr>)" by (simp add: demo_params_def)
  ultimately show ?thesis using buildCert_injective by blast
qed

section \<open>The response\<close>

lemma response_params_fields:
  assumes "response_params csr_point csr body = Inr p"
  obtains aki nb ser x y where "Split (TrimSpace body) (CHR ''|'') = [deviceID p, aki, nb, ser, x, y]"
    and "length (deviceID p) = 36" and "hex_DecodeString aki = Some (authKeyID p)"
    and "hex_DecodeString ser = Some (serial p)" and "length (authKeyID p) = 20" and "length (serial p) = 16"
    and "length (signature p) = 64"
    and "parseNotBefore nb = Inr (issueYear p, issueMonth p, issueDay p, issueHour p)"
    and "publicKeyFromCSR csr_point csr = Inr (publicKey p)" and "expireYears p = certExpireYears"
proof -
  obtain d aki nb ser x y where fs: "Split (TrimSpace body) (CHR ''|'') = [d, aki, nb, ser, x, y]"
    using assms by (auto simp: response_params_def split: list.splits)
  note ex = assms [unfolded response_params_def fs, simplified]
  show thesis
    by (rule that [of aki nb ser x y])
      (use ex fs in \<open>auto simp: cert_consts split: if_splits option.splits sum.splits prod.splits
         dest!: hex_DecodeString_length\<close>)
qed

lemma publicKeyFromCSR_length: "publicKeyFromCSR csr_point csr = Inr k \<Longrightarrow> length k = certPublicKeyLen"
  by (auto simp: publicKeyFromCSR_def certPublicKeyLen_def split: sum.splits if_splits)

lemma response_params_ok:
  assumes "response_params csr_point csr body = Inr p"
  shows "params_ok p"
  by (rule response_params_fields [OF assms])
    (simp add: params_ok_def certAuthorityKeyIDLen_def certSerialNumberLen_def certSignatureLen_def publicKeyFromCSR_length)

section \<open>The stored text\<close>

text \<open>A reader of the PEM text of a certificate: the block, then the value in its encoding.\<close>

interpretation cert_text: codec_chain der_encode der_parse der_ok "pem_EncodeToMemory ''CERTIFICATE''"
  "pem_block ''CERTIFICATE''" "\<lambda>_. CHR 0x0A \<notin> set ''CERTIFICATE''"
  by unfold_locales simp

definition read_certificate :: "string \<Rightarrow> der option" where
  "read_certificate text = Option.bind (pem_block ''CERTIFICATE'' text) der_parse"

lemma read_certificate_built:
  "params_ok p \<Longrightarrow> read_certificate (pem_EncodeToMemory ''CERTIFICATE'' (buildCert p)) = Some (cert_value p)"
  unfolding read_certificate_def by (simp add: buildCert_value cert_text.both.dec_enc cert_ok)

text \<open>
  Remark. A response that is accepted gives the certificate of the key that was submitted: it has six
  fields, the device id is the first of them and is 36 bytes long, and the PEM holds the
  distinguished encoding of the X.509 certificate with that id as subject, with the public key of
  the CSR and with a validity of 31 years.
\<close>

theorem reconstructDeviceCert_certificate:
  assumes "reconstructDeviceCert csr_point csr body = Inr (dev, pem)"
  shows "\<exists>p. length (Split (TrimSpace body) (CHR ''|'')) = 6 \<and> hd (Split (TrimSpace body) (CHR ''|'')) = dev \<and>
    length dev = 36 \<and> deviceID p = dev \<and> publicKeyFromCSR csr_point csr = Inr (publicKey p) \<and> expireYears p = 31 \<and>
    pem = pem_EncodeToMemory ''CERTIFICATE'' (der_encode (cert_value p)) \<and> read_certificate pem = Some (cert_value p)"
proof -
  obtain p where p: "response_params csr_point csr body = Inr p" "dev = deviceID p"
    "pem = pem_EncodeToMemory ''CERTIFICATE'' (buildCert p)"
    using assms by (auto simp: reconstructDeviceCert_def split: sum.splits)
  have ok: "params_ok p" by (rule response_params_ok [OF p(1)])
  show ?thesis
    by (rule response_params_fields [OF p(1)], rule exI [of _ p])
      (use p ok read_certificate_built [OF ok] in \<open>simp add: buildCert_value cert_consts\<close>)
qed


definition demo_csr_point :: "string \<Rightarrow> (string, bytes) result" where
  "demo_csr_point csr = (if csr = ''csr'' then Inr (4 # replicate 64 7) else Inl ''no PEM block'')"

definition demo_device :: string where
  "demo_device = ''00000000-1111-2222-3333-444444444444''"

definition demo_cert_params :: certParams where
  "demo_cert_params = \<lparr>publicKey = replicate 64 7, deviceID = demo_device, serial = replicate 15 0 @ [0x80],
     authKeyID = replicate 20 9, signature = replicate 64 0xAB, issueYear = 2024, issueMonth = 2, issueDay = 29,
     issueHour = 10, expireYears = 31\<rparr>"

text \<open>What the Provisioning API sends for a certificate it has signed, given the text of the issue date.\<close>

definition response_text :: "certParams \<Rightarrow> string \<Rightarrow> string" where
  "response_text p notBefore =
     Join [deviceID p, hex_EncodeToString (authKeyID p), notBefore, hex_EncodeToString (serial p),
           hex_EncodeToString (take 32 (signature p)), hex_EncodeToString (drop 32 (signature p))] (CHR ''|'')"

definition demo_body :: string where
  "demo_body = response_text demo_cert_params ''2024-02-29T10:30:00Z'' @ ''\<newline>''"

lemma demo_cert_ok: "params_ok demo_cert_params" "length (deviceID demo_cert_params) = 36"
  by (simp_all add: params_ok_def demo_cert_params_def demo_device_def cert_consts)

lemma demo_date: "parseNotBefore ''2024-02-29T10:30:00Z'' = Inr (2024, 2, 29, 10)"
  by code_simp

lemma demo_key: "publicKeyFromCSR demo_csr_point ''csr'' = Inr (replicate 64 7)"
  by (simp add: publicKeyFromCSR_def demo_csr_point_def flip: replicate_add)

lemma demo_body_trimmed: "TrimSpace demo_body = response_text demo_cert_params ''2024-02-29T10:30:00Z''"
  unfolding demo_body_def
proof (rule TrimSpace_line(2))
  show "graphic (hd (response_text demo_cert_params ''2024-02-29T10:30:00Z''))"
    by (simp add: response_text_def demo_cert_params_def demo_device_def graphic_def)
  have "replicate 32 (0xAB :: 8 word) = replicate 31 0xAB @ [0xAB]"
    using replicate_add [of 31 1 "0xAB :: 8 word"] by simp
  moreover have "hex_EncodeToString [0xAB] = ''ab''"
    by code_simp
  ultimately have "hex_EncodeToString (drop 32 (replicate 64 0xAB)) = hex_EncodeToString (replicate 31 0xAB) @ ''ab''"
    by (simp add: hex_EncodeToString_def)
  then show "graphic (last (response_text demo_cert_params ''2024-02-29T10:30:00Z''))"
    by (simp add: response_text_def demo_cert_params_def graphic_def)
qed (simp add: response_text_def)

lemma Split_response_text:
  assumes "CHR ''|'' \<notin> set (deviceID p)" and "CHR ''|'' \<notin> set nb"
  shows "Split (response_text p nb) (CHR ''|'') =
    [deviceID p, hex_EncodeToString (authKeyID p), nb, hex_EncodeToString (serial p),
     hex_EncodeToString (take 32 (signature p)), hex_EncodeToString (drop 32 (signature p))]"
proof -
  have "hex_value (CHR ''|'') = None" by code_simp
  then have "CHR ''|'' \<notin> set (hex_EncodeToString b)" for b using hex_EncodeToString_chars by blast
  then show ?thesis unfolding response_text_def using assms by (intro Split_Join) auto
qed




lemma demo_response: "response_params demo_csr_point ''csr'' demo_body = Inr demo_cert_params"
proof -
  have "CHR ''|'' \<notin> set (deviceID demo_cert_params)" "CHR ''|'' \<notin> set ''2024-02-29T10:30:00Z''"
    by (simp_all add: demo_cert_params_def demo_device_def)
  from Split_response_text [OF this]
  show ?thesis
    by (simp add: response_params_def demo_body_trimmed hex_roundtrip demo_date demo_key cert_consts
      demo_cert_params_def demo_device_def flip: replicate_add)
qed

theorem reconstructDeviceCert_certificate_witness:
  "\<exists>p pem. reconstructDeviceCert demo_csr_point ''csr'' demo_body = Inr (demo_device, pem) \<and>
     deviceID p = demo_device \<and> pem = pem_EncodeToMemory ''CERTIFICATE'' (der_encode (cert_value p))"
proof -
  have r: "reconstructDeviceCert demo_csr_point ''csr'' demo_body =
      Inr (demo_device, pem_EncodeToMemory ''CERTIFICATE'' (buildCert demo_cert_params))"
    by (simp add: reconstructDeviceCert_def demo_response) (simp add: demo_cert_params_def)
  with reconstructDeviceCert_certificate [OF r] show ?thesis by metis
qed

section \<open>Validity\<close>

text \<open>The two dates of a certificate, as a reader finds them.\<close>

fun validity_of :: "der \<Rightarrow> ((int \<times> int \<times> int \<times> int) \<times> (int \<times> int \<times> int \<times> int)) option" where
  "validity_of (Constructed _ [Constructed _ (_ # _ # _ # _ # Constructed _ [b, a] # _), _, _]) =
     (case (read_date b, read_date a) of (Some x, Some y) \<Rightarrow> Some (x, y) | _ \<Rightarrow> None)"
| "validity_of _ = None"

definition leap_year :: "int \<Rightarrow> bool" where
  "leap_year y \<longleftrightarrow> 4 dvd y \<and> (\<not> 100 dvd y \<or> 400 dvd y)"

definition days_in :: "int \<Rightarrow> int \<Rightarrow> int" where
  "days_in y m =
     (if m \<in> {1, 3, 5, 7, 8, 10, 12} then 31 else if m \<in> {4, 6, 9, 11} then 30
      else if m = 2 then if leap_year y then 29 else 28 else 0)"

definition calendar_date :: "int \<times> int \<times> int \<times> int \<Rightarrow> bool" where
  "calendar_date = (\<lambda>(y, m, d, h). 1 \<le> d \<and> d \<le> days_in y m \<and> 0 \<le> h \<and> h < 24)"

lemma calendar_fields:
  "calendar_date (y, m, d, h) \<Longrightarrow> 0 \<le> m \<and> m < 100 \<and> 0 \<le> d \<and> d < 100 \<and> 0 \<le> h \<and> h < 100"
  by (auto simp: calendar_date_def days_in_def split: if_splits)

lemma validity_cert_value:
  "validity_of (cert_value p) =
     (case (read_date (date_value (issueYear p) (issueMonth p) (issueDay p) (issueHour p)),
            read_date (date_value (issueYear p + expireYears p) (issueMonth p) (issueDay p) (issueHour p))) of
        (Some x, Some y) \<Rightarrow> Some (x, y) | _ \<Rightarrow> None)"
  by (simp add: cert_value_def tbs_value_def seq_def)

text \<open>
  Remark. The validity written in the certificate reads back as the issue date of the response and the
  same date and hour 31 years later, whichever of the two time formats each year needs.
\<close>

theorem validity_reads:
  assumes "params_ok p" and "calendar_date (issueYear p, issueMonth p, issueDay p, issueHour p)"
    and "2000 \<le> issueYear p" and "issueYear p \<le> 9968" and "expireYears p = certExpireYears"
  shows "Option.bind (der_parse (buildCert p)) validity_of =
    Some ((issueYear p, issueMonth p, issueDay p, issueHour p), (issueYear p + 31, issueMonth p, issueDay p, issueHour p))"
proof -
  note f = calendar_fields [OF assms(2)]
  have "read_date (date_value (issueYear p) (issueMonth p) (issueDay p) (issueHour p)) =
      Some (issueYear p, issueMonth p, issueDay p, issueHour p)"
    by (rule date_reads) (use f assms in simp_all)
  moreover have "read_date (date_value (issueYear p + 31) (issueMonth p) (issueDay p) (issueHour p)) =
      Some (issueYear p + 31, issueMonth p, issueDay p, issueHour p)"
    by (rule date_reads) (use f assms in simp_all)
  moreover have "der_parse (buildCert p) = Some (cert_value p)"
    using assms(1) by (simp add: buildCert_value cert_ok der_roundtrip)
  ultimately show ?thesis using assms(5) by (simp add: validity_cert_value certExpireYears_def)
qed

theorem validity_reads_witness:
  "Option.bind (der_parse (buildCert demo_cert_params)) validity_of = Some ((2024, 2, 29, 10), (2055, 2, 29, 10))"
proof -
  have "calendar_date (issueYear demo_cert_params, issueMonth demo_cert_params, issueDay demo_cert_params,
      issueHour demo_cert_params)"
    by (simp add: calendar_date_def days_in_def leap_year_def demo_cert_params_def)
  from validity_reads [OF demo_cert_ok(1) this] show ?thesis by (simp add: demo_cert_params_def certExpireYears_def)
qed

text \<open>
  Remark. A certificate issued on a leap day is given an end of validity that is not a date: 31 years
  after a leap year is never a leap year, so the 29th of February written there does not exist.
\<close>

theorem leap_day_expiry:
  "\<forall>p. params_ok p \<and> calendar_date (issueYear p, 2, 29, issueHour p) \<and> 2000 \<le> issueYear p \<and> issueYear p \<le> 9968 \<and>
     issueMonth p = 2 \<and> issueDay p = 29 \<and> expireYears p = certExpireYears \<longrightarrow>
     (\<exists>nb na. Option.bind (der_parse (buildCert p)) validity_of = Some (nb, na) \<and>
        calendar_date nb \<and> \<not> calendar_date na)"
proof (intro allI impI, elim conjE)
  fix p :: certParams
  assume a: "params_ok p" "calendar_date (issueYear p, 2, 29, issueHour p)" "2000 \<le> issueYear p" "issueYear p \<le> 9968"
    "issueMonth p = 2" "issueDay p = 29" "expireYears p = certExpireYears"
  note f = calendar_fields [OF a(2)]
  have nb: "read_date (date_value (issueYear p) 2 29 (issueHour p)) = Some (issueYear p, 2, 29, issueHour p)"
    by (rule date_reads) (use f a(3,4) in simp_all)
  have na: "read_date (date_value (issueYear p + 31) 2 29 (issueHour p)) = Some (issueYear p + 31, 2, 29, issueHour p)"
    by (rule date_reads) (use f a(3,4) in simp_all)
  have "leap_year (issueYear p)" using a(2) by (simp add: calendar_date_def days_in_def split: if_splits)
  then have "4 dvd issueYear p" by (simp add: leap_year_def)
  then have "\<not> 4 dvd issueYear p + 31" by presburger
  then have "\<not> calendar_date (issueYear p + 31, 2, 29, issueHour p)"
    by (simp add: calendar_date_def days_in_def leap_year_def)
  moreover have "der_parse (buildCert p) = Some (cert_value p)"
    using a(1) by (simp add: buildCert_value cert_ok der_roundtrip)
  ultimately show "\<exists>nb na. Option.bind (der_parse (buildCert p)) validity_of = Some (nb, na) \<and>
      calendar_date nb \<and> \<not> calendar_date na"
    using nb na a by (simp add: validity_cert_value certExpireYears_def)
qed

theorem leap_day_expiry_witness:
  "\<exists>nb na. Option.bind (der_parse (buildCert demo_cert_params)) validity_of = Some (nb, na) \<and>
     calendar_date nb \<and> \<not> calendar_date na"
proof -
  have "calendar_date (issueYear demo_cert_params, 2, 29, issueHour demo_cert_params)"
    by (simp add: calendar_date_def days_in_def leap_year_def demo_cert_params_def)
  moreover have "2000 \<le> issueYear demo_cert_params \<and> issueYear demo_cert_params \<le> 9968 \<and> issueMonth demo_cert_params = 2 \<and>
      issueDay demo_cert_params = 29 \<and> expireYears demo_cert_params = certExpireYears"
    by (simp add: demo_cert_params_def certExpireYears_def)
  ultimately show ?thesis using leap_day_expiry demo_cert_ok(1) by blast
qed

end
