(* ===== verification/Config.thy ===== *)
theory Config
  imports Json
begin

text \<open>
  The configuration of the daemon, \<open>internal/config/config.go\<close>: the defaults and how the
  environment overrides them. \<open>getenv\<close> is \<open>os.Getenv\<close>, which is empty for an unset variable.
\<close>

record Config =
  cfg_DataDir :: string
  cfg_Port :: int
  cfg_Socket :: string
  cfg_MQTTBroker :: string
  cfg_ProvisioningAPI :: string
  cfg_MQTTCAFile :: string
  cfg_LogLevel :: string
  cfg_NTPProbeHost :: string
  cfg_Version :: string

definition defaultPort :: int where
  "defaultPort = 5683"

definition defaultSocket :: string where
  "defaultSocket = ''/run/arduino-cloud-connector/daemon.sock''"

definition defaultMQTTBroker :: string where
  "defaultMQTTBroker = ''mqtts://iot.arduino.cc:8885''"

definition defaultProvisioningAPI :: string where
  "defaultProvisioningAPI = ''https://api2.arduino.cc/provisioning''"

definition defaultDataDir :: string where
  "defaultDataDir = ''/var/lib/arduino-cloud-connector''"

definition defaultMQTTCAFile :: string where
  "defaultMQTTCAFile = []"

definition defaultLogLevel :: string where
  "defaultLogLevel = ''info''"

definition defaultNTPProbeHost :: string where
  "defaultNTPProbeHost = ''time.arduino.cc:123''"

datatype config_error = InvalidPort string

definition env_name :: "string \<Rightarrow> string" where
  "env_name n = ''ARDUINO_CLOUD_CONNECTOR__'' @ n"

definition envOr :: "(string \<Rightarrow> string) \<Rightarrow> string \<Rightarrow> string \<Rightarrow> string" where
  "envOr getenv key fallback = (if getenv key \<noteq> [] then getenv key else fallback)"

definition NewFromEnv :: "(string \<Rightarrow> string) \<Rightarrow> (config_error, Config) result" where
  "NewFromEnv getenv =
     (let cfg = \<lparr>cfg_DataDir = envOr getenv (env_name ''DATA_DIR'') defaultDataDir,
                 cfg_Port = defaultPort,
                 cfg_Socket = envOr getenv (env_name ''SOCKET'') defaultSocket,
                 cfg_MQTTBroker = envOr getenv (env_name ''MQTT_BROKER'') defaultMQTTBroker,
                 cfg_ProvisioningAPI = envOr getenv (env_name ''PROVISIONING_API'') defaultProvisioningAPI,
                 cfg_MQTTCAFile = envOr getenv (env_name ''MQTT_CA_FILE'') defaultMQTTCAFile,
                 cfg_LogLevel = envOr getenv (env_name ''LOG_LEVEL'') defaultLogLevel,
                 cfg_NTPProbeHost = envOr getenv (env_name ''NTP_PROBE_HOST'') defaultNTPProbeHost,
                 cfg_Version = []\<rparr>;
          portStr = getenv (env_name ''PORT'')
      in if portStr \<noteq> [] then
           (case Atoi portStr of
              None \<Rightarrow> Inl (InvalidPort portStr)
            | Some p \<Rightarrow> Inr (cfg\<lparr>cfg_Port := p\<rparr>))
         else Inr cfg)"

definition DaemonVersion :: "Config \<Rightarrow> string" where
  "DaemonVersion c = (if cfg_Version c = [] then ''0.0.0-dev'' else cfg_Version c)"

lemma envOr_simps [simp]:
  "getenv key = [] \<Longrightarrow> envOr getenv key fallback = fallback"
  "getenv key \<noteq> [] \<Longrightarrow> envOr getenv key fallback = getenv key"
  by (simp_all add: envOr_def)

text \<open>
  Remark. The environment decides the configuration: it is refused exactly when the port is set to
  something that is no integer; otherwise every setting is the variable's value or, when the
  variable is empty, its default, a port written in decimal is read back, and the reported version
  is never empty.
\<close>

theorem NewFromEnv_overrides:
  "(case NewFromEnv getenv of
      Inl e \<Rightarrow> e = InvalidPort (getenv (env_name ''PORT'')) \<and> getenv (env_name ''PORT'') \<noteq> [] \<and>
        Atoi (getenv (env_name ''PORT'')) = None
    | Inr cfg \<Rightarrow>
        cfg_DataDir cfg = envOr getenv (env_name ''DATA_DIR'') defaultDataDir \<and>
        cfg_ProvisioningAPI cfg = envOr getenv (env_name ''PROVISIONING_API'') defaultProvisioningAPI \<and>
        cfg_MQTTBroker cfg = envOr getenv (env_name ''MQTT_BROKER'') defaultMQTTBroker \<and>
        cfg_Socket cfg = envOr getenv (env_name ''SOCKET'') defaultSocket \<and>
        (getenv (env_name ''PORT'') = [] \<longrightarrow> cfg_Port cfg = defaultPort) \<and>
        (\<forall>n. - (2 ^ 63) \<le> n \<and> n < 2 ^ 63 \<and> getenv (env_name ''PORT'') = Itoa n \<longrightarrow> cfg_Port cfg = n) \<and>
        DaemonVersion cfg = ''0.0.0-dev'')"
  by (auto simp: NewFromEnv_def Let_def Atoi_Itoa DaemonVersion_def split: option.split)

theorem NewFromEnv_overrides_witness:
  "\<exists>cfg. NewFromEnv (\<lambda>k. if k = env_name ''PORT'' then Itoa 8080 else []) = Inr cfg \<and>
     cfg_Port cfg = 8080 \<and> cfg_DataDir cfg = defaultDataDir"
proof -
  define ge where "ge = (\<lambda>k. if k = env_name ''PORT'' then Itoa 8080 else [])"
  have p: "ge (env_name ''PORT'') = Itoa 8080" "ge (env_name ''DATA_DIR'') = []"
    by (simp_all add: ge_def env_name_def)
  then have "Atoi (ge (env_name ''PORT'')) = Some 8080" by (simp add: Atoi_Itoa)
  then have "\<exists>cfg. NewFromEnv ge = Inr cfg" by (simp add: NewFromEnv_def Let_def)
  then obtain cfg where c: "NewFromEnv ge = Inr cfg" ..
  have "(8080 :: int) < 2 ^ 63" by simp
  then have "cfg_Port cfg = 8080 \<and> cfg_DataDir cfg = defaultDataDir"
    using NewFromEnv_overrides [of ge] c p by simp
  with c show ?thesis unfolding ge_def by blast
qed

end
