(* ===== verification/Provisioning_Client.thy ===== *)
theory Provisioning_Client
  imports Api_Client Certificate Config
begin

text \<open>
  The HTTP client of the Provisioning API, \<open>internal/provisioning-api/client_http.go\<close>, and its
  composition with the provisioning service: what a provisioning over this client stores. The
  network is a parameter: for every call, how long the exchange takes and how it ends.
\<close>

section \<open>HTTP\<close>

record http_request =
  rq_method :: string
  rq_url :: string
  rq_headers :: "(string \<times> string) list"
  rq_body :: string

text \<open>A response: the status and what \<open>io.ReadAll\<close> makes of the body.\<close>

record http_response =
  rs_status :: int
  rs_body :: "(string, string) result"

text \<open>
  \<open>he_new\<close> is the error of \<open>http.NewRequestWithContext\<close> for a URL, \<open>he_exchange\<close> the n-th exchange:
  its duration, and an error of the transport or the response.
\<close>

record httpenv =
  he_new :: "string \<Rightarrow> string option"
  he_exchange :: "http_request \<Rightarrow> nat \<Rightarrow> nat \<times> (string, http_response) result"

definition requestTimeout :: duration where
  "requestTimeout = 10 * second"

text \<open>\<open>http.Client{Timeout: requestTimeout}\<close>: a longer exchange is cut off with an error.\<close>

record httpClient =
  hc_cfg :: Config
  hc_Timeout :: duration

definition NewClient :: "Config \<Rightarrow> httpClient" where
  "NewClient cfg = \<lparr>hc_cfg = cfg, hc_Timeout = requestTimeout\<rparr>"

definition http_Do :: "httpenv \<Rightarrow> httpClient \<Rightarrow> http_request \<Rightarrow> nat \<Rightarrow> nat \<times> (string, http_response) result" where
  "http_Do he c rq n =
     (case he_exchange he rq n of
        (d, r) \<Rightarrow> if hc_Timeout c < int d then (nat (hc_Timeout c), Inl ''Client.Timeout exceeded'') else (d, r))"

section \<open>The two calls\<close>

datatype client_error =
    NewRequestError string
  | PostError string string
  | ReadError string
  | StatusError string int string
  | BadCertificate cert_error

definition csrRequest :: "string \<Rightarrow> string" where
  "csrRequest csr = object [(''csr'', quote csr)]"

definition completeRequest :: "string \<Rightarrow> string" where
  "completeRequest wifiFWVersion = object [(''wifi_fw_version'', quote wifiFWVersion)]"

definition post_request :: "httpClient \<Rightarrow> string \<Rightarrow> string \<Rightarrow> string \<Rightarrow> http_request" where
  "post_request c path token body =
     \<lparr>rq_method = ''POST'', rq_url = cfg_ProvisioningAPI (hc_cfg c) @ path,
      rq_headers = [(''Content-Type'', ''application/json''), (''Authorization'', ''Bearer '' @ token)],
      rq_body = body\<rparr>"

type_synonym key_reader = "string \<Rightarrow> (string, bytes) result"

definition SubmitCSR ::
  "httpenv \<Rightarrow> key_reader \<Rightarrow> httpClient \<Rightarrow> string \<Rightarrow> string \<Rightarrow> nat \<Rightarrow>
     nat \<times> (client_error, string \<times> string) result" where
  "SubmitCSR he csr_point c token csr n =
     (let rq = post_request c ''/v1/onboarding/provision/csr'' token (csrRequest csr)
      in case he_new he (rq_url rq) of
           Some e \<Rightarrow> (0, Inl (NewRequestError e))
         | None \<Rightarrow>
             (case http_Do he c rq n of
                (d, Inl e) \<Rightarrow> (d, Inl (PostError ''provision/csr'' e))
              | (d, Inr resp) \<Rightarrow>
                  (d, case rs_body resp of
                        Inl e \<Rightarrow> Inl (ReadError e)
                      | Inr respBody \<Rightarrow>
                          if rs_status resp \<noteq> 200 then Inl (StatusError ''provision/csr'' (rs_status resp) respBody)
                          else (case reconstructDeviceCert csr_point csr respBody of
                                  Inl e \<Rightarrow> Inl (BadCertificate e)
                                | Inr r \<Rightarrow> Inr r))))"

definition Complete ::
  "httpenv \<Rightarrow> httpClient \<Rightarrow> string \<Rightarrow> nat \<Rightarrow> nat \<times> (client_error, unit) result" where
  "Complete he c token n =
     (let rq = post_request c ''/v1/onboarding/provision/complete'' token (completeRequest [])
      in case he_new he (rq_url rq) of
           Some e \<Rightarrow> (0, Inl (NewRequestError e))
         | None \<Rightarrow>
             (case http_Do he c rq n of
                (d, Inl e) \<Rightarrow> (d, Inl (PostError ''provision/complete'' e))
              | (d, Inr resp) \<Rightarrow>
                  (d, if rs_status resp \<noteq> 200
                      then Inl (StatusError ''provision/complete'' (rs_status resp)
                             (case rs_body resp of Inl _ \<Rightarrow> [] | Inr b \<Rightarrow> b))
                      else Inr ())))"

section \<open>The client under the provisioning service\<close>

text \<open>
  The service's view of this client: the answers call by call, and how long a call takes for the
  token and CSR of the attempt. \<open>msg\<close> renders an error; the service only passes it on.
\<close>

definition timed :: "loopenv \<Rightarrow> (nat \<Rightarrow> nat \<times> 'a) \<Rightarrow> loopenv" where
  "timed le call = le\<lparr>le_call := (\<lambda>n. fst (call n))\<rparr>"

definition http_penv ::
  "httpenv \<Rightarrow> key_reader \<Rightarrow> (client_error \<Rightarrow> string) \<Rightarrow> httpClient \<Rightarrow> penv \<Rightarrow> penv" where
  "http_penv he csr_point msg c pe =
     pe\<lparr>pe_submit := (\<lambda>token csr n. map_sum msg id (snd (SubmitCSR he csr_point c token csr n))),
        pe_complete := (\<lambda>token n. map_sum msg id (snd (Complete he c token n)))\<rparr>"

section \<open>Properties of the client\<close>

lemma http_Do_bounded: "fst (http_Do he (NewClient cfg) rq n) \<le> nat requestTimeout"
  by (auto simp: http_Do_def NewClient_def requestTimeout_def second_def split: prod.split)

lemma SubmitCSR_bounded: "fst (SubmitCSR he csr_point (NewClient cfg) token csr n) \<le> nat requestTimeout"
  using http_Do_bounded [of he cfg _ n]
  by (auto simp: SubmitCSR_def Let_def split: option.split prod.split sum.split) (metis fst_conv)+

lemma Complete_bounded: "fst (Complete he (NewClient cfg) token n) \<le> nat requestTimeout"
  using http_Do_bounded [of he cfg _ n]
  by (auto simp: Complete_def Let_def split: option.split prod.split sum.split) (metis fst_conv)+

lemma SubmitCSR_success:
  assumes "snd (SubmitCSR he csr_point c token csr n) = Inr (dev, pem)"
  obtains d resp body where
    "http_Do he c (post_request c ''/v1/onboarding/provision/csr'' token (csrRequest csr)) n = (d, Inr resp)"
    "rs_status resp = 200" "rs_body resp = Inr body" "reconstructDeviceCert csr_point csr body = Inr (dev, pem)"
  using assms by (auto simp: SubmitCSR_def Let_def split: option.splits prod.splits sum.splits if_splits)

lemma Complete_success:
  assumes "snd (Complete he c token n) = Inr ()"
  obtains d resp where
    "http_Do he c (post_request c ''/v1/onboarding/provision/complete'' token (completeRequest [])) n = (d, Inr resp)"
    "rs_status resp = 200"
  using assms by (auto simp: Complete_def Let_def split: option.splits prod.splits sum.splits if_splits)

text \<open>
  The contract of the client: an answer to a CSR was rebuilt from a 200 response to the POST that
  carried it, and a confirmation is a 200 response to the POST of \<open>provision/complete\<close>.
\<close>

definition http_issued ::
  "httpenv \<Rightarrow> key_reader \<Rightarrow> httpClient \<Rightarrow> string \<Rightarrow> string \<Rightarrow> string \<Rightarrow> string \<Rightarrow> bool" where
  "http_issued he csr_point c token csr dev pem \<longleftrightarrow>
     (\<exists>n resp body.
        snd (http_Do he c (post_request c ''/v1/onboarding/provision/csr'' token (csrRequest csr)) n) = Inr resp \<and>
        rs_status resp = 200 \<and> rs_body resp = Inr body \<and>
        reconstructDeviceCert csr_point csr body = Inr (dev, pem))"

definition http_confirmed :: "httpenv \<Rightarrow> httpClient \<Rightarrow> string \<Rightarrow> bool" where
  "http_confirmed he c token \<longleftrightarrow>
     (\<exists>n resp. snd (http_Do he c (post_request c ''/v1/onboarding/provision/complete'' token (completeRequest [])) n) =
        Inr resp \<and> rs_status resp = 200)"

interpretation http: api_client "http_penv he csr_point msg c pe" "http_issued he csr_point c"
  "http_confirmed he c" for he csr_point msg c pe
proof
  fix token csr n dev pem
  assume "pe_submit (http_penv he csr_point msg c pe) token csr n = Inr (dev, pem)"
  then have "snd (SubmitCSR he csr_point c token csr n) = Inr (dev, pem)"
    by (cases "snd (SubmitCSR he csr_point c token csr n)") (simp_all add: http_penv_def)
  then show "http_issued he csr_point c token csr dev pem"
    by (rule SubmitCSR_success) (unfold http_issued_def, metis snd_conv)
next
  fix token n
  assume "pe_complete (http_penv he csr_point msg c pe) token n = Inr ()"
  then have "snd (Complete he c token n) = Inr ()"
    by (cases "snd (Complete he c token n)") (simp_all add: http_penv_def)
  then show "http_confirmed he c token" by (rule Complete_success) (unfold http_confirmed_def, metis snd_conv)
qed


lemma http_issued_certificate:
  assumes "http_issued he csr_point c token csr dev pem"
  obtains p j resp where "dev = deviceID p" "length dev = 36" "read_certificate pem = Some (cert_value p)"
    "pem_read pem = Some (''CERTIFICATE'', der_encode (cert_value p))" "publicKeyFromCSR csr_point csr = Inr (publicKey p)"
    "snd (http_Do he c (post_request c ''/v1/onboarding/provision/csr'' token (csrRequest csr)) j) = Inr resp"
    "rs_status resp = 200"
proof -
  obtain j resp body where submit:
      "snd (http_Do he c (post_request c ''/v1/onboarding/provision/csr'' token (csrRequest csr)) j) = Inr resp"
      "rs_status resp = 200" "reconstructDeviceCert csr_point csr body = Inr (dev, pem)"
    using assms by (auto simp: http_issued_def)
  obtain p where p: "response_params csr_point csr body = Inr p" "dev = deviceID p"
      "pem = pem_EncodeToMemory ''CERTIFICATE'' (buildCert p)"
    using submit(3) by (auto simp: reconstructDeviceCert_def split: sum.splits)
  have ok: "params_ok p" by (rule response_params_ok [OF p(1)])
  have key: "length (deviceID p) = 36 \<and> publicKeyFromCSR csr_point csr = Inr (publicKey p)"
    by (rule response_params_fields [OF p(1)]) simp
  show ?thesis
    by (rule that [of p j resp]) (use p key submit read_certificate_built [OF ok] ok in \<open>simp_all add: buildCert_value pem_roundtrip\<close>)
qed

text \<open>
  C15. A board that says it is provisioned holds a real certificate. When a whole provisioning over
  this client succeeds on a disk without faults, the stored text reads strictly as the PEM of an X.509
  certificate in distinguished encoding, whose subject is the stored device id and whose key is that
  of the submitted CSR, rebuilt from a 200 answer to a POST that carried the CSR and the board
  token; and \<open>provision/complete\<close> was answered 200 for the same token.
\<close>

theorem provisioned_certificate_valid:
  assumes "Start en (http_penv he csr_point msg c pe) now organizationID s = Some (None, s')"
    and "\<forall>n. os_fault en n = None"
  shows "\<exists>token csr p pem j k resp resp'.
    fs_files (svc_fs s') fileDeviceID = Some \<lparr>f_data = Text (deviceID p), f_mode = mode_0644\<rparr> \<and>
    fs_files (svc_fs s') fileDeviceCert = Some \<lparr>f_data = Text pem, f_mode = mode_0644\<rparr> \<and>
    read_certificate pem = Some (cert_value p) \<and> pem_read pem = Some (''CERTIFICATE'', der_encode (cert_value p)) \<and>
    length (deviceID p) = 36 \<and>
    publicKeyFromCSR csr_point csr = Inr (publicKey p) \<and>
    snd (http_Do he c (post_request c ''/v1/onboarding/provision/csr'' token (csrRequest csr)) j) = Inr resp \<and>
    rs_status resp = 200 \<and>
    snd (http_Do he c (post_request c ''/v1/onboarding/provision/complete'' token (completeRequest [])) k) = Inr resp' \<and>
    rs_status resp' = 200"
proof (rule http.Start_stores_issued [OF assms], goal_cases)
  case (1 token csr dev pem)
  obtain p j resp where issued: "dev = deviceID p" "length dev = 36" "read_certificate pem = Some (cert_value p)"
      "pem_read pem = Some (''CERTIFICATE'', der_encode (cert_value p))" "publicKeyFromCSR csr_point csr = Inr (publicKey p)"
      "snd (http_Do he c (post_request c ''/v1/onboarding/provision/csr'' token (csrRequest csr)) j) = Inr resp"
      "rs_status resp = 200"
    by (rule http_issued_certificate [OF 1(1)])
  from 1(2) obtain k resp' where complete:
      "snd (http_Do he c (post_request c ''/v1/onboarding/provision/complete'' token (completeRequest [])) k) = Inr resp'"
      "rs_status resp' = 200"
    by (auto simp: http_confirmed_def)
  show ?case
    by (intro exI [of _ token] exI [of _ csr] exI [of _ p] exI [of _ pem] exI [of _ j] exI [of _ k] exI [of _ resp]
        exI [of _ resp']) (use 1 issued complete in simp)
qed

definition demo_httpenv :: httpenv where
  "demo_httpenv = \<lparr>he_new = (\<lambda>_. None),
     he_exchange = (\<lambda>rq n. (1, Inr \<lparr>rs_status = 200, rs_body = Inr demo_body\<rparr>))\<rparr>"

definition demo_config :: Config where
  "demo_config = \<lparr>cfg_DataDir = defaultDataDir, cfg_Port = defaultPort, cfg_Socket = defaultSocket,
     cfg_MQTTBroker = defaultMQTTBroker, cfg_ProvisioningAPI = defaultProvisioningAPI,
     cfg_MQTTCAFile = defaultMQTTCAFile, cfg_LogLevel = defaultLogLevel, cfg_NTPProbeHost = defaultNTPProbeHost,
     cfg_Version = []\<rparr>"

definition demo_penv :: penv where
  "demo_penv = http_penv demo_httpenv demo_csr_point (\<lambda>_. ''error'') (NewClient demo_config) api_ok"

lemma demo_Start: "\<exists>s'. Start calm demo_penv 0 ''org'' old_board = Some (None, s') \<and>
  fs_files (svc_fs s') fileCloudPrivKey = Some \<lparr>f_data = Text ''priv'', f_mode = mode_0600\<rparr>"
proof -
  have d: "http_Do demo_httpenv (NewClient demo_config) rq n = (1, Inr \<lparr>rs_status = 200, rs_body = Inr demo_body\<rparr>)" for rq n
    by (simp add: http_Do_def demo_httpenv_def NewClient_def requestTimeout_def second_def)
  have n: "he_new demo_httpenv u = None" for u by (simp add: demo_httpenv_def)
  obtain r where r: "reconstructDeviceCert demo_csr_point ''csr'' demo_body = Inr r"
    using demo_response by (simp add: reconstructDeviceCert_def)
  have "pe_submit demo_penv ''token'' ''csr'' 0 = Inr r"
    by (simp add: demo_penv_def http_penv_def SubmitCSR_def Let_def d n r)
  moreover have "pe_complete demo_penv ''token'' 0 = Inr ()"
    by (simp add: demo_penv_def http_penv_def Complete_def Let_def d n)
  moreover have "pe_token demo_penv = (\<lambda>_. Inr ''token'')" by (simp add: demo_penv_def http_penv_def api_ok_def)
  ultimately show ?thesis by (rule Start_calm)
qed

theorem provisioned_certificate_valid_witness:
  "\<exists>s' (p :: certParams). Start calm demo_penv 0 ''org'' old_board = Some (None, s') \<and>
     fs_files (svc_fs s') fileDeviceID = Some \<lparr>f_data = Text (deviceID p), f_mode = mode_0644\<rparr> \<and>
     length (deviceID p) = 36"
proof -
  obtain s' where run: "Start calm demo_penv 0 ''org'' old_board = Some (None, s')" using demo_Start by blast
  have "\<forall>n. os_fault calm n = None" by (simp add: calm_def)
  from provisioned_certificate_valid [OF run [unfolded demo_penv_def] this] show ?thesis
    using run by blast
qed

text \<open>
  Remark. A server that hangs does not use up the attempt: every call of the client returns within
  ten seconds, so with each call stuck until then, and prompt waits between them, the CSR is
  submitted at least 18 times before the window of ten minutes closes.
\<close>

theorem stalled_server_retried:
  assumes "\<forall>n rq. hc_Timeout (NewClient cfg) < int (fst (he_exchange he rq n))" and "\<forall>n. \<not> le_cancelled le n"
    and "\<forall>n. le_sleep le n = Some 0"
    and "pe = (http_penv he csr_point msg (NewClient cfg) pe0)
        \<lparr>pe_submit_env := timed le (SubmitCSR he csr_point (NewClient cfg) token csr)\<rparr>"
  shows "\<exists>r n. submitCSRWithRetry pe token csr (le_start le + provisioningWindow) = Some (r, n) \<and> 18 \<le> n \<and>
    (\<forall>k. fst (SubmitCSR he csr_point (NewClient cfg) token csr k) \<le> nat requestTimeout)"
proof -
  let ?call = "SubmitCSR he csr_point (NewClient cfg) token csr"
  let ?env = "timed le ?call"
  have failing: "\<exists>e. pe_submit pe token csr k = Inl e" for k
  proof -
    let ?rq = "post_request (NewClient cfg) ''/v1/onboarding/provision/csr'' token (csrRequest csr)"
    obtain d e where "http_Do he (NewClient cfg) ?rq k = (d, Inl e)"
      using spec [OF spec [OF assms(1), of k], of ?rq] by (cases "he_exchange he ?rq k") (simp add: http_Do_def)
    then have "\<exists>e. snd (?call k) = Inl e" by (simp add: SubmitCSR_def Let_def split: option.split)
    then show ?thesis by (auto simp: assms(4) http_penv_def)
  qed
  have call: "int (le_call ?env k) \<le> 10 * second" for k
    using SubmitCSR_bounded [of he csr_point cfg token csr k]
    by (simp add: timed_def requestTimeout_def second_def)
  obtain r n where run: "submitCSRWithRetry pe token csr (le_start le + provisioningWindow) = Some (r, n)"
    using submitCSRWithRetry_total by fastforce
  have "18 \<le> n"
    by (rule retry_loop_min [where api = "pe_submit pe token csr" and le = ?env and start = "le_start le" and k = 0
          and now = "le_start le" and deadline = "le_start le + provisioningWindow"])
      (use run failing call assms(2,3) in \<open>simp_all add: submitCSRWithRetry_def assms(4) backoff_at_bounds timed_def\<close>)
  with run show ?thesis using SubmitCSR_bounded by blast
qed

definition stuck_httpenv :: httpenv where
  "stuck_httpenv = \<lparr>he_new = (\<lambda>_. None), he_exchange = (\<lambda>rq n. (nat (11 * second), Inl ''stuck''))\<rparr>"

theorem stalled_server_retried_witness:
  "\<exists>r n. submitCSRWithRetry
     ((http_penv stuck_httpenv demo_csr_point (\<lambda>_. ''error'') (NewClient demo_config) api_ok)
       \<lparr>pe_submit_env := timed prompt (SubmitCSR stuck_httpenv demo_csr_point (NewClient demo_config) ''t'' ''csr'')\<rparr>)
     ''t'' ''csr'' (le_start prompt + provisioningWindow) = Some (r, n) \<and> 18 \<le> n"
proof -
  have "\<forall>n rq. hc_Timeout (NewClient demo_config) < int (fst (he_exchange stuck_httpenv rq n))"
    by (simp add: stuck_httpenv_def NewClient_def requestTimeout_def second_def)
  moreover have "\<forall>n. \<not> le_cancelled prompt n" "\<forall>n. le_sleep prompt n = Some 0" by (simp_all add: prompt_def)
  ultimately show ?thesis using stalled_server_retried [OF _ _ _ refl] by blast
qed

end
