(* ===== verification/Identity.thy ===== *)
theory Identity
  imports Keystore Mqtt_Command Config
begin

text \<open>
  Who the board is and how it is connected: the hardware reads of \<open>internal/system/info.go\<close> and
  \<open>netconfig.go\<close>, the hardware id of \<open>internal/identity/uhwid.go\<close> and the identity service of
  \<open>identity.go\<close>. The files under \<open>/sys\<close>, the commands that are run, SHA-256 and the JWT library
  are parameters.
\<close>

section \<open>The system\<close>

text \<open>
  \<open>se_exist\<close> and \<open>se_read\<close> look up a path given by its components; \<open>se_run\<close> runs a command: its
  standard output and whether it succeeded.
\<close>

record sysenv =
  se_exist :: "string list \<Rightarrow> bool"
  se_read :: "string \<Rightarrow> (string, string) result"
  se_run :: "string list \<Rightarrow> string \<times> bool"

datatype SysNetworkType = SysEthernet | SysWiFi

record Network =
  net_Type :: SysNetworkType
  net_ID :: string
  net_SSID :: string

datatype system_error = CommandFailed string | NoInterface | FileUnreadable string

definition isWireless :: "sysenv \<Rightarrow> string \<Rightarrow> bool" where
  "isWireless se iface =
     list_ex (\<lambda>sub. se_exist se [''/sys/class/net'', iface, sub]) [''wireless'', ''phy80211'']"

definition ipv4Cmd :: string where
  "ipv4Cmd = ''ip route get $(host -t A time.arduino.cc | awk '' @ [CHR 0x27] @
     ''/has address/ {print $NF; exit}'' @ [CHR 0x27] @ '') | awk '' @ [CHR 0x27] @ ''{print $5}'' @ [CHR 0x27]"

definition ipv6Cmd :: string where
  "ipv6Cmd = ''ip -6 route get $(host -t AAAA time.arduino.cc | awk '' @ [CHR 0x27] @
     ''/has IPv6 address/ {print $NF; exit}'' @ [CHR 0x27] @ '') | awk '' @ [CHR 0x27] @ ''{print $3}'' @ [CHR 0x27]"

definition getDefaultRouteInterface :: "sysenv \<Rightarrow> (system_error, string) result" where
  "getDefaultRouteInterface se =
     (case se_run se [''sh'', ''-c'', ipv4Cmd] of
        (out, ok) \<Rightarrow>
          if ok \<and> TrimSpace out \<noteq> [] then Inr (TrimSpace out)
          else (case se_run se [''sh'', ''-c'', ipv6Cmd] of
                  (out, ok) \<Rightarrow> if ok then Inr (TrimSpace out) else Inl (CommandFailed ''ip -6'')))"

text \<open>The loop over the lines of \<open>nmcli\<close>: the first active one.\<close>

fun active_ssid :: "string list \<Rightarrow> string" where
  "active_ssid [] = []"
| "active_ssid (line # lines) =
     (let line = TrimSpace line
      in if \<not> HasPrefix line ''yes:'' then active_ssid lines
         else TrimSpace (drop (length ''yes:'') line))"

definition getWiFiSSID :: "sysenv \<Rightarrow> string \<Rightarrow> (system_error, string) result" where
  "getWiFiSSID se iface =
     (case se_run se [''nmcli'', ''-t'', ''-f'', ''active,ssid'', ''dev'', ''wifi'', ''list'', ''ifname'', iface,
                      ''--rescan'', ''no''] of
        (out, ok) \<Rightarrow>
          if \<not> ok then Inl (CommandFailed ''nmcli'')
          else Inr (active_ssid (Split (TrimSpace out) (CHR 0x0A))))"

definition GetCurrentNetwork :: "sysenv \<Rightarrow> (system_error, Network) result" where
  "GetCurrentNetwork se =
     (case getDefaultRouteInterface se of
        Inl e \<Rightarrow> Inl e
      | Inr iface \<Rightarrow>
          if iface = [] then Inl NoInterface
          else if isWireless se iface then
            Inr \<lparr>net_Type = SysWiFi, net_ID = iface,
                 net_SSID = (case getWiFiSSID se iface of Inl _ \<Rightarrow> [] | Inr ssid \<Rightarrow> ssid)\<rparr>
          else Inr \<lparr>net_Type = SysEthernet, net_ID = iface, net_SSID = []\<rparr>)"

definition NetConfig :: "sysenv \<Rightarrow> DeviceNetConfig option" where
  "NetConfig se =
     (case GetCurrentNetwork se of
        Inl _ \<Rightarrow> None
      | Inr net \<Rightarrow>
          (case net_Type net of
             SysWiFi \<Rightarrow> Some \<lparr>nc_Type = NetworkTypeWiFi, nc_SSID = net_SSID net, nc_IP = [], nc_DNS = [],
                              nc_Gateway = [], nc_Netmask = []\<rparr>
           | SysEthernet \<Rightarrow> Some \<lparr>nc_Type = NetworkTypeEthernet, nc_SSID = [], nc_IP = [], nc_DNS = [],
                              nc_Gateway = [], nc_Netmask = []\<rparr>))"

definition macAddressPaths :: "string list" where
  "macAddressPaths =
     [''/sys/devices/platform/soc@0/1c00000.pci/pci0000:00/0000:00:00.0/0000:01:00.0/0000:02:01.0/0000:03:00.0/ieee80211/phy0/macaddress'',
      ''/sys/devices/platform/soc@0/c800000.wifi/ieee80211/phy0/macaddress'']"

text \<open>\<open>strings.ToUpper\<close> on ASCII.\<close>

definition upper :: "char \<Rightarrow> char" where
  "upper c = (let n = (of_char c :: nat) in if 97 \<le> n \<and> n \<le> 122 then char_of (n - 32) else c)"

definition ToUpper :: "string \<Rightarrow> string" where
  "ToUpper = map upper"

definition normal_mac :: "string \<Rightarrow> string" where
  "normal_mac text = ToUpper (filter (\<lambda>c. c \<noteq> CHR '':'') (TrimSpace text))"

fun first_mac :: "sysenv \<Rightarrow> string list \<Rightarrow> (system_error, string) result" where
  "first_mac se [] = Inl (FileUnreadable ''macaddress'')"
| "first_mac se (path # paths) =
     (case se_read se path of
        Inr text \<Rightarrow> Inr (normal_mac text)
      | Inl _ \<Rightarrow> first_mac se paths)"

definition GetWifiPermanentAddress :: "sysenv \<Rightarrow> (system_error, string) result" where
  "GetWifiPermanentAddress se = first_mac se macAddressPaths"

definition GetSocSerial :: "sysenv \<Rightarrow> (system_error, string) result" where
  "GetSocSerial se =
     (case se_read se ''/sys/devices/soc0/serial_number'' of
        Inl _ \<Rightarrow> Inl (FileUnreadable ''serial_number'')
      | Inr text \<Rightarrow> Inr (TrimSpace text))"

section \<open>The hardware id\<close>

datatype uhwid_error =
    MacUnavailable | SerialUnavailable | Interrupted | Unavailable nat uhwid_error

definition uhwidMaxAttempts :: nat where
  "uhwidMaxAttempts = 4"

definition uhwidRetryInterval :: duration where
  "uhwidRetryInterval = 10 * second"

definition buildUHWID :: "(bytes \<Rightarrow> bytes) \<Rightarrow> sysenv \<Rightarrow> (uhwid_error, string) result" where
  "buildUHWID sha256 se =
     (case GetWifiPermanentAddress se of
        Inl _ \<Rightarrow> Inl MacUnavailable
      | Inr mac \<Rightarrow>
          if mac = [] then Inl MacUnavailable
          else (case GetSocSerial se of
                  Inl _ \<Rightarrow> Inl SerialUnavailable
                | Inr ser \<Rightarrow>
                    if ser = [] then Inl SerialUnavailable
                    else Inr (hex_EncodeToString (sha256 (bytes_of (mac @ '':'' @ ser))))))"

text \<open>
  The loop: \<open>ses k\<close> is the system at the k-th attempt, \<open>done k\<close> whether the context ends the wait
  after it. The second component is the time spent waiting.
\<close>

function uhwid_loop ::
  "(bytes \<Rightarrow> bytes) \<Rightarrow> (nat \<Rightarrow> sysenv) \<Rightarrow> (nat \<Rightarrow> bool) \<Rightarrow> nat \<Rightarrow> uhwid_error \<Rightarrow> (uhwid_error, string) result \<times> duration" where
  "uhwid_loop sha256 ses ended attempt lastErr =
     (if uhwidMaxAttempts < attempt then (Inl (Unavailable uhwidMaxAttempts lastErr), 0)
      else case buildUHWID sha256 (ses attempt) of
             Inr uhwid \<Rightarrow> (Inr uhwid, 0)
           | Inl err \<Rightarrow>
               if attempt < uhwidMaxAttempts then
                 if ended attempt then (Inl Interrupted, 0)
                 else (case uhwid_loop sha256 ses ended (Suc attempt) err of
                         (r, waited) \<Rightarrow> (r, uhwidRetryInterval + waited))
               else uhwid_loop sha256 ses ended (Suc attempt) err)"
  by pat_completeness auto
termination
  by (relation "measure (\<lambda>(_, _, _, attempt, _). Suc uhwidMaxAttempts - attempt)") auto

declare uhwid_loop.simps [simp del]

text \<open>The last error starts as nil; it is set before it is used.\<close>

definition computeUHWID ::
  "(bytes \<Rightarrow> bytes) \<Rightarrow> (nat \<Rightarrow> sysenv) \<Rightarrow> (nat \<Rightarrow> bool) \<Rightarrow> (uhwid_error, string) result \<times> duration" where
  "computeUHWID sha256 ses ended = uhwid_loop sha256 ses ended 1 MacUnavailable"

section \<open>The identity service\<close>

record IdentityService =
  id_uhwid :: string

definition New_identity ::
  "(bytes \<Rightarrow> bytes) \<Rightarrow> (nat \<Rightarrow> sysenv) \<Rightarrow> (nat \<Rightarrow> bool) \<Rightarrow> (uhwid_error, IdentityService) result" where
  "New_identity sha256 ses ended =
     (case fst (computeUHWID sha256 ses ended) of Inl e \<Rightarrow> Inl e | Inr uhwid \<Rightarrow> Inr \<lparr>id_uhwid = uhwid\<rparr>)"

definition NewWithUHWID :: "string \<Rightarrow> IdentityService" where
  "NewWithUHWID uhwid = \<lparr>id_uhwid = uhwid\<rparr>"

definition UHWID :: "IdentityService \<Rightarrow> string" where
  "UHWID s = id_uhwid s"

text \<open>
  \<open>sign\<close> is the library's \<open>SignedString\<close>: for the method, the claims and the key, the token or an
  error. \<open>Unix()\<close> counts whole seconds.
\<close>

datatype claim = ClaimString string | ClaimNumber int

definition BoardToken ::
  "(string \<Rightarrow> (string \<times> claim) list \<Rightarrow> string \<Rightarrow> (string, string) result) \<Rightarrow> time \<Rightarrow> IdentityService \<Rightarrow> string \<Rightarrow>
     (string, string) result" where
  "BoardToken sign now s privKey =
     (case sign ''ES256'' [(''iss'', ClaimString (id_uhwid s)), (''iat'', ClaimNumber (now div second))] privKey of
        Inl e \<Rightarrow> Inl (''sign board token: '' @ e)
      | Inr token \<Rightarrow> Inr token)"


section \<open>Properties\<close>

lemma buildUHWID_success:
  assumes "buildUHWID sha256 se = Inr u"
  obtains mac ser where "GetWifiPermanentAddress se = Inr mac" "mac \<noteq> []" "GetSocSerial se = Inr ser" "ser \<noteq> []"
    "u = hex_EncodeToString (sha256 (bytes_of (mac @ '':'' @ ser)))"
  using assms by (auto simp: buildUHWID_def split: sum.splits if_splits)

lemma upper_colon: "upper c = CHR '':'' \<Longrightarrow> c = CHR '':''"
proof -
  assume u: "upper c = CHR '':''"
  show ?thesis
  proof (cases "97 \<le> (of_char c :: nat) \<and> (of_char c :: nat) \<le> 122")
    case True
    then have "(of_char c :: nat) - 32 < 256" by auto
    then have "(of_char (upper c) :: nat) = of_char c - 32" using True by (simp add: upper_def Let_def)
    then show ?thesis using u True by auto
  next
    case False
    then show ?thesis using u by (auto simp: upper_def Let_def split: if_splits)
  qed
qed

lemma mac_no_colon: "GetWifiPermanentAddress se = Inr mac \<Longrightarrow> CHR '':'' \<notin> set mac"
proof -
  have "first_mac se ps = Inr mac \<Longrightarrow> CHR '':'' \<notin> set mac" for ps
    by (induction ps) (auto simp: normal_mac_def ToUpper_def dest!: upper_colon [OF sym] split: sum.splits)
  then show "GetWifiPermanentAddress se = Inr mac \<Longrightarrow> CHR '':'' \<notin> set mac"
    by (simp add: GetWifiPermanentAddress_def)
qed

lemma uhwid_loop_result:
  assumes "uhwid_loop sha256 ses ended k err = (r, w)" and "1 \<le> k" and "k \<le> uhwidMaxAttempts"
  shows "\<exists>n. k \<le> n \<and> n \<le> uhwidMaxAttempts \<and> w = int (n - k) * uhwidRetryInterval \<and>
    (\<forall>i. k \<le> i \<and> i < n \<longrightarrow> (\<exists>e. buildUHWID sha256 (ses i) = Inl e)) \<and>
    (case r of
       Inr u \<Rightarrow> buildUHWID sha256 (ses n) = Inr u
     | Inl e \<Rightarrow> (\<exists>e'. buildUHWID sha256 (ses n) = Inl e' \<and>
         (e = Interrupted \<and> n < uhwidMaxAttempts \<and> ended n \<or> e = Unavailable uhwidMaxAttempts e' \<and> n = uhwidMaxAttempts)))"
  using assms
proof (induction sha256 ses ended k err arbitrary: r w rule: uhwid_loop.induct)
  case (1 sha256 ses ended k err)
  show ?case
  proof (cases "buildUHWID sha256 (ses k)")
    case (Inr u)
    then have "r = Inr u" "w = 0" using "1.prems" by (simp_all add: uhwid_loop.simps [of _ _ _ k])
    then show ?thesis using "1.prems" Inr by (intro exI [of _ k]) auto
  next
    case (Inl e)
    consider "k = uhwidMaxAttempts" | "k < uhwidMaxAttempts" "ended k" | "k < uhwidMaxAttempts" "\<not> ended k"
      using 1(5) by linarith
    then show ?thesis
    proof cases
      case 1
      then have "r = Inl (Unavailable uhwidMaxAttempts e)" "w = 0"
        using "1.prems"(1) Inl
        by (simp_all add: uhwid_loop.simps [of _ _ _ uhwidMaxAttempts] uhwid_loop.simps [of _ _ _ "Suc uhwidMaxAttempts"])
      then show ?thesis using "1.prems" Inl 1 by (intro exI [of _ k]) auto
    next
      case 2
      then show ?thesis using "1.prems" Inl by (intro exI [of _ k]) (auto simp: uhwid_loop.simps [of _ _ _ k])
    next
      case 3
      obtain r' w' where rec: "uhwid_loop sha256 ses ended (Suc k) e = (r', w')" by fastforce
      then have rw: "r = r'" "w = uhwidRetryInterval + w'"
        using "1.prems"(1) Inl 3 by (auto simp: uhwid_loop.simps [of _ _ _ k])
      have "\<not> uhwidMaxAttempts < k" using 3 by simp
      from 1(1) [OF this Inl 3 rec] obtain n where n: "Suc k \<le> n" "n \<le> uhwidMaxAttempts"
        "w' = int (n - Suc k) * uhwidRetryInterval" "\<forall>i. Suc k \<le> i \<and> i < n \<longrightarrow> (\<exists>e. buildUHWID sha256 (ses i) = Inl e)"
        "case r' of Inr u \<Rightarrow> buildUHWID sha256 (ses n) = Inr u
         | Inl e \<Rightarrow> (\<exists>e'. buildUHWID sha256 (ses n) = Inl e' \<and>
           (e = Interrupted \<and> n < uhwidMaxAttempts \<and> ended n \<or> e = Unavailable uhwidMaxAttempts e' \<and> n = uhwidMaxAttempts))"
        using 3 by auto
      have "\<exists>e. buildUHWID sha256 (ses i) = Inl e" if "k \<le> i" "i < n" for i
        using that n(4) Inl by (cases "i = k") auto
      moreover have "int (n - k) = 1 + int (n - Suc k)" using n(1) by simp
      ultimately show ?thesis using n rw by (intro exI [of _ n]) (simp add: algebra_simps)
    qed
  qed
qed

text \<open>
  Remark. The hardware id is never a degraded one: when it is computed at all, it is the hexadecimal
  SHA-256 of a MAC address and a serial number that were both read, in one attempt, and were not
  empty; every earlier attempt had failed; and in every case at most four attempts are made, with
  at most 30 seconds of waiting, which only the end of the context cuts short.
\<close>

theorem uhwid_never_degraded:
  "case computeUHWID sha256 ses ended of (r, w) \<Rightarrow>
     \<exists>n. 1 \<le> n \<and> n \<le> 4 \<and> w = int (n - 1) * uhwidRetryInterval \<and> w \<le> 30 * second \<and>
       (\<forall>i. 1 \<le> i \<and> i < n \<longrightarrow> (\<exists>e. buildUHWID sha256 (ses i) = Inl e)) \<and>
       (case r of
          Inr u \<Rightarrow> (\<exists>mac ser. GetWifiPermanentAddress (ses n) = Inr mac \<and> GetSocSerial (ses n) = Inr ser \<and>
            mac \<noteq> [] \<and> ser \<noteq> [] \<and> u = hex_EncodeToString (sha256 (bytes_of (mac @ '':'' @ ser))))
        | Inl e \<Rightarrow> (e = Interrupted \<and> n < 4 \<and> ended n) \<or> (n = 4 \<and> (\<exists>e'. e = Unavailable 4 e')))"
proof -
  obtain r w where c: "computeUHWID sha256 ses ended = (r, w)" by fastforce
  have k: "(1 :: nat) \<le> 1" "1 \<le> uhwidMaxAttempts" by (simp_all add: uhwidMaxAttempts_def)
  from uhwid_loop_result [OF c [unfolded computeUHWID_def] k] obtain n where n: "1 \<le> n" "n \<le> 4"
    "w = int (n - 1) * uhwidRetryInterval" "\<forall>i. 1 \<le> i \<and> i < n \<longrightarrow> (\<exists>e. buildUHWID sha256 (ses i) = Inl e)"
    "case r of Inr u \<Rightarrow> buildUHWID sha256 (ses n) = Inr u
     | Inl e \<Rightarrow> (\<exists>e'. buildUHWID sha256 (ses n) = Inl e' \<and>
       (e = Interrupted \<and> n < 4 \<and> ended n \<or> e = Unavailable 4 e' \<and> n = 4))"
    unfolding uhwidMaxAttempts_def by blast
  have "w \<le> 30 * second" using n(2,3) by (simp add: uhwidRetryInterval_def second_def)
  moreover have "\<exists>mac ser. GetWifiPermanentAddress (ses n) = Inr mac \<and> GetSocSerial (ses n) = Inr ser \<and>
      mac \<noteq> [] \<and> ser \<noteq> [] \<and> u = hex_EncodeToString (sha256 (bytes_of (mac @ '':'' @ ser)))" if "r = Inr u" for u
    using n(5) that by (auto elim: buildUHWID_success)
  ultimately show ?thesis
    unfolding c prod.case using n by (intro exI [of _ n]) (cases r, auto)
qed


text \<open>
  Remark. The hardware id tells boards apart: when two systems compute the same id and SHA-256 does not
  collide on their inputs, they have the same MAC address and the same serial number. The separator
  makes the input unambiguous, since the colons of the MAC address are removed.
\<close>

theorem uhwid_identifies_board:
  assumes "buildUHWID sha256 se1 = Inr u" and "buildUHWID sha256 se2 = Inr u"
    and "\<And>x y. sha256 x = sha256 y \<Longrightarrow> x = y"
  shows "GetWifiPermanentAddress se1 = GetWifiPermanentAddress se2 \<and> GetSocSerial se1 = GetSocSerial se2"
proof -
  obtain m1 s1 where 1: "GetWifiPermanentAddress se1 = Inr m1" "GetSocSerial se1 = Inr s1"
      "u = hex_EncodeToString (sha256 (bytes_of (m1 @ '':'' @ s1)))"
    using assms(1) by (rule buildUHWID_success)
  obtain m2 s2 where 2: "GetWifiPermanentAddress se2 = Inr m2" "GetSocSerial se2 = Inr s2"
      "u = hex_EncodeToString (sha256 (bytes_of (m2 @ '':'' @ s2)))"
    using assms(2) by (rule buildUHWID_success)
  have "sha256 (bytes_of (m1 @ '':'' @ s1)) = sha256 (bytes_of (m2 @ '':'' @ s2))"
    using 1(3) 2(3) hex_roundtrip by (metis option.inject)
  then have "m1 @ CHR '':'' # s1 = m2 @ CHR '':'' # s2" using assms(3) bytes_of_inj by fastforce
  moreover have "CHR '':'' \<notin> set m1" "CHR '':'' \<notin> set m2" using mac_no_colon 1(1) 2(1) by blast+
  ultimately have "(m1, s1, True) = (m2, s2, True)"
    using Cut_append [of "CHR '':''" m1 s1] Cut_append [of "CHR '':''" m2 s2] by metis
  then show ?thesis using 1 2 by simp
qed

definition demo_sys :: sysenv where
  "demo_sys = \<lparr>se_exist = (\<lambda>p. p = [''/sys/class/net'', ''wlan0'', ''wireless'']),
     se_read = (\<lambda>p. Inr (if p = ''/sys/devices/soc0/serial_number'' then ''42'' else ''ab:01'')),
     se_run = (\<lambda>c. if hd c = ''nmcli'' then (''no:guest'' @ [CHR 0x0A] @ ''yes:home'', True) else (''wlan0'', True))\<rparr>"

lemma demo_sys_uhwid: "\<exists>u. buildUHWID sha256 demo_sys = Inr u"
proof -
  have "TrimSpace ''ab:01'' = ''ab:01''" "TrimSpace ''42'' = ''42''"
    by (rule TrimSpace_line(1); simp add: graphic_def)+
  then show ?thesis
    by (simp add: buildUHWID_def GetWifiPermanentAddress_def macAddressPaths_def GetSocSerial_def demo_sys_def
      normal_mac_def ToUpper_def)
qed

theorem uhwid_identifies_board_witness:
  "GetWifiPermanentAddress demo_sys = GetWifiPermanentAddress (demo_sys\<lparr>se_exist := \<lambda>_. False\<rparr>)"
proof -
  have same: "buildUHWID id (demo_sys\<lparr>se_exist := \<lambda>_. False\<rparr>) = buildUHWID id demo_sys"
    by (simp add: buildUHWID_def GetWifiPermanentAddress_def macAddressPaths_def GetSocSerial_def demo_sys_def)
  obtain u where "buildUHWID id demo_sys = Inr u" using demo_sys_uhwid by blast
  with same uhwid_identifies_board [of id demo_sys u "demo_sys\<lparr>se_exist := \<lambda>_. False\<rparr>"] show ?thesis by simp
qed

theorem uhwid_never_degraded_witness:
  "\<exists>u. fst (computeUHWID id (\<lambda>_. demo_sys) (\<lambda>_. False)) = Inr u \<and> snd (computeUHWID id (\<lambda>_. demo_sys) (\<lambda>_. False)) \<le> 30 * second"
proof -
  obtain u where "buildUHWID id demo_sys = Inr u" using demo_sys_uhwid by blast
  then have c: "computeUHWID id (\<lambda>_. demo_sys) (\<lambda>_. False) = (Inr u, 0)"
    by (simp add: computeUHWID_def uhwid_loop.simps uhwidMaxAttempts_def)
  with uhwid_never_degraded [of id "\<lambda>_. demo_sys" "\<lambda>_. False"] show ?thesis by auto
qed


section \<open>The network\<close>

text \<open>The terse listing of \<open>nmcli\<close>: one line per access point.\<close>

definition nmcli_line :: "bool \<times> string \<Rightarrow> string" where
  "nmcli_line ap = (if fst ap then ''yes:'' else ''no:'') @ snd ap"

definition plain_ssid :: "string \<Rightarrow> bool" where
  "plain_ssid s \<longleftrightarrow> s \<noteq> [] \<and> graphic (hd s) \<and> graphic (last s) \<and> CHR 0x0A \<notin> set s"

lemma nmcli_line_trim:
  assumes "plain_ssid (snd ap)"
  shows "TrimSpace (nmcli_line ap) = nmcli_line ap"
proof (rule TrimSpace_line(1))
  show "graphic (last (nmcli_line ap))" using assms by (simp add: nmcli_line_def plain_ssid_def)
  show "graphic (hd (nmcli_line ap))" by (simp add: nmcli_line_def graphic_def)
qed (simp add: nmcli_line_def)

lemma active_ssid_lines:
  assumes "\<forall>ap \<in> set aps. plain_ssid (snd ap)"
  shows "active_ssid (map nmcli_line aps) = (case List.find fst aps of None \<Rightarrow> [] | Some ap \<Rightarrow> snd ap)"
  using assms
proof (induction aps)
  case (Cons ap aps)
  have "TrimSpace (snd ap) = snd ap" using Cons.prems by (intro TrimSpace_line(1)) (auto simp: plain_ssid_def)
  moreover have "HasPrefix (nmcli_line ap) ''yes:'' \<longleftrightarrow> fst ap" by (auto simp: nmcli_line_def)
  ultimately show ?case using Cons nmcli_line_trim [of ap] by (auto simp: nmcli_line_def)
qed simp

lemma last_Join: "fs \<noteq> [] \<Longrightarrow> last fs \<noteq> [] \<Longrightarrow> Join fs sep \<noteq> [] \<and> last (Join fs sep) = last (last fs)"
  by (induction fs sep rule: Join.induct) auto

lemma hd_Join: "hd fs \<noteq> [] \<Longrightarrow> fs \<noteq> [] \<Longrightarrow> hd (Join fs sep) = hd (hd fs)"
  by (induction fs sep rule: Join.induct) auto

lemma nmcli_output_trim:
  assumes "aps \<noteq> []" and "\<forall>ap \<in> set aps. plain_ssid (snd ap)"
  shows "TrimSpace (Join (map nmcli_line aps) (CHR 0x0A)) = Join (map nmcli_line aps) (CHR 0x0A)"
proof (rule TrimSpace_line(1))
  let ?fs = "map nmcli_line aps"
  have edge: "last ?fs = nmcli_line (last aps)" "hd ?fs = nmcli_line (hd aps)" "plain_ssid (snd (last aps))"
    using assms by (simp_all add: last_map hd_map)
  then have l: "last ?fs \<noteq> []" "hd ?fs \<noteq> []" by (simp_all add: nmcli_line_def)
  note j = last_Join [of ?fs "CHR 0x0A", OF _ l(1)] hd_Join [of ?fs "CHR 0x0A", OF l(2)]
  show "Join ?fs (CHR 0x0A) \<noteq> []" using j assms(1) by simp
  show "graphic (hd (Join ?fs (CHR 0x0A)))" using j assms(1) edge by (simp add: nmcli_line_def graphic_def)
  show "graphic (last (Join ?fs (CHR 0x0A)))" using j assms(1) edge by (simp add: nmcli_line_def plain_ssid_def)
qed

text \<open>
  Remark. What the cloud is told about the network: on a wireless interface the SSID of the first active
  access point listed, on a wired one the adapter type alone, without asking \<open>nmcli\<close> at all; nothing
  when no interface is found, and a failed listing leaves the SSID empty.
\<close>

theorem NetConfig_reports:
  assumes "getDefaultRouteInterface se = Inr iface" and "iface \<noteq> []"
    and "\<And>args. se_run se (''nmcli'' # args) = (listing, ok)"
    and "listing = Join (map nmcli_line aps) (CHR 0x0A)" and "aps \<noteq> []" and "\<forall>ap \<in> set aps. plain_ssid (snd ap)"
  shows "(\<not> isWireless se iface \<longrightarrow> (\<exists>nc. NetConfig se = Some nc \<and> nc_Type nc = NetworkTypeEthernet \<and> nc_SSID nc = [])) \<and>
    (isWireless se iface \<longrightarrow> (\<exists>nc. NetConfig se = Some nc \<and> nc_Type nc = NetworkTypeWiFi \<and>
       nc_SSID nc = (if ok then case List.find fst aps of None \<Rightarrow> [] | Some ap \<Rightarrow> snd ap else [])))"
proof -
  have "CHR 0x0A \<notin> set f" if "f \<in> set (map nmcli_line aps)" for f
  proof -
    obtain ap where ap: "ap \<in> set aps" "f = nmcli_line ap" using \<open>f \<in> set (map nmcli_line aps)\<close> by auto
    then have "CHR 0x0A \<notin> set (snd ap)" using assms(6) by (simp add: plain_ssid_def)
    then show ?thesis unfolding ap(2) nmcli_line_def by (cases "fst ap") simp_all
  qed
  then have "Split listing (CHR 0x0A) = map nmcli_line aps"
    unfolding assms(4) using assms(5) by (intro Split_Join) auto
  moreover have "TrimSpace listing = listing" unfolding assms(4) by (rule nmcli_output_trim [OF assms(5,6)])
  ultimately show ?thesis
    using assms(1-3) active_ssid_lines [OF assms(6)]
    by (auto simp: NetConfig_def GetCurrentNetwork_def getWiFiSSID_def)
qed

theorem NetConfig_reports_witness:
  "\<exists>nc. NetConfig demo_sys = Some nc \<and> nc_Type nc = NetworkTypeWiFi \<and> nc_SSID nc = ''home''"
proof -
  have t: "TrimSpace ''wlan0'' = ''wlan0''" by (rule TrimSpace_line(1); simp add: graphic_def)
  have i: "getDefaultRouteInterface demo_sys = Inr ''wlan0''"
    using t by (simp add: getDefaultRouteInterface_def demo_sys_def)
  define listing where "listing = ''no:guest'' @ [CHR 0x0A] @ ''yes:home''"
  have r: "\<And>args. se_run demo_sys (''nmcli'' # args) = (listing, True)" by (simp add: demo_sys_def listing_def)
  have l: "listing = Join (map nmcli_line [(False, ''guest''), (True, ''home'')]) (CHR 0x0A)"
    by (simp add: nmcli_line_def listing_def)
  have p: "\<forall>ap \<in> set [(False, ''guest''), (True, ''home'')]. plain_ssid (snd ap)"
    by (simp add: plain_ssid_def graphic_def)
  have w: "isWireless demo_sys ''wlan0''" by (simp add: isWireless_def demo_sys_def)
  from NetConfig_reports [OF i _ r l _ p] w show ?thesis by simp
qed

text \<open>
  Remark. A colon in the SSID is not read back: \<open>nmcli -t\<close> writes it as a backslash and a colon, and the
  name is reported with that backslash.
\<close>

theorem ssid_escape_kept:
  "active_ssid [''yes:my'' @ [CHR 0x5C, CHR '':''] @ ''net''] = ''my'' @ [CHR 0x5C, CHR '':''] @ ''net''"
proof -
  have "TrimSpace (''yes:my'' @ [CHR 0x5C, CHR '':''] @ ''net'') = ''yes:my'' @ [CHR 0x5C, CHR '':''] @ ''net''"
    "TrimSpace (''my'' @ [CHR 0x5C, CHR '':''] @ ''net'') = ''my'' @ [CHR 0x5C, CHR '':''] @ ''net''"
    by (rule TrimSpace_line(1); simp add: graphic_def)+
  then show ?thesis by simp
qed

end
