(* ===== verification/Event_Stream.thy ===== *)
theory Event_Stream
  imports Variables Json
begin

text \<open>
  The Server-Sent Events of \<open>internal/api/handlers/handlers.go\<close>: \<open>writeSSE\<close> and the streaming
  part of \<open>HandleVariableEvents\<close>, with a reader as an \<open>EventSource\<close> has it. The lemmas show that
  a client reads exactly the events that were written, in order, and nothing of a frame whose write
  failed.
\<close>

section \<open>Frames\<close>

definition kind_text :: "EventKind \<Rightarrow> string" where
  "kind_text k =
     (case k of EventUpdate \<Rightarrow> ''update'' | EventLastValue \<Rightarrow> ''lastvalue''
      | EventLastValueMissing \<Rightarrow> ''lastvalue_missing'' | EventThingUnavailable \<Rightarrow> ''thing_unavailable'')"

text \<open>
  The JSON of an \<open>UpdateEvent\<close>. \<open>jf_float\<close> is the text of a finite number, \<open>jf_time\<close> that of a time
  stamp, which fails for a year after 9999.
\<close>

record json_format =
  jf_float :: "f64 \<Rightarrow> string"
  jf_time :: "time \<Rightarrow> string option"

definition event_json :: "json_format \<Rightarrow> UpdateEvent \<Rightarrow> string option" where
  "event_json jf e =
     (case (marshal_any (jf_float jf) (ev_Value e), jf_time jf (ev_Timestamp e)) of
        (Some v, Some t) \<Rightarrow>
          Some (object ([(''name'', quote (ev_Name e)), (''value'', v), (''timestamp'', quote t)] @
                        (if ev_LastValue e then [(''last_value'', ''true'')] else [])))
      | _ \<Rightarrow> None)"

definition name_json :: "string \<Rightarrow> string" where
  "name_json name = object [(''name'', quote name)]"

definition maxSSEPayload :: nat where
  "maxSSEPayload = 1 * 1024 * 1024"

definition newline :: char where
  "newline = CHR 0x0A"

definition sse_frame :: "string \<Rightarrow> string \<Rightarrow> string" where
  "sse_frame event data = ''event: '' @ event @ newline # ''data: '' @ data @ [newline, newline]"

text \<open>
  \<open>writeSSE\<close> on a stream: the outcome of \<open>w.Write\<close> is success, or an error after some bytes. The
  result is whether it returned nil and what was written.
\<close>

definition writeSSE :: "nat option \<Rightarrow> string \<Rightarrow> string option \<Rightarrow> bool \<times> string" where
  "writeSSE outcome event data =
     (case data of
        None \<Rightarrow> (False, [])
      | Some data \<Rightarrow>
          if maxSSEPayload < length data then (False, [])
          else (case outcome of
                  None \<Rightarrow> (True, sse_frame event data)
                | Some n \<Rightarrow> (False, take n (sse_frame event data))))"

section \<open>The stream\<close>

text \<open>The first frame: only a replayed value carries a value.\<close>

definition first_json :: "json_format \<Rightarrow> string \<Rightarrow> UpdateEvent \<Rightarrow> string option" where
  "first_json jf name first =
     (if ev_Kind first = EventLastValue then event_json jf first else Some (name_json name))"

text \<open>
  The loop over what the channel delivers, each event with the outcome of its write; it ends with
  the list (the client is gone or the channel is closed), or at the first error.
\<close>

fun events_loop :: "json_format \<Rightarrow> (UpdateEvent \<times> nat option) list \<Rightarrow> string" where
  "events_loop jf [] = []"
| "events_loop jf ((evt, outcome) # evts) =
     (case writeSSE outcome (kind_text (ev_Kind evt)) (event_json jf evt) of
        (ok, out) \<Rightarrow> if ok then out @ events_loop jf evts else out)"

definition stream_body ::
  "json_format \<Rightarrow> string \<Rightarrow> UpdateEvent \<Rightarrow> nat option \<Rightarrow> (UpdateEvent \<times> nat option) list \<Rightarrow> string" where
  "stream_body jf name first outcome evts =
     (case writeSSE outcome (kind_text (ev_Kind first)) (first_json jf name first) of
        (ok, out) \<Rightarrow> if ok then out @ events_loop jf evts else out)"

section \<open>The reader\<close>

text \<open>
  The lines that are complete, and what an \<open>EventSource\<close> dispatches at each blank one: the last
  event name and the data, joined by line feeds, unless there is no data.
\<close>

definition complete_lines :: "string \<Rightarrow> string list" where
  "complete_lines s = butlast (Split s newline)"

fun dispatch :: "string \<Rightarrow> string option \<Rightarrow> string list \<Rightarrow> (string \<times> string) list" where
  "dispatch event data [] = []"
| "dispatch event data (l # ls) =
     (if l = [] then
        (case data of None \<Rightarrow> dispatch [] None ls | Some d \<Rightarrow> (event, d) # dispatch [] None ls)
      else if HasPrefix l ''event: '' then dispatch (drop 7 l) data ls
      else if HasPrefix l ''data: '' then
        dispatch event (Some (case data of None \<Rightarrow> drop 6 l | Some d \<Rightarrow> d @ newline # drop 6 l)) ls
      else dispatch event data ls)"

definition sse_read :: "string \<Rightarrow> (string \<times> string) list" where
  "sse_read s = dispatch [] None (complete_lines s)"

section \<open>Frames are read back\<close>

lemma Split_two:
  "sep \<notin> set a \<Longrightarrow> sep \<notin> set b \<Longrightarrow> Split (a @ sep # b @ sep # r) sep = a # b # Split r sep"
  by (simp add: Split_append)

lemma frame_lines:
  assumes "newline \<notin> set event" and "newline \<notin> set data"
  shows "Split (''event: '' @ event @ newline # ''data: '' @ data @ newline # r) newline =
    (''event: '' @ event) # (''data: '' @ data) # Split r newline"
proof -
  have "newline \<notin> set (''event: '' @ event)" "newline \<notin> set (''data: '' @ data)" using assms by (simp_all add: newline_def)
  from Split_two [OF this, of r] show ?thesis by (simp only: append_assoc)
qed

lemma complete_lines_frame:
  assumes "newline \<notin> set event" and "newline \<notin> set data"
  shows "complete_lines (sse_frame event data @ s) = [''event: '' @ event, ''data: '' @ data, []] @ complete_lines s"
  using frame_lines [OF assms, of "newline # s"] by (simp add: complete_lines_def sse_frame_def)

lemma sse_read_frame:
  assumes "newline \<notin> set event" and "newline \<notin> set data"
  shows "sse_read (sse_frame event data @ s) = (event, data) # sse_read s"
  unfolding sse_read_def complete_lines_frame [OF assms] by simp

lemma sse_read_nil: "sse_read [] = []"
  by (simp add: sse_read_def complete_lines_def)

text \<open>A frame that was not written to its end is not dispatched.\<close>

lemma sse_read_partial:
  assumes "newline \<notin> set event" and "newline \<notin> set data" and "n < length (sse_frame event data)"
  shows "sse_read (take n (sse_frame event data)) = []"
proof -
  define b where "b = ''event: '' @ event @ newline # ''data: '' @ data @ [newline]"
  have "sse_frame event data = b @ [newline]" by (simp add: sse_frame_def b_def)
  then have t: "take n (sse_frame event data) = take n b" using assms(3) by simp
  have "butlast (Split b newline) = [''event: '' @ event, ''data: '' @ data]"
    using frame_lines [OF assms(1,2), of "[]"] by (simp add: b_def)
  then obtain k where "complete_lines (take n (sse_frame event data)) = take k [''event: '' @ event, ''data: '' @ data]"
    using Split_take [of n b newline] t by (auto simp: complete_lines_def)
  moreover have "k = 0 \<or> k = 1 \<or> 2 \<le> k" by linarith
  ultimately show ?thesis unfolding sse_read_def by (auto simp: numeral_2_eq_2)
qed


section \<open>The stream is read back\<close>

definition one_line_format :: "json_format \<Rightarrow> bool" where
  "one_line_format jf \<longleftrightarrow> (\<forall>q. one_line (jf_float jf (Fin q)))"

definition written :: "nat option \<Rightarrow> string option \<Rightarrow> bool" where
  "written outcome data \<longleftrightarrow> outcome = None \<and> (case data of None \<Rightarrow> False | Some d \<Rightarrow> length d \<le> maxSSEPayload)"

text \<open>The contract of \<open>io.Writer\<close>: a failed write stops before the end of the frame.\<close>

definition short_write :: "nat option \<Rightarrow> string \<Rightarrow> string option \<Rightarrow> bool" where
  "short_write outcome event data \<longleftrightarrow>
     (\<forall>n d. outcome = Some n \<and> data = Some d \<longrightarrow> n < length (sse_frame event d))"

lemma kind_text_newline: "newline \<notin> set (kind_text k)"
  by (cases k) (simp_all add: kind_text_def newline_def)

lemma event_json_newline:
  assumes "one_line_format jf" and "event_json jf e = Some d"
  shows "newline \<notin> set d"
proof -
  obtain v t where v: "marshal_any (jf_float jf) (ev_Value e) = Some v"
    and d: "d = object ([(''name'', quote (ev_Name e)), (''value'', v), (''timestamp'', quote t)] @
                        (if ev_LastValue e then [(''last_value'', ''true'')] else []))"
    using assms(2) by (auto simp: event_json_def split: option.splits)
  have "one_line v" by (rule marshal_any_line [OF _ v]) (use assms(1) in \<open>simp add: one_line_format_def\<close>)
  then have "one_line d" unfolding d by (intro object_line) (auto simp: quote_line split: if_splits)
  then show ?thesis unfolding newline_def by (rule one_line_no_newline)
qed

lemma name_json_newline: "newline \<notin> set (name_json name)"
proof -
  have "one_line (name_json name)" unfolding name_json_def by (rule object_line) (auto simp: quote_line)
  then show ?thesis unfolding newline_def by (rule one_line_no_newline)
qed

lemma first_json_newline: "one_line_format jf \<Longrightarrow> first_json jf name first = Some d \<Longrightarrow> newline \<notin> set d"
  by (auto simp: first_json_def event_json_newline name_json_newline split: if_splits)

lemma sse_read_writeSSE:
  assumes "\<And>d. data = Some d \<Longrightarrow> newline \<notin> set d" and "short_write outcome (kind_text k) data"
    and "writeSSE outcome (kind_text k) data = (ok, out)"
  shows "ok = written outcome data" and "ok \<Longrightarrow> sse_read (out @ s) = (kind_text k, the data) # sse_read s"
    and "\<not> ok \<Longrightarrow> sse_read out = []"
  using assms sse_read_frame [OF kind_text_newline] sse_read_partial [OF kind_text_newline] sse_read_nil
  by (auto simp: writeSSE_def written_def short_write_def split: option.splits if_splits)

definition event_frame :: "json_format \<Rightarrow> UpdateEvent \<Rightarrow> string \<times> string" where
  "event_frame jf e = (kind_text (ev_Kind e), the (event_json jf e))"

lemma sse_read_events:
  assumes "one_line_format jf"
    and "\<forall>(e, w) \<in> set evts. short_write w (kind_text (ev_Kind e)) (event_json jf e)"
  shows "sse_read (events_loop jf evts) =
    map (event_frame jf \<circ> fst) (takeWhile (\<lambda>(e, w). written w (event_json jf e)) evts)"
  using assms(2)
proof (induction evts)
  case (Cons ew evts)
  obtain e w where ew: "ew = (e, w)" by fastforce
  obtain ok out where o: "writeSSE w (kind_text (ev_Kind e)) (event_json jf e) = (ok, out)" by fastforce
  have sw: "short_write w (kind_text (ev_Kind e)) (event_json jf e)" using Cons.prems ew by simp
  note r = sse_read_writeSSE [OF event_json_newline [OF assms(1)] sw o]
  show ?case using Cons r by (cases ok) (simp_all add: ew o event_frame_def)
qed (simp add: sse_read_nil)


definition demo_format :: json_format where
  "demo_format = \<lparr>jf_float = (\<lambda>_. ''1''), jf_time = (\<lambda>_. Some ''2024-01-15T10:30:00Z'')\<rparr>"

lemma demo_format_one_line: "one_line_format demo_format"
  by (simp add: one_line_format_def demo_format_def)


text \<open>
  Remark. A value that JSON cannot hold ends the stream: the frame of a NaN or an infinity is never
  written and nothing after it is, and while it is the board's value, every new subscription to the
  variable reads no frame at all.
\<close>

theorem nan_ends_stream:
  assumes "ev_Value e = AFloat x" and "\<forall>q. x \<noteq> Fin q" and "ev_Kind e = EventLastValue \<or> ev_Kind e = EventUpdate"
  shows "events_loop jf ((e, outcome) # evts) = [] \<and>
    (ev_Kind e = EventLastValue \<longrightarrow> stream_body jf name e outcome evts = [])"
proof -
  have "event_json jf e = None" using assms(1,2) by (cases x) (auto simp: event_json_def)
  then show ?thesis by (simp add: writeSSE_def stream_body_def first_json_def)
qed

theorem nan_ends_stream_witness:
  "events_loop demo_format [(\<lparr>ev_Name = ''t'', ev_Value = AFloat FNaN, ev_Timestamp = 0, ev_LastValue = False,
     ev_Kind = EventUpdate\<rparr>, None), (bare_event ''t'' EventUpdate, None)] = []"
  using nan_ends_stream [of "\<lparr>ev_Name = ''t'', ev_Value = AFloat FNaN, ev_Timestamp = 0, ev_LastValue = False,
     ev_Kind = EventUpdate\<rparr>" FNaN demo_format None] by simp

text \<open>
  Remark. A frame without a value has two forms: as the first frame it holds the name alone, but the
  verdict a pending subscriber gets later through its queue carries a null value and the zero time.
\<close>

theorem late_verdict_carries_null:
  "first_json jf name (bare_event name EventLastValueMissing) = Some (object [(''name'', quote name)]) \<and>
   event_json jf (bare_event name EventLastValueMissing) =
     map_option (\<lambda>t. object [(''name'', quote name), (''value'', ''null''), (''timestamp'', quote t)]) (jf_time jf zero_time)"
  by (simp add: first_json_def name_json_def event_json_def bare_event_def split: option.split)

end
