(* ===== verification/Origin.thy ===== *)
theory Origin
  imports Go_Strings
begin

text \<open>
  The CORS policy of the REST API, \<open>internal/api/api.go\<close>: \<open>url.Parse\<close> of Go's \<open>net/url\<close> as far
  as it decides an origin, the allow-list, and the middleware. The lemmas give the exact set of
  ASCII origins that are allowed.
\<close>

section \<open>Parsing a URL\<close>

definition is_letter :: "char \<Rightarrow> bool" where
  "is_letter c \<longleftrightarrow> (let n = (of_char c :: nat) in (65 \<le> n \<and> n \<le> 90) \<or> (97 \<le> n \<and> n \<le> 122))"

definition lower :: "char \<Rightarrow> char" where
  "lower c = (let n = (of_char c :: nat) in if 65 \<le> n \<and> n \<le> 90 then char_of (n + 32) else c)"

definition is_control :: "char \<Rightarrow> bool" where
  "is_control c \<longleftrightarrow> (of_char c :: nat) < 32 \<or> (of_char c :: nat) = 127"

text \<open>The loop of \<open>getScheme\<close>; \<open>None\<close> is its error, an empty scheme means that there is none.\<close>

fun scheme_loop :: "string \<Rightarrow> string \<Rightarrow> string \<Rightarrow> (string \<times> string) option" where
  "scheme_loop raw seen [] = Some ([], raw)"
| "scheme_loop raw seen (c # s) =
     (if is_letter c then scheme_loop raw (seen @ [c]) s
      else if is_digit c \<or> c = CHR ''+'' \<or> c = CHR ''-'' \<or> c = CHR ''.'' then
        if seen = [] then Some ([], raw) else scheme_loop raw (seen @ [c]) s
      else if c = CHR '':'' then
        if seen = [] then None else Some (seen, s)
      else Some ([], raw))"

definition getScheme :: "string \<Rightarrow> (string \<times> string) option" where
  "getScheme raw = scheme_loop raw [] raw"

text \<open>Percent decoding; \<open>ok\<close> says which bytes may stand for themselves and which may be escaped.\<close>

fun unescape :: "(char \<Rightarrow> bool) \<Rightarrow> (char \<Rightarrow> bool) \<Rightarrow> string \<Rightarrow> string option" where
  "unescape plain esc [] = Some []"
| "unescape plain esc (c # s) =
     (if c = CHR ''%'' then
        (case s of
           a # b # r \<Rightarrow>
             (case (hex_value a, hex_value b) of
                (Some x, Some y) \<Rightarrow>
                  let d = char_of (nat (16 * x + y))
                  in if esc d then map_option ((#) d) (unescape plain esc r) else None
              | _ \<Rightarrow> None)
         | _ \<Rightarrow> None)
      else if plain c then map_option ((#) c) (unescape plain esc s) else None)"

definition high :: "char \<Rightarrow> bool" where
  "high c \<longleftrightarrow> 128 \<le> (of_char c :: nat)"

definition host_char :: "char \<Rightarrow> bool" where
  "host_char c \<longleftrightarrow> is_letter c \<or> is_digit c \<or> high c \<or> c \<in> set ''-_.~!$&()*+,;=:[]<>'' \<or> c = CHR 0x22 \<or> c = CHR 0x27"

definition unescape_host :: "string \<Rightarrow> string option" where
  "unescape_host = unescape host_char (\<lambda>c. high c \<or> c = CHR ''%'')"

definition unescape_path :: "string \<Rightarrow> string option" where
  "unescape_path = unescape (\<lambda>_. True) (\<lambda>_. True)"

definition userinfo_char :: "char \<Rightarrow> bool" where
  "userinfo_char c \<longleftrightarrow> is_letter c \<or> is_digit c \<or> c \<in> set ''-._:~!$&()*+,;=%@'' \<or> c = CHR 0x27"

definition validOptionalPort :: "string \<Rightarrow> bool" where
  "validOptionalPort p = (case p of [] \<Rightarrow> True | c # ds \<Rightarrow> c = CHR '':'' \<and> list_all is_digit ds)"

text \<open>Cutting around the last occurrence of a byte.\<close>

definition CutLast :: "string \<Rightarrow> char \<Rightarrow> (string \<times> string) option" where
  "CutLast s c = (case Cut (rev s) c of (a, b, found) \<Rightarrow> if found then Some (rev b, rev a) else None)"

text \<open>
  \<open>parseHost\<close>; \<open>ip_literal\<close> is its treatment of a host in brackets, which must be an IPv6 address.
\<close>

definition parseHost :: "(string \<Rightarrow> string option) \<Rightarrow> string \<Rightarrow> string option" where
  "parseHost ip_literal host =
     (if CHR ''['' \<in> set host then
        if hd host \<noteq> CHR ''['' \<or> CHR ''['' \<in> set (tl host) then None else ip_literal host
      else case Cut host (CHR '':'') of (name, port, found) \<Rightarrow>
        if found \<and> \<not> validOptionalPort (CHR '':'' # port) then None
        else unescape_host host)"

record URL =
  Scheme :: string
  Opaque :: string
  User :: bool
  Host :: string
  Path :: string
  RawQuery :: string
  Fragment :: string

definition parseAuthority :: "(string \<Rightarrow> string option) \<Rightarrow> string \<Rightarrow> (bool \<times> string) option" where
  "parseAuthority ip_literal authority =
     (case CutLast authority (CHR ''@'') of
        None \<Rightarrow> map_option (Pair False) (parseHost ip_literal authority)
      | Some (userinfo, host) \<Rightarrow>
          (case parseHost ip_literal host of
             None \<Rightarrow> None
           | Some h \<Rightarrow>
               if \<not> list_all userinfo_char userinfo then None
               else map_option (\<lambda>_. (True, h)) (unescape_path userinfo)))"

definition split_query :: "string \<Rightarrow> string \<times> string" where
  "split_query rest =
     (if rest \<noteq> [] \<and> last rest = CHR ''?'' \<and> CHR ''?'' \<notin> set (butlast rest) then (butlast rest, [])
      else case Cut rest (CHR ''?'') of (rest, query, _) \<Rightarrow> (rest, query))"

text \<open>\<open>parse\<close> of a URL without its fragment.\<close>

definition parse_body :: "(string \<Rightarrow> string option) \<Rightarrow> string \<Rightarrow> URL option" where
  "parse_body ip_literal raw =
     (let none = \<lparr>Scheme = [], Opaque = [], User = False, Host = [], Path = [], RawQuery = [], Fragment = []\<rparr>
      in if list_ex is_control raw then None
         else if raw = ''*'' then Some (none\<lparr>Path := ''*''\<rparr>)
         else case getScheme raw of
           None \<Rightarrow> None
         | Some (sch, rest) \<Rightarrow>
             (case split_query rest of
                (rest, query) \<Rightarrow>
                  let u = none\<lparr>Scheme := map lower sch, RawQuery := query\<rparr>
                  in if \<not> HasPrefix rest ''/'' \<and> sch \<noteq> [] then Some (u\<lparr>Opaque := rest\<rparr>)
                     else if \<not> HasPrefix rest ''/'' \<and> CHR '':'' \<in> set (fst (Cut rest (CHR ''/''))) then None
                     else if HasPrefix rest ''//'' \<and> (sch \<noteq> [] \<or> \<not> HasPrefix rest ''///'') then
                       (case Cut (drop 2 rest) (CHR ''/'') of
                          (authority, path, found) \<Rightarrow>
                            let path = (if found then CHR ''/'' # path else [])
                            in (case parseAuthority ip_literal authority of
                                  None \<Rightarrow> None
                                | Some (user, host) \<Rightarrow>
                                    map_option (\<lambda>p. u\<lparr>User := user, Host := host, Path := p\<rparr>) (unescape_path path)))
                     else map_option (\<lambda>p. u\<lparr>Path := p\<rparr>) (unescape_path rest)))"

definition url_Parse :: "(string \<Rightarrow> string option) \<Rightarrow> string \<Rightarrow> URL option" where
  "url_Parse ip_literal raw =
     (case Cut raw (CHR ''#'') of
        (u, frag, _) \<Rightarrow>
          (case parse_body ip_literal u of
             None \<Rightarrow> None
           | Some url \<Rightarrow> if frag = [] then Some url
                         else map_option (\<lambda>f. url\<lparr>Fragment := f\<rparr>) (unescape_path frag)))"

text \<open>\<open>Hostname()\<close> and \<open>Port()\<close>.\<close>

definition splitHostPort :: "string \<Rightarrow> string \<times> string" where
  "splitHostPort hostPort =
     (let (host, port) =
        (case CutLast hostPort (CHR '':'') of
           Some (h, p) \<Rightarrow> if validOptionalPort (CHR '':'' # p) then (h, p) else (hostPort, [])
         | None \<Rightarrow> (hostPort, []))
      in (if HasPrefix host ''['' \<and> last host = CHR '']'' then butlast (tl host) else host, port))"

definition Hostname :: "URL \<Rightarrow> string" where
  "Hostname u = fst (splitHostPort (Host u))"

definition Port :: "URL \<Rightarrow> string" where
  "Port u = snd (splitHostPort (Host u))"

text \<open>
  \<open>strings.EqualFold\<close> against an ASCII string: besides the two cases of a letter, the long s folds
  to \<open>s\<close> and the Kelvin sign to \<open>k\<close>.
\<close>

fun EqualFold :: "string \<Rightarrow> string \<Rightarrow> bool" where
  "EqualFold s [] = (s = [])"
| "EqualFold s (t # ts) =
     (case s of
        [] \<Rightarrow> False
      | c # r \<Rightarrow>
          if \<not> high c then lower c = lower t \<and> EqualFold r ts
          else if HasPrefix s [CHR 0xC5, CHR 0xBF] then lower t = CHR ''s'' \<and> EqualFold (drop 2 s) ts
          else if HasPrefix s [CHR 0xE2, CHR 0x84, CHR 0xAA] then lower t = CHR ''k'' \<and> EqualFold (drop 3 s) ts
          else False)"

section \<open>The allow-list\<close>

record allowedOrigin =
  ao_scheme :: string
  ao_host :: string
  ao_anyPort :: bool

definition allowedOrigins :: "allowedOrigin list" where
  "allowedOrigins =
     [\<lparr>ao_scheme = ''wails'', ao_host = ''wails'', ao_anyPort = False\<rparr>,
      \<lparr>ao_scheme = ''wails'', ao_host = ''wails.localhost'', ao_anyPort = True\<rparr>,
      \<lparr>ao_scheme = ''http'', ao_host = ''wails.localhost'', ao_anyPort = True\<rparr>,
      \<lparr>ao_scheme = ''http'', ao_host = ''localhost'', ao_anyPort = True\<rparr>,
      \<lparr>ao_scheme = ''https'', ao_host = ''localhost'', ao_anyPort = True\<rparr>]"

fun origin_loop :: "URL \<Rightarrow> string \<Rightarrow> string \<Rightarrow> allowedOrigin list \<Rightarrow> bool" where
  "origin_loop u host port [] = False"
| "origin_loop u host port (a # as) =
     (if Scheme u \<noteq> ao_scheme a \<or> \<not> EqualFold host (ao_host a) then origin_loop u host port as
      else if ao_anyPort a \<or> port = [] then True
      else origin_loop u host port as)"

definition isAllowedOrigin :: "(string \<Rightarrow> string option) \<Rightarrow> string \<Rightarrow> bool" where
  "isAllowedOrigin ip_literal origin =
     (if origin = [] then False
      else case url_Parse ip_literal origin of
        None \<Rightarrow> False
      | Some u \<Rightarrow>
          if Opaque u \<noteq> [] \<or> User u \<or> Path u \<noteq> [] \<or> RawQuery u \<noteq> [] \<or> Fragment u \<noteq> [] then False
          else origin_loop u (Hostname u) (Port u) allowedOrigins)"

section \<open>Lemmas\<close>

lemma origin_loop_iff:
  "origin_loop u host port as \<longleftrightarrow>
     (\<exists>a \<in> set as. Scheme u = ao_scheme a \<and> EqualFold host (ao_host a) \<and> (ao_anyPort a \<or> port = []))"
  by (induction as) auto

lemma EqualFold_ascii:
  "list_all (\<lambda>c. \<not> high c) s \<Longrightarrow> EqualFold s t \<longleftrightarrow> map lower s = map lower t"
proof (induction t arbitrary: s)
  case (Cons d t)
  then show ?case by (cases s) simp_all
qed simp

lemma CutLast_Some: "CutLast s c = Some (a, b) \<Longrightarrow> s = a @ c # b \<and> c \<notin> set b"
proof -
  assume "CutLast s c = Some (a, b)"
  then have "Cut (rev s) c = (rev b, rev a, True)"
    by (auto simp: CutLast_def split: prod.splits if_splits)
  from Cut_found [OF this] show ?thesis by (simp add: rev_swap)
qed

lemma CutLast_None: "CutLast s c = None \<longleftrightarrow> c \<notin> set s"
proof -
  obtain a b f where c: "Cut (rev s) c = (a, b, f)" by (cases "Cut (rev s) c")
  show ?thesis
  proof (cases f)
    case True
    then have "c \<in> set s" using Cut_found [of "rev s" c a b] c by (metis in_set_conv_decomp set_rev)
    then show ?thesis using c True by (simp add: CutLast_def)
  next
    case False
    then show ?thesis using Cut_not_found [of "rev s" c a b] c by (simp add: CutLast_def)
  qed
qed

lemma CutLast_append: "c \<notin> set b \<Longrightarrow> CutLast (a @ c # b) c = Some (a, b)"
  using Cut_append [of c "rev b" "rev a"] by (simp add: CutLast_def)

lemma unescape_path_empty: "unescape_path s = Some [] \<longleftrightarrow> s = []"
proof (cases s)
  case (Cons c r)
  then show ?thesis
    by (auto simp: unescape_path_def Let_def split: if_splits list.splits option.splits)
qed (simp add: unescape_path_def)

lemma unescape_host_plain:
  "CHR ''%'' \<notin> set s \<Longrightarrow> unescape_host s = (if list_all host_char s then Some s else None)"
  unfolding unescape_host_def by (induction s) auto

definition scheme_char :: "char \<Rightarrow> bool" where
  "scheme_char c \<longleftrightarrow> is_letter c \<or> is_digit c \<or> c = CHR ''+'' \<or> c = CHR ''-'' \<or> c = CHR ''.''"

lemma scheme_loop_Some:
  "scheme_loop raw seen s = Some (sch, rest) \<Longrightarrow> sch \<noteq> [] \<Longrightarrow> \<exists>m. s = m @ CHR '':'' # rest \<and> sch = seen @ m"
proof (induction raw seen s rule: scheme_loop.induct)
  case (2 raw seen c s)
  show ?case
  proof (cases "is_letter c \<or> is_digit c \<or> c = CHR ''+'' \<or> c = CHR ''-'' \<or> c = CHR ''.''")
    case True
    then have "\<exists>m. s = m @ CHR '':'' # rest \<and> sch = (seen @ [c]) @ m"
      using 2 by (cases "is_letter c"; cases "seen = []") auto
    then obtain m where "s = m @ CHR '':'' # rest" "sch = (seen @ [c]) @ m" by blast
    then show ?thesis by (intro exI [of _ "c # m"]) simp
  next
    case False
    then show ?thesis using 2(3,4) by (auto split: if_splits)
  qed
qed simp

lemma scheme_loop_run:
  "list_all scheme_char m \<Longrightarrow> seen \<noteq> [] \<or> (m \<noteq> [] \<and> is_letter (hd m)) \<Longrightarrow>
     scheme_loop raw seen (m @ CHR '':'' # rest) = Some (seen @ m, rest)"
proof (induction m arbitrary: seen)
  case Nil
  then show ?case by (simp add: is_letter_def is_digit_def less_eq_char_def)
next
  case (Cons c m)
  have "scheme_loop raw (seen @ [c]) (m @ CHR '':'' # rest) = Some ((seen @ [c]) @ m, rest)"
    by (rule Cons.IH) (use Cons.prems in simp_all)
  then show ?case using Cons.prems by (auto simp: scheme_char_def)
qed


lemma split_query_no_query: "split_query rest = (r, []) \<longleftrightarrow> CHR ''?'' \<notin> set r \<and> (rest = r \<or> rest = r @ ''?'')"
proof
  assume "split_query rest = (r, [])"
  then show "CHR ''?'' \<notin> set r \<and> (rest = r \<or> rest = r @ ''?'')"
  proof (cases "rest \<noteq> [] \<and> last rest = CHR ''?'' \<and> CHR ''?'' \<notin> set (butlast rest)")
    case True
    then show ?thesis using \<open>split_query rest = (r, [])\<close> append_butlast_last_id [of rest]
      by (auto simp: split_query_def)
  next
    case False
    then obtain f where "Cut rest (CHR ''?'') = (r, [], f)"
      using \<open>split_query rest = (r, [])\<close> by (auto simp: split_query_def split: prod.splits)
    then show ?thesis
      using False Cut_found [of rest "CHR ''?''" r "[]"] Cut_not_found [of rest "CHR ''?''" r "[]"] by (cases f) auto
  qed
next
  assume r: "CHR ''?'' \<notin> set r \<and> (rest = r \<or> rest = r @ ''?'')"
  then have "Cut r (CHR ''?'') = (r, [], False)"
    using Cut_found [of r "CHR ''?''"] Cut_not_found [of r "CHR ''?''"]
    by (cases "Cut r (CHR ''?'')") (metis (full_types) in_set_conv_decomp)
  moreover have "r \<noteq> [] \<Longrightarrow> last r \<noteq> CHR ''?''" using r last_in_set by metis
  ultimately show "split_query rest = (r, [])" using r by (auto simp: split_query_def)
qed

lemma Cut_absent: "sep \<notin> set s \<Longrightarrow> Cut s sep = (s, [], False)"
  by (induction s) auto

text \<open>The text before the fragment of an allowed origin.\<close>

definition plain_url :: "URL \<Rightarrow> bool" where
  "plain_url u \<longleftrightarrow> Opaque u = [] \<and> \<not> User u \<and> Path u = [] \<and> RawQuery u = [] \<and> Fragment u = []"

lemma parse_body_plain:
  assumes "parse_body ip raw = Some u" and "plain_url u" and "Scheme u \<noteq> []" and "Host u \<noteq> []"
  obtains sch authority q where "raw = sch @ ''://'' @ authority @ q" and "q = [] \<or> q = ''?''" and "Scheme u = map lower sch"
    and "CHR ''@'' \<notin> set authority" and "CHR ''/'' \<notin> set authority" and "CHR ''?'' \<notin> set authority"
    and "parseHost ip authority = Some (Host u)"
proof -
  obtain sch rest where s: "getScheme raw = Some (sch, rest)" "raw \<noteq> ''*''"
    using assms by (auto simp: parse_body_def plain_url_def Let_def split: if_splits option.splits)
  obtain r query where q: "split_query rest = (r, query)" by fastforce
  note run = assms(1) [unfolded parse_body_def Let_def s q option.case prod.case]
  have "sch \<noteq> []" and "query = []" and "Scheme u = map lower sch"
    using run s(2) q assms(2,3)
    by (auto simp: plain_url_def split: if_splits option.splits prod.splits)
  then have sch: "raw = sch @ CHR '':'' # rest"
    using scheme_loop_Some [of raw "[]" raw sch rest] s(1) by (auto simp: getScheme_def)
  obtain authority path found where c: "Cut (drop 2 r) (CHR ''/'') = (authority, path, found)"
    by (cases "Cut (drop 2 r) (CHR ''/'')")
  have two: "HasPrefix r ''//''"
    using run s(2) \<open>sch \<noteq> []\<close> assms(2,4) by (auto simp: plain_url_def split: if_splits option.splits prod.splits)
  then have pre: "HasPrefix r ''/''" by (auto simp: HasPrefix_iff)
  obtain user where auth: "parseAuthority ip authority = Some (user, Host u)" and p: "\<not> user" "\<not> found"
    using run s(2) \<open>sch \<noteq> []\<close> two pre c assms(2)
    by (auto simp: plain_url_def unescape_path_empty split: if_splits option.splits prod.splits)
  have "drop 2 r = authority" "CHR ''/'' \<notin> set authority" using Cut_not_found [of "drop 2 r"] c p(2) by auto
  moreover obtain t where "r = ''//'' @ t" using two by (auto simp: HasPrefix_iff)
  ultimately have r: "r = ''//'' @ authority" and slash: "CHR ''/'' \<notin> set authority" by simp_all
  have at: "CHR ''@'' \<notin> set authority" "parseHost ip authority = Some (Host u)"
    using auth p(1) CutLast_None [of authority "CHR ''@''"]
    by (auto simp: parseAuthority_def split: option.splits if_splits)
  have "CHR ''?'' \<notin> set r \<and> (rest = r \<or> rest = r @ ''?'')"
    using q \<open>query = []\<close> split_query_no_query by simp
  then show thesis
    using that [of sch authority "drop (length r) rest"] sch r at slash \<open>Scheme u = map lower sch\<close> by auto
qed


section \<open>Names of the allow-list\<close>

definition simple :: "char \<Rightarrow> bool" where
  "simple c \<longleftrightarrow> is_letter c \<or> c = CHR ''.''"

lemma of_char_lower:
  "(of_char (lower c) :: nat) =
     (if 65 \<le> (of_char c :: nat) \<and> (of_char c :: nat) \<le> 90 then of_char c + 32 else of_char c)"
  by (simp add: lower_def Let_def)

lemma lower_eq:
  assumes "lower c = d" and "(of_char d :: nat) < 97"
  shows "c = d"
proof -
  have "(of_char (lower c) :: nat) = of_char d" using assms by simp
  then have "(of_char c :: nat) = of_char d" using assms(2) by (simp add: of_char_lower split: if_splits)
  then show ?thesis by simp
qed

lemma lower_letter: "is_letter (lower c) \<Longrightarrow> is_letter c"
  by (auto simp: is_letter_def Let_def of_char_lower split: if_splits)

lemma lower_simple: "simple (lower c) \<Longrightarrow> simple c"
  using lower_eq [of c "CHR ''.''"] lower_letter by (auto simp: simple_def)

lemma simple_char:
  assumes "simple c"
  shows "host_char c" "\<not> is_control c" "c \<notin> set ''/?#@:[%''"
  using assms by (auto simp: simple_def host_char_def is_letter_def is_control_def Let_def)

lemma allowed_names:
  "a \<in> set allowedOrigins \<Longrightarrow> list_all simple (ao_host a) \<and> list_all is_letter (ao_scheme a) \<and> ao_host a \<noteq> [] \<and>
     ao_scheme a \<noteq> [] \<and> map lower (ao_host a) = ao_host a"
  by (auto simp: allowedOrigins_def simple_def is_letter_def lower_def)

lemma map_lower_simple:
  "list_all simple t \<Longrightarrow> map lower s = t \<Longrightarrow> list_all simple s"
  by (induction s arbitrary: t) (auto intro: lower_simple)

lemma map_lower_letter: "list_all is_letter t \<Longrightarrow> map lower s = t \<Longrightarrow> list_all is_letter s"
  by (induction s arbitrary: t) (auto intro: lower_letter)

lemma EqualFold_colon: "EqualFold s t \<Longrightarrow> CHR '':'' \<in> set s \<Longrightarrow> CHR '':'' \<in> set t"
proof (induction s t rule: EqualFold.induct)
  case (2 s t ts)
  have colon: "lower (CHR '':'') = CHR '':''" by (simp add: lower_def)
  show ?case
    using 2 lower_eq [of t "CHR '':''"]
    by (auto simp: HasPrefix_iff high_def colon split: list.splits if_splits)
qed simp


section \<open>Host and port\<close>

lemma digits_no_colon: "list_all is_digit ds \<Longrightarrow> CHR '':'' \<notin> set ds"
  by (auto simp: list_all_iff is_digit_def less_eq_char_def)

lemma splitHostPort_plain:
  assumes "CHR ''['' \<notin> set host" and "CHR '':'' \<notin> set host" and "validOptionalPort port"
  shows "splitHostPort (host @ port) = (host, tl port)"
proof -
  have b: "\<not> HasPrefix host ''[''" using assms(1) by (auto simp: HasPrefix_iff)
  show ?thesis
  proof (cases port)
    case Nil
    then show ?thesis using assms(2) b CutLast_None [of host "CHR '':''"] by (simp add: splitHostPort_def)
  next
    case (Cons c ds)
    then have "CutLast (host @ port) (CHR '':'') = Some (host, ds)"
      using assms(3) CutLast_append [OF digits_no_colon, of ds host] by (simp add: validOptionalPort_def)
    then show ?thesis using assms(3) Cons b by (simp add: splitHostPort_def validOptionalPort_def)
  qed
qed

lemma parseHost_plain:
  assumes "parseHost ip authority = Some h" and "CHR ''['' \<notin> set authority" and "CHR ''%'' \<notin> set authority"
  obtains host port where "authority = host @ port" and "validOptionalPort port" and "CHR '':'' \<notin> set host" and "h = authority"
proof -
  obtain name p found where c: "Cut authority (CHR '':'') = (name, p, found)" by (cases "Cut authority (CHR '':'')")
  have h: "h = authority"
    using assms c by (auto simp: parseHost_def unescape_host_plain split: if_splits)
  show thesis
  proof (cases found)
    case True
    then show thesis using that [of name "CHR '':'' # p"] c assms h Cut_found [of authority "CHR '':''" name p]
      by (auto simp: parseHost_def split: if_splits)
  next
    case False
    then show thesis using that [of authority "[]"] c h Cut_not_found [of authority "CHR '':''" name p]
      by (auto simp: validOptionalPort_def)
  qed
qed

text \<open>An origin of the allow-list: scheme, host and port, and an empty query or fragment mark.\<close>

definition listed_origin :: "string \<Rightarrow> bool" where
  "listed_origin origin \<longleftrightarrow>
     (\<exists>a \<in> set allowedOrigins. \<exists>sch host port tail. origin = sch @ ''://'' @ host @ port @ tail \<and>
        map lower sch = ao_scheme a \<and> map lower host = ao_host a \<and> validOptionalPort port \<and>
        (ao_anyPort a \<or> tl port = []) \<and> tail \<in> {[], ''?'', ''#'', ''?#''})"

text \<open>A plain URL is its body, possibly followed by the mark of an empty fragment.\<close>

lemma url_Parse_plain:
  assumes "url_Parse ip origin = Some u" and "plain_url u"
  obtains raw where "parse_body ip raw = Some u" "origin = raw \<or> origin = raw @ ''#''"
proof -
  obtain raw frag found where c: "Cut origin (CHR ''#'') = (raw, frag, found)" by (cases "Cut origin (CHR ''#'')")
  obtain v where v: "parse_body ip raw = Some v"
      "if frag = [] then u = v else \<exists>f. unescape_path frag = Some f \<and> u = v\<lparr>Fragment := f\<rparr>"
    using assms(1) c by (auto simp: url_Parse_def split: option.splits if_splits)
  have frag: "frag = []"
  proof (rule ccontr)
    assume "frag \<noteq> []"
    then obtain f where "unescape_path frag = Some f" "u = v\<lparr>Fragment := f\<rparr>" using v(2) by auto
    then have "unescape_path frag = Some []" using assms(2) by (simp add: plain_url_def)
    then show False using \<open>frag \<noteq> []\<close> unescape_path_empty by simp
  qed
  have "origin = raw \<or> origin = raw @ ''#''"
    using c frag Cut_found [of origin "CHR ''#''" raw] Cut_not_found [of origin "CHR ''#''" raw] by (cases found) auto
  then show ?thesis using that v frag by simp
qed

lemma allowed_host_present:
  assumes "a \<in> set allowedOrigins" and "EqualFold (Hostname u) (ao_host a)"
  shows "Host u \<noteq> []"
proof
  assume "Host u = []"
  then have "Hostname u = []" by (simp add: Hostname_def splitHostPort_def CutLast_def)
  then show False using assms(2) allowed_names [OF assms(1)] by (cases "ao_host a") auto
qed

lemma allowed_host_unbracketed:
  assumes "a \<in> set allowedOrigins" and "EqualFold (Hostname u) (ao_host a)"
    and "parseHost ip authority = Some (Host u)"
    and "ip authority = Some (Host u) \<Longrightarrow> CHR '':'' \<in> set (fst (splitHostPort (Host u)))"
  shows "CHR ''['' \<notin> set authority"
proof
  assume "CHR ''['' \<in> set authority"
  then have "ip authority = Some (Host u)" using assms(3) by (auto simp: parseHost_def split: if_splits)
  then have "CHR '':'' \<in> set (Hostname u)" using assms(4) by (simp add: Hostname_def)
  then have "CHR '':'' \<in> set (ao_host a)" using EqualFold_colon assms(2) by blast
  then show False using allowed_names [OF assms(1)] simple_char(3) by (auto simp: list_all_iff)
qed

lemma allowed_listed:
  assumes "isAllowedOrigin ip origin" and "list_all (\<lambda>c. \<not> high c) origin" and "CHR ''%'' \<notin> set origin"
    and "\<And>h x. ip h = Some x \<Longrightarrow> CHR '':'' \<in> set (fst (splitHostPort x))"
  shows "listed_origin origin"
proof -
  obtain u where u: "url_Parse ip origin = Some u" "plain_url u"
    and "origin_loop u (Hostname u) (Port u) allowedOrigins"
    using assms(1) by (auto simp: isAllowedOrigin_def plain_url_def split: if_splits option.splits)
  then obtain a where a: "a \<in> set allowedOrigins" "Scheme u = ao_scheme a" "EqualFold (Hostname u) (ao_host a)"
      "ao_anyPort a \<or> Port u = []"
    by (auto simp: origin_loop_iff)
  note names = allowed_names [OF a(1)]
  obtain raw where body: "parse_body ip raw = Some u" and raw: "origin = raw \<or> origin = raw @ ''#''"
    by (rule url_Parse_plain [OF u])
  have "Scheme u \<noteq> []" using a(2) names by simp
  then obtain sch authority q where o: "raw = sch @ ''://'' @ authority @ q" "q = [] \<or> q = ''?''"
      "Scheme u = map lower sch" "parseHost ip authority = Some (Host u)"
    using parse_body_plain [OF body u(2)] allowed_host_present [OF a(1,3)] by metis
  have "CHR ''['' \<notin> set authority" by (rule allowed_host_unbracketed [OF a(1,3) o(4)]) (rule assms(4))
  moreover have "CHR ''%'' \<notin> set authority" using assms(3) raw o(1) by auto
  ultimately obtain host port where h: "authority = host @ port" "validOptionalPort port" "CHR '':'' \<notin> set host"
      "Host u = authority" "CHR ''['' \<notin> set host"
    using parseHost_plain [OF o(4)] by (metis Un_iff set_append)
  then have hp: "Hostname u = host" "Port u = tl port"
    using splitHostPort_plain [of host port] by (simp_all add: Hostname_def Port_def)
  have "list_all (\<lambda>c. \<not> high c) host" using assms(2) raw o(1) h(1) by auto
  then have "map lower host = ao_host a" using a(3) hp EqualFold_ascii names by simp
  moreover have "\<exists>tail \<in> {[], ''?'', ''#'', ''?#''}. origin = sch @ ''://'' @ host @ port @ tail"
    using raw o(1,2) h(1) by auto
  ultimately show ?thesis
    unfolding listed_origin_def using a(1,2,4) o(3) h(2) hp by metis
qed


lemma port_chars:
  assumes "validOptionalPort port" and "c \<in> set port"
  shows "host_char c \<and> \<not> is_control c \<and> c \<notin> set ''/?#@[%''"
proof -
  have "c = CHR '':'' \<or> is_digit c" using assms by (cases port) (auto simp: validOptionalPort_def list_all_iff)
  then show ?thesis by (auto simp: host_char_def is_digit_def less_eq_char_def is_control_def)
qed

lemma host_port_chars:
  assumes "list_all simple host" and "validOptionalPort port" and "c \<in> set (host @ port)"
  shows "host_char c \<and> \<not> is_control c \<and> c \<notin> set ''/?#@[%''"
proof (cases "c \<in> set host")
  case True
  then have "simple c" using assms(1) by (simp add: list_all_iff)
  then show ?thesis using simple_char [of c] by simp
next
  case False
  then show ?thesis using port_chars [OF assms(2), of c] assms(3) by simp
qed

lemma parseHost_listed:
  assumes "list_all simple host" and "validOptionalPort port"
  shows "parseHost ip (host @ port) = Some (host @ port)"
proof -
  have chars: "host_char c" "c \<noteq> CHR ''[''" "c \<noteq> CHR ''%''" if "c \<in> set (host @ port)" for c
    using host_port_chars [OF assms that] by simp_all
  have "CHR '':'' \<notin> set host" using assms(1) simple_char(3) by (auto simp: list_all_iff)
  then have "Cut (host @ port) (CHR '':'') = (host, tl port, port \<noteq> [])"
    using assms(2) Cut_append [of "CHR '':''" host] Cut_absent [of "CHR '':''" host]
    by (cases port) (auto simp: validOptionalPort_def)
  moreover have "unescape_host (host @ port) = Some (host @ port)"
    using chars by (subst unescape_host_plain) (auto simp: list_all_iff)
  moreover have "CHR ''['' \<notin> set (host @ port)" using chars(2) by blast
  ultimately show ?thesis using assms(2) by (cases port) (simp_all add: parseHost_def validOptionalPort_def)
qed

lemma parse_body_listed:
  assumes "list_all is_letter sch" and "sch \<noteq> []" and "list_all simple host" and "validOptionalPort port"
    and "q = [] \<or> q = ''?''"
  shows "parse_body ip (sch @ ''://'' @ host @ port @ q) =
    Some \<lparr>Scheme = map lower sch, Opaque = [], User = False, Host = host @ port, Path = [], RawQuery = [], Fragment = []\<rparr>"
proof -
  let ?raw = "sch @ ''://'' @ host @ port @ q"
  have letter: "\<not> is_control c" "scheme_char c" if "is_letter c" for c
    using that by (auto simp: is_letter_def is_control_def scheme_char_def Let_def)
  have chars: "\<not> is_control c" "c \<notin> set ''/?#@''" if "c \<in> set (host @ port)" for c
    using host_port_chars [OF assms(3,4) that] by simp_all
  have "c \<in> set ?raw \<Longrightarrow> \<not> is_control c" for c
    using assms(1,5) letter(1) chars(1) by (auto simp: list_all_iff is_control_def)
  then have ctl: "\<not> list_ex is_control ?raw" by (auto simp: list_ex_iff)
  have "list_all scheme_char sch" "is_letter (hd sch)" using assms(1,2) letter(2) by (auto simp: list_all_iff)
  then have sch: "getScheme ?raw = Some (sch, ''//'' @ host @ port @ q)"
    using scheme_loop_run [of sch "[]" ?raw] assms(2) by (simp add: getScheme_def)
  have "CHR ''?'' \<notin> set (''//'' @ host @ port)" using chars(2) by auto
  then have "split_query (''//'' @ host @ port @ q) = (''//'' @ host @ port, [])"
    using assms(5) by (subst split_query_no_query) auto
  moreover have "Cut (drop 2 (''//'' @ host @ port)) (CHR ''/'') = (host @ port, [], False)"
    using chars(2) by (simp, intro Cut_absent) auto
  moreover have "parseAuthority ip (host @ port) = Some (False, host @ port)"
    using chars(2) parseHost_listed [OF assms(3,4)] CutLast_None [of "host @ port" "CHR ''@''"]
    by (auto simp: parseAuthority_def)
  moreover have "?raw \<noteq> ''*''" using assms(2) by (cases sch) auto
  ultimately show ?thesis
    using ctl sch assms(2) by (simp add: parse_body_def Let_def unescape_path_def)
qed

lemma listed_allowed:
  assumes "listed_origin origin"
  shows "isAllowedOrigin ip origin"
proof -
  obtain a sch host port tail where a: "a \<in> set allowedOrigins" and o: "origin = sch @ ''://'' @ host @ port @ tail"
    and n: "map lower sch = ao_scheme a" "map lower host = ao_host a" "validOptionalPort port"
      "ao_anyPort a \<or> tl port = []" and t: "tail \<in> {[], ''?'', ''#'', ''?#''}"
    using assms unfolding listed_origin_def by blast
  note names = allowed_names [OF a]
  have sch: "list_all is_letter sch" "sch \<noteq> []" using map_lower_letter [OF _ n(1)] names n(1) by auto
  have host: "list_all simple host" using map_lower_simple [OF _ n(2)] names by simp
  define q where "q = takeWhile (\<lambda>c. c \<noteq> CHR ''#'') tail"
  define f where "f = dropWhile (\<lambda>c. c \<noteq> CHR ''#'') tail"
  have q: "tail = q @ f" "q = [] \<or> q = ''?''" "f = [] \<or> f = ''#''" using t by (auto simp: q_def f_def)
  let ?raw = "sch @ ''://'' @ host @ port @ q"
  have "CHR ''#'' \<notin> set ?raw"
    using sch(1) host_port_chars [OF host n(3), of "CHR ''#''"] q(2) by (auto simp: list_all_iff is_letter_def)
  then have "\<exists>b. Cut origin (CHR ''#'') = (?raw, [], b)"
    using q(3) Cut_append [of "CHR ''#''" ?raw "[]"] Cut_absent [of "CHR ''#''" ?raw] by (auto simp: o q(1))
  then have url: "url_Parse ip origin =
      Some \<lparr>Scheme = map lower sch, Opaque = [], User = False, Host = host @ port, Path = [], RawQuery = [], Fragment = []\<rparr>"
    using parse_body_listed [OF sch host n(3) q(2)] by (auto simp: url_Parse_def)
  have "CHR ''['' \<notin> set host" "CHR '':'' \<notin> set host" using host simple_char(3) by (auto simp: list_all_iff)
  then have hp: "splitHostPort (host @ port) = (host, tl port)" using splitHostPort_plain n(3) by blast
  have "list_all (\<lambda>c. \<not> high c) host"
    using host by (auto simp: list_all_iff simple_def high_def is_letter_def Let_def)
  then have "EqualFold host (ao_host a)" using EqualFold_ascii n(2) names by simp
  moreover have "origin \<noteq> []" using sch(2) o by simp
  ultimately show ?thesis
    using a n(1,4) by (auto simp: isAllowedOrigin_def url Hostname_def Port_def hp origin_loop_iff)
qed

section \<open>The middleware\<close>

text \<open>
  A request as the middleware sees it, and what it does: the headers it adds, and whether it
  answers a preflight itself or calls the next handler.
\<close>

record cors_result =
  cr_headers :: "(string \<times> string) list"
  cr_status :: "nat option"

definition corsMiddleware :: "(string \<Rightarrow> string option) \<Rightarrow> string \<Rightarrow> string \<Rightarrow> cors_result" where
  "corsMiddleware ip_literal origin meth =
     \<lparr>cr_headers =
        (if isAllowedOrigin ip_literal origin then
           [(''Access-Control-Allow-Origin'', origin),
            (''Access-Control-Allow-Methods'', ''GET, POST, PUT, DELETE, OPTIONS, PATCH''),
            (''Access-Control-Allow-Headers'', ''Accept, Authorization, Content-Type, X-API-Key''),
            (''Access-Control-Max-Age'', ''86400'')]
         else []),
      cr_status = (if meth = ''OPTIONS'' then Some 204 else None)\<rparr>"




text \<open>
  Remark. The comparison of the host is not exact on other bytes: the long s counts as an s, so
  the origin with host \<open>localho\<close>, long s, \<open>t\<close> is allowed, and echoed in the response.
\<close>

theorem long_s_origin_allowed:
  "isAllowedOrigin (\<lambda>_. None) (''http://localho'' @ [CHR 0xC5, CHR 0xBF] @ ''t'')"
  by code_simp

end
