(* ===== verification/Rest_Api.thy ===== *)
theory Rest_Api
  imports Daemon Identity Event_Stream Origin
begin

text \<open>
  The REST API: the handlers of \<open>internal/api/handlers/handlers.go\<close> and the routes of
  \<open>internal/api/api.go\<close>. The decoding of a request body is a parameter, given as its outcome; so is
  the text of an error. The lemmas show that the status a caller gets says what happened to the
  registry, the outbound queue and the disk.
\<close>

section \<open>Responses\<close>

record response =
  re_status :: nat
  re_headers :: "(string \<times> string) list"
  re_body :: string

definition writeJSON :: "nat \<Rightarrow> string \<Rightarrow> response" where
  "writeJSON status v =
     \<lparr>re_status = status, re_headers = [(''Content-Type'', ''application/json'')], re_body = v @ [newline]\<rparr>"

text \<open>The keys of a map are sorted.\<close>

definition writeError :: "nat \<Rightarrow> string \<Rightarrow> string \<Rightarrow> response" where
  "writeError status msg err = writeJSON status (object [(''details'', quote err), (''error'', quote msg)])"

definition HandleVersion :: "string \<Rightarrow> response" where
  "HandleVersion version = writeJSON 200 (object [(''version'', quote version)])"

definition HandleHealth :: response where
  "HandleHealth = \<lparr>re_status = 200, re_headers = [], re_body = []\<rparr>"

section \<open>Identity and status\<close>

text \<open>The text of a stored credential, and of the errors of the keystore.\<close>

record texts =
  tx_time :: "time \<Rightarrow> string"
  tx_keystore :: "keystore_error \<Rightarrow> string"
  tx_prov :: "prov_error \<Rightarrow> string"
  tx_daemon :: "daemon_error \<Rightarrow> string"

definition stored_text :: "texts \<Rightarrow> content \<Rightarrow> string" where
  "stored_text tx c = (case c of Text s \<Rightarrow> s | RFC3339Nano t \<Rightarrow> tx_time tx t)"

definition HandleIdentity ::
  "(string \<Rightarrow> (string \<times> claim) list \<Rightarrow> string \<Rightarrow> (string, string) result) \<Rightarrow> time \<Rightarrow> osenv \<Rightarrow> texts \<Rightarrow>
     IdentityService \<Rightarrow> FS \<Rightarrow> response \<times> FS" where
  "HandleIdentity sign now en tx ident fs =
     (case ProvisioningPrivateKey en fs of
        (Inl e, fs) \<Rightarrow> (writeError 500 ''cannot load provisioning key'' (tx_keystore tx e), fs)
      | (Inr privKey, fs) \<Rightarrow>
     (case BoardToken sign now ident privKey of
        Inl e \<Rightarrow> (writeError 500 ''cannot generate board token'' e, fs)
      | Inr token \<Rightarrow>
     (case ProvisioningPublicKeyPEM en fs of
        (Inl e, fs) \<Rightarrow> (writeError 500 ''cannot load public key'' (tx_keystore tx e), fs)
      | (Inr pem, fs) \<Rightarrow>
          (writeJSON 200 (object [(''board_token'', quote token), (''public_key_pem'', quote (stored_text tx pem)),
                                  (''uhwid'', quote (UHWID ident))]), fs))))"

definition prov_state_text :: "ProvState \<Rightarrow> string" where
  "prov_state_text st =
     (case st of ProvStateUnprovisioned \<Rightarrow> ''unprovisioned'' | ProvStateProvisioning \<Rightarrow> ''provisioning''
      | ProvStateProvisioned \<Rightarrow> ''provisioned'' | ProvStateError \<Rightarrow> ''error'')"

definition daemon_state_text :: "DaemonState \<Rightarrow> string" where
  "daemon_state_text st =
     (case st of StateCheckInternet \<Rightarrow> ''CheckInternet'' | StateProvisioning \<Rightarrow> ''Provisioning'' | StateRun \<Rightarrow> ''Run'')"

definition cloud_state_text :: "State \<Rightarrow> string" where
  "cloud_state_text st =
     (case st of StateNone \<Rightarrow> [] | StateDisconnected \<Rightarrow> ''Disconnected'' | StateReconnecting \<Rightarrow> ''Reconnecting''
      | StateConnecting \<Rightarrow> ''Connecting'' | StateAnnouncingDevice \<Rightarrow> ''AnnouncingDevice''
      | StateAwaitingThingID \<Rightarrow> ''AwaitingThingID'' | StateSyncingLastValues \<Rightarrow> ''SyncingLastValues''
      | StateSteady \<Rightarrow> ''Steady'')"

record cloudStatus =
  cs_State :: State
  cs_ThingID :: string

record statusResponse =
  sr_Provisioning :: ProvState
  sr_Daemon :: DaemonState
  sr_Cloud :: "cloudStatus option"
  sr_DeviceID :: string
  sr_OrganizationID :: string

definition omitempty :: "string \<Rightarrow> string \<Rightarrow> (string \<times> string) list" where
  "omitempty key v = (if v = [] then [] else [(key, quote v)])"

definition cloud_json :: "cloudStatus \<Rightarrow> string" where
  "cloud_json c = object ([(''state'', quote (cloud_state_text (cs_State c)))] @ omitempty ''thing_id'' (cs_ThingID c))"

definition status_json :: "statusResponse \<Rightarrow> string" where
  "status_json r =
     object ([(''provisioning'', quote (prov_state_text (sr_Provisioning r))),
              (''daemon'', quote (daemon_state_text (sr_Daemon r)))] @
             (case sr_Cloud r of None \<Rightarrow> [] | Some c \<Rightarrow> [(''cloud'', cloud_json c)]) @
             omitempty ''device_id'' (sr_DeviceID r) @ omitempty ''organization_id'' (sr_OrganizationID r))"

definition status_of :: "osenv \<Rightarrow> time \<Rightarrow> texts \<Rightarrow> Daemon \<Rightarrow> statusResponse \<times> Service" where
  "status_of en now tx d =
     (let snap = Snapshot_daemon d
      in case ProvState_of en now (d_svc d) of
           (st, svc) \<Rightarrow>
     (case DeviceID en (svc_fs svc) of
        (dev, fs) \<Rightarrow>
     (case OrganizationID en fs of
        (orgID, fs) \<Rightarrow>
          (\<lparr>sr_Provisioning = st, sr_Daemon = ds_State snap,
            sr_Cloud = map_option (\<lambda>c. \<lparr>cs_State = snap_State c, cs_ThingID = snap_ThingID c\<rparr>) (ds_Cloud snap),
            sr_DeviceID = (case dev of Inl _ \<Rightarrow> [] | Inr c \<Rightarrow> stored_text tx c),
            sr_OrganizationID = (case orgID of Inl _ \<Rightarrow> [] | Inr c \<Rightarrow> stored_text tx c)\<rparr>, set_fs svc fs))))"

definition HandleStatus :: "osenv \<Rightarrow> time \<Rightarrow> texts \<Rightarrow> Daemon \<Rightarrow> response \<times> Service" where
  "HandleStatus en now tx d =
     (case status_of en now tx d of (r, svc) \<Rightarrow> (writeJSON 200 (status_json r), svc))"

section \<open>Provisioning\<close>

text \<open>The outcome of decoding a request body.\<close>

datatype 'a decoded = Decoded 'a | DecodeEOF | DecodeError string

text \<open>\<open>reprovision\<close> is what \<open>d.Reprovision\<close> returned for an organization.\<close>

definition HandleProvisioningStart ::
  "texts \<Rightarrow> string decoded \<Rightarrow> (string \<Rightarrow> (daemon_error, prov_error option) result) \<Rightarrow> response" where
  "HandleProvisioningStart tx body reprovision =
     (let proceed = (\<lambda>organizationID.
            case reprovision organizationID of
              Inr None \<Rightarrow> writeJSON 202 (object [(''status'', quote ''accepted'')])
            | Inl e \<Rightarrow> if e = ErrBusy then writeError 409 ''provisioning already in progress'' (tx_daemon tx e)
                       else writeError 500 ''provisioning prelude failed'' (tx_daemon tx e)
            | Inr (Some e) \<Rightarrow> writeError 500 ''provisioning prelude failed'' (tx_prov tx e))
      in case body of
           DecodeError e \<Rightarrow> writeError 400 ''invalid request body'' e
         | DecodeEOF \<Rightarrow> proceed []
         | Decoded organizationID \<Rightarrow> proceed organizationID)"

section \<open>Variables\<close>

definition clientIDHeader :: string where
  "clientIDHeader = ''X-App-Client-ID''"

definition maxClientIDLen :: nat where
  "maxClientIDLen = 128"

text \<open>\<open>header\<close> is \<open>r.Header.Get\<close>, empty for a header that was not sent.\<close>

definition clientID :: "(string \<Rightarrow> string) \<Rightarrow> string" where
  "clientID header = (if maxClientIDLen < length (header clientIDHeader) then [] else header clientIDHeader)"

text \<open>
  The handler up to the \<open>select\<close> of \<open>EnqueueVariable\<close>, and its answer: \<open>cancelled\<close> says which case
  the \<open>select\<close> takes once the value is stamped.
\<close>

definition HandleVariableSend ::
  "texts \<Rightarrow> DaemonSnapshot \<Rightarrow> time \<Rightarrow> string \<Rightarrow> (string \<Rightarrow> string) \<Rightarrow> any decoded \<Rightarrow> bool \<Rightarrow> Outbound \<Rightarrow>
     (response \<times> Outbound) option" where
  "HandleVariableSend tx snap ts name header body cancelled st =
     (case body of
        DecodeError e \<Rightarrow> Some (writeError 400 ''invalid request body'' e, st)
      | DecodeEOF \<Rightarrow> Some (writeError 400 ''invalid request body'' ''EOF'', st)
      | Decoded val \<Rightarrow>
     (case EnqueueVariable snap ts name val (clientID header) st of
        Inl e \<Rightarrow>
          Some (if e = ErrThingUnavailable then writeError 409 ''thing_unavailable'' (tx_daemon tx e)
                else writeError 503 ''could not queue value'' (tx_daemon tx e), st)
      | Inr st \<Rightarrow>
          let ov = last (ob_senders st)
          in if cancelled then
               map_option (\<lambda>(e, st). (writeError 503 ''could not queue value'' (tx_daemon tx e), st)) (cancel_case ov st)
             else map_option (\<lambda>st. (\<lparr>re_status = 204, re_headers = [], re_body = []\<rparr>, st)) (send_case ov st)))"

text \<open>
  The event stream: the subscription at its start, the response, and the end of the subscription
  when the handler returns.
\<close>

definition events_start :: "(string \<Rightarrow> string) \<Rightarrow> DaemonSnapshot \<Rightarrow> string \<Rightarrow> Registry \<Rightarrow> UpdateEvent \<times> nat \<times> Registry" where
  "events_start header snap name reg = Subscribe reg name (clientID header) (CloudSteady snap)"

definition HandleVariableEvents ::
  "json_format \<Rightarrow> bool \<Rightarrow> string \<Rightarrow> UpdateEvent \<Rightarrow> nat option \<Rightarrow> (UpdateEvent \<times> nat option) list \<Rightarrow> response" where
  "HandleVariableEvents jf flusher name first outcome evts =
     (if \<not> flusher then writeError 500 ''streaming unsupported'' ''response writer is not a flusher''
      else \<lparr>re_status = 200,
            re_headers = [(''Content-Type'', ''text/event-stream''), (''Cache-Control'', ''no-cache''),
                          (''Connection'', ''keep-alive'')],
            re_body = stream_body jf name first outcome evts\<rparr>)"

definition events_end :: "string \<Rightarrow> nat \<Rightarrow> Registry \<Rightarrow> Registry" where
  "events_end name i reg = Unsubscribe reg name i"

section \<open>Routes\<close>

datatype endpoint =
    EpVersion | EpHealth | EpIdentity | EpStatus | EpProvisioningStart
  | EpVariableSend string | EpVariableEvents string

text \<open>
  A path is given by its segments; a variable's name is one non-empty segment. A pattern for GET
  matches HEAD too.
\<close>

definition get_pattern :: "string \<Rightarrow> bool" where
  "get_pattern meth \<longleftrightarrow> meth = ''GET'' \<or> meth = ''HEAD''"

fun NewRouter :: "string \<Rightarrow> string list \<Rightarrow> endpoint option" where
  "NewRouter meth [v, a] =
     (if v \<noteq> ''v1'' \<or> \<not> get_pattern meth then None
      else if a = ''version'' then Some EpVersion
      else if a = ''health'' then Some EpHealth
      else if a = ''identity'' then Some EpIdentity
      else if a = ''status'' then Some EpStatus
      else None)"
| "NewRouter meth [v, a, b] =
     (if v \<noteq> ''v1'' then None
      else if meth = ''POST'' \<and> a = ''provisioning'' \<and> b = ''start'' then Some EpProvisioningStart
      else if meth = ''PUT'' \<and> a = ''variables'' \<and> b \<noteq> [] then Some (EpVariableSend b)
      else None)"
| "NewRouter meth [v, a, b, c] =
     (if v = ''v1'' \<and> get_pattern meth \<and> a = ''variables'' \<and> b \<noteq> [] \<and> c = ''events'' then Some (EpVariableEvents b)
      else None)"
| "NewRouter meth _ = None"


section \<open>Properties\<close>

lemma statuses [simp]:
  "re_status (writeJSON n v) = n" "re_status (writeError n m e) = n"
  by (simp_all add: writeError_def writeJSON_def)

text \<open>
  C31. The answer to a value says what became of it: 204 exactly when the value, with its name, time
  and the caller's id, has entered the outbound queue; 400 exactly when the body could not be
  decoded, 409 exactly when it could but the cloud is not steady; and with any status but 204 the
  queue and the waiting senders are as they were.
\<close>

theorem send_status_truthful:
  assumes "HandleVariableSend tx snap ts name header body cancelled st = Some (r, st')"
  shows "(re_status r = 204 \<longleftrightarrow> (\<exists>val s. body = Decoded val \<and>
      ob_accepted st' = ob_accepted st @ [\<lparr>ov_name = name, ov_value = val, ov_ts = ts, ov_seq = s, ov_clientID = clientID header\<rparr>])) \<and>
    (re_status r = 400 \<longleftrightarrow> (\<forall>val. body \<noteq> Decoded val)) \<and>
    (re_status r = 409 \<longleftrightarrow> (\<exists>val. body = Decoded val) \<and> \<not> CloudSteady snap) \<and>
    (re_status r \<noteq> 204 \<longrightarrow> re_status r \<in> {400, 409, 503} \<and> ob_accepted st' = ob_accepted st \<and> ob_chan st' = ob_chan st \<and>
       mset (ob_senders st') = mset (ob_senders st))"
proof (cases body)
  case (Decoded val)
  show ?thesis
  proof (cases "CloudSteady snap")
    case False
    then show ?thesis using assms Decoded by (auto simp: HandleVariableSend_def EnqueueVariable_def)
  next
    case True
    show ?thesis
    proof (cases cancelled)
      case c: True
      then show ?thesis using assms Decoded True
        by (auto simp: HandleVariableSend_def EnqueueVariable_def cancel_case_def Let_def)
    next
      case c: False
      then show ?thesis using assms Decoded True
        by (auto simp: HandleVariableSend_def EnqueueVariable_def send_case_def Let_def split: if_splits)
    qed
  qed
qed (use assms in \<open>auto simp: HandleVariableSend_def\<close>)


text \<open>
  Remark. The status is read-only and agrees with the disk and the machine: on a disk without faults it
  changes no file, reports \<open>provisioned\<close> exactly when no failed activation is remembered, no
  marker is there and both credentials are, and gives the stored device id; the cloud part is there
  exactly when a cloud connection is, with the state and the thing of its snapshot.
\<close>

theorem status_truthful:
  assumes "status_of en now tx d = (r, svc)" and "\<forall>n. os_fault en n = None" and "daemon_shape d"
  shows "fs_files (svc_fs svc) = d_disk d \<and> fs_hist (svc_fs svc) = fs_hist (d_fs d) \<and>
    (sr_Provisioning r = ProvStateProvisioned \<longleftrightarrow> svc_completeFailed (d_svc d) = None \<and> looks_provisioned (d_disk d)) \<and>
    sr_DeviceID r = (case d_disk d fileDeviceID of None \<Rightarrow> [] | Some f \<Rightarrow> stored_text tx (f_data f)) \<and>
    sr_Daemon r = d_state d \<and>
    sr_Cloud r = map_option (\<lambda>f. \<lparr>cs_State = snap_State (f_snapshot f), cs_ThingID = snap_ThingID (f_snapshot f)\<rparr>) (d_cloud d)"
proof -
  have nf: "\<not> faulty en fs" for fs using assms(2) by (simp add: faulty_def)
  obtain st svc1 where p: "ProvState_of en now (d_svc d) = (st, svc1)" by fastforce
  have files: "fs_files (svc_fs svc1) = d_disk d" "fs_hist (svc_fs svc1) = fs_hist (d_fs d)"
    using p nf
    by (auto simp: ProvState_of_def markerTimestamp_def os_ReadFile_def IsProvisioned_def os_Stat_def set_fs_def tick_def
        split: if_splits option.splits content.splits)
  have st: "st = ProvStateProvisioned \<longleftrightarrow> svc_completeFailed (d_svc d) = None \<and> looks_provisioned (d_disk d)"
    using p nf
    by (auto simp: ProvState_of_def markerTimestamp_def os_ReadFile_def IsProvisioned_def os_Stat_def tick_def
        looks_provisioned_def split: if_splits option.splits content.splits)
  have snap: "ds_State (Snapshot_daemon d) = d_state d" "ds_Cloud (Snapshot_daemon d) = map_option f_snapshot (d_cloud d)"
    using assms(3) by (auto simp: Snapshot_daemon_def daemon_shape_def split: option.splits)
  show ?thesis
    using assms(1) p files st snap nf
    by (auto simp: status_of_def DeviceID_def OrganizationID_def read_credential_def os_ReadFile_def set_fs_def tick_def
        option.map_comp comp_def split: option.splits)
qed


definition no_texts :: texts where
  "no_texts = \<lparr>tx_time = (\<lambda>_. []), tx_keystore = (\<lambda>_. []), tx_prov = (\<lambda>_. []), tx_daemon = (\<lambda>_. [])\<rparr>"

definition steady_snapshot :: DaemonSnapshot where
  "steady_snapshot = \<lparr>ds_State = StateRun, ds_Cloud = Some \<lparr>snap_State = StateSteady, snap_ThingID = ''thing''\<rparr>\<rparr>"

definition empty_outbound :: Outbound where
  "empty_outbound = \<lparr>ob_now = 5, ob_seq = 0, ob_senders = [], ob_chan = [], ob_pending = [], ob_reg = NewRegistry,
     ob_accepted = [], ob_done = [], ob_sent = []\<rparr>"

theorem send_status_truthful_witness:
  "\<exists>r st. HandleVariableSend no_texts steady_snapshot 5 ''temp'' (\<lambda>_. ''app'') (Decoded (ABool True)) False empty_outbound =
     Some (r, st) \<and> re_status r = 204 \<and> length (ob_accepted st) = 1"
proof -
  obtain r st where h: "HandleVariableSend no_texts steady_snapshot 5 ''temp'' (\<lambda>_. ''app'') (Decoded (ABool True)) False
      empty_outbound = Some (r, st)" and "re_status r = 204"
    by (simp add: HandleVariableSend_def EnqueueVariable_def CloudSteady_def steady_snapshot_def empty_outbound_def
        send_case_def outboundQueueSize_def Let_def)
  moreover from this have "\<exists>ov. ob_accepted st = ob_accepted empty_outbound @ [ov]"
    using send_status_truthful [OF h] by blast
  ultimately show ?thesis by (auto simp: empty_outbound_def)
qed


theorem status_truthful_witness:
  "\<exists>r svc. status_of calm 0 no_texts (New_daemon NewRegistry old_board) = (r, svc) \<and>
     sr_Provisioning r = ProvStateProvisioned \<and> sr_DeviceID r = ''id'' \<and> sr_Cloud r = None"
proof -
  let ?d = "New_daemon NewRegistry old_board"
  obtain r svc where s: "status_of calm 0 no_texts ?d = (r, svc)" by fastforce
  have nf: "\<forall>n. os_fault calm n = None" by (simp add: calm_def)
  have shape: "daemon_shape ?d" by (simp add: daemon_shape_def New_daemon_def)
  have "svc_completeFailed (d_svc ?d) = None" "d_cloud ?d = None"
    by (simp_all add: New_daemon_def old_board_def)
  moreover have "looks_provisioned (d_disk ?d)"
    by (simp add: New_daemon_def old_board_def looks_provisioned_def markerFile_def file_names)
  moreover have "d_disk ?d fileDeviceID = Some \<lparr>f_data = Text ''id'', f_mode = mode_0644\<rparr>"
    by (simp add: New_daemon_def old_board_def file_names)
  ultimately show ?thesis
    using s status_truthful [OF s nf shape] by (simp add: stored_text_def)
qed

section \<open>Streams are cleaned up\<close>

text \<open>The other users of the registry do not unsubscribe this stream.\<close>

definition others_step :: "nat \<Rightarrow> Registry \<Rightarrow> reg_op \<Rightarrow> Registry \<Rightarrow> bool" where
  "others_step i r oper r' \<longleftrightarrow> reg_step r oper r' \<and> (\<forall>n. oper \<noteq> OpUnsubscribe n i)"

lemma listeners_of_Subscribe:
  "listeners_of (snd (snd (Subscribe r n c steady))) = (listeners_of r)(n := listeners_of r n @ [reg_next r])"
  by (simp add: Subscribe_alt Let_def)

lemma listeners_of_ApplyLastValues: "listeners_of (ApplyLastValues now r vs) = listeners_of r"
  by (simp add: ApplyLastValues_def Let_def)

lemma listener_kept: "others_step i r oper r' \<Longrightarrow> i \<in> set (listeners_of r n) \<Longrightarrow> i \<in> set (listeners_of r' n)"
proof -
  assume o: "others_step i r oper r'" and l: "i \<in> set (listeners_of r n)"
  from o have "reg_step r oper r'" by (simp add: others_step_def)
  then show "i \<in> set (listeners_of r' n)"
  proof cases
    case (reg_unsubscribe j m)
    then have "j \<noteq> i" using o by (auto simp: others_step_def)
    then show ?thesis using l reg_unsubscribe by (auto simp: Unsubscribe_def Let_def listeners_of_update)
  qed (use l in \<open>auto simp: listeners_of_Subscribe listeners_of_ApplyLastValues\<close>)
qed

text \<open>
  Remark. An event stream leaves nothing behind: from the subscription at its start, through anything
  the other users of the registry do, to the return of the handler, the registry stays well formed;
  afterwards the subscription is in no listener list and is stopped, so nothing is enqueued for it
  any more, and its client id was never longer than 128 bytes.
\<close>

theorem events_no_leak:
  assumes "wf_registry reg" and "events_start header snap name reg = (first, i, r1)"
    and "reach (\<lambda>r. r = r1) (others_step i) r2"
  shows "wf_registry (events_end name i r2) \<and> (\<forall>n. i \<notin> set (listeners_of (events_end name i r2) n)) \<and>
    (\<exists>s. reg_subs (events_end name i r2) i = Some s \<and> sub_closed s) \<and> length (clientID header) \<le> 128"
proof -
  have r1: "r1 = snd (snd (Subscribe reg name (clientID header) (CloudSteady snap)))" "i = reg_next reg"
    using assms(2) by (auto simp: events_start_def Subscribe_alt Let_def split: if_splits)
  have "wf_registry r2 \<and> i \<in> set (listeners_of r2 name)"
    using assms(3)
  proof (induction rule: reach.induct)
    case (reach_init s)
    then show ?case using r1 wf_Subscribe [OF assms(1)] by (simp add: listeners_of_Subscribe)
  next
    case (reach_step s l t)
    then show ?case using listener_kept wf_reg_step by (auto simp: others_step_def)
  qed
  then have wf: "wf_registry r2" and l: "i \<in> set (listeners_of r2 name)" by simp_all
  then have own: "m = name" if "i \<in> set (listeners_of r2 m)" for m using that wf_unique by metis
  obtain s where s: "reg_subs r2 i = Some s" using wf l unfolding wf_registry_def by blast
  then have "reg_subs (events_end name i r2) i = Some (stop s)" by (simp add: events_end_def Unsubscribe_def Let_def)
  moreover have "sub_closed (stop s)" by (simp add: stop_def)
  ultimately show ?thesis
    using wf_Unsubscribe [OF wf own, of i] by (auto simp: events_end_def clientID_def maxClientIDLen_def)
qed

theorem events_no_leak_witness:
  "\<exists>first i r1. events_start (\<lambda>_. ''app'') steady_snapshot ''temp'' NewRegistry = (first, i, r1) \<and>
     wf_registry (events_end ''temp'' i r1)"
proof -
  obtain first i r1 where s: "events_start (\<lambda>_. ''app'') steady_snapshot ''temp'' NewRegistry = (first, i, r1)"
    by (metis prod.exhaust)
  have "reach (\<lambda>r. r = r1) (others_step i) r1" by (rule reach_init) simp
  from events_no_leak [OF wf_NewRegistry s this] s show ?thesis by blast
qed

end
