(* ===== verification/Delivery.thy ===== *)
theory Delivery
  imports Rest_Api
begin

text \<open>
  The way of a value through the components: from the PUT handler into the outbound queue, through
  the worker into the registry, from there into the queues of the subscribers and out of their event
  streams. The lemmas follow one subscription through a run of the worker, and one value through the
  handler.
\<close>

section \<open>What a subscriber is sent\<close>

text \<open>A value is for a subscriber of its variable that is not the app it came from.\<close>

definition addressed :: "Registry \<Rightarrow> nat \<Rightarrow> string \<Rightarrow> outboundValue \<Rightarrow> bool" where
  "addressed r i client ov \<longleftrightarrow>
     i \<in> set (listeners_of r (ov_name ov)) \<and> \<not> (ov_clientID ov \<noteq> [] \<and> client = ov_clientID ov)"

definition event_content :: "UpdateEvent \<Rightarrow> string \<times> any \<times> EventKind" where
  "event_content e = (ev_Name e, ev_Value e, ev_Kind e)"

definition value_content :: "outboundValue \<Rightarrow> string \<times> any \<times> EventKind" where
  "value_content ov = (ov_name ov, ov_value ov, EventUpdate)"

text \<open>
  The queue of a subscription after a run that stored the values \<open>new\<close>: the update events of those
  addressed to it, in the order they were stored.
\<close>

definition follows :: "Registry \<Rightarrow> nat \<Rightarrow> outboundValue list \<Rightarrow> Subscription \<Rightarrow> Subscription \<Rightarrow> bool" where
  "follows r i new s s' \<longleftrightarrow> sub_clientID s' = sub_clientID s \<and>
     (\<exists>evs. sub_queue s' = sub_queue s @ evs \<and>
        map event_content evs = map value_content (filter (addressed r i (sub_clientID s)) new))"

lemma follows_refl: "follows r i [] s s"
  by (simp add: follows_def)

lemma follows_SetValue:
  assumes "wf_registry r" and "listeners_of r = listeners_of r0" and "reg_subs r i = Some s'" and "follows r0 i new s s'"
  shows "\<exists>s''. reg_subs (SetValue now r (ov_name ov) (ov_value ov) (ov_ts ov) (ov_clientID ov)) i = Some s'' \<and>
    follows r0 i (new @ [ov]) s s''"
proof -
  obtain evs where e: "sub_clientID s' = sub_clientID s" "sub_queue s' = sub_queue s @ evs"
      "map event_content evs = map value_content (filter (addressed r0 i (sub_clientID s)) new)"
    using assms(4) by (auto simp: follows_def)
  show ?thesis
  proof (cases "addressed r0 i (sub_clientID s) ov")
    case True
    then show ?thesis using e assms(2,3)
      by (auto simp: SetValue_sub [OF assms(1)] follows_def addressed_def set_effect_def enqueue_alt event_content_def value_content_def)
  next
    case False
    then show ?thesis using e assms(2,3)
      by (auto simp: SetValue_sub [OF assms(1)] follows_def addressed_def set_effect_def)
  qed
qed

lemma worker_run_follows:
  assumes "worker_run m a b" and "wf_registry (ob_reg a)"
  shows "wf_registry (ob_reg b) \<and> listeners_of (ob_reg b) = listeners_of (ob_reg a) \<and>
    (\<exists>new. ob_done b = ob_done a @ new \<and>
       (\<forall>i s. reg_subs (ob_reg a) i = Some s \<longrightarrow> (\<exists>s'. reg_subs (ob_reg b) i = Some s' \<and> follows (ob_reg a) i new s s')))"
  using assms
proof (induction rule: worker_run.induct)
  case (worker_refl st)
  then show ?case using follows_refl by (metis append_Nil2)
next
  case (worker_step st b l c)
  obtain new where new: "ob_done b = ob_done st @ new"
      "\<And>i s. reg_subs (ob_reg st) i = Some s \<Longrightarrow> \<exists>s'. reg_subs (ob_reg b) i = Some s' \<and> follows (ob_reg st) i new s s'"
    and wf: "wf_registry (ob_reg b)" "listeners_of (ob_reg b) = listeners_of (ob_reg st)"
    using worker_step.IH [OF worker_step.prems] by blast
  show ?case
  proof (cases "\<exists>snap. l = Deliver_ov snap")
    case True
    then obtain snap where "deliver m snap b = Some c"
      using worker_step.hyps(2) by (auto elim: ob_step.cases)
    then obtain ov where d: "ob_done c = ob_done b @ [ov]"
        "ob_reg c = SetValue (ob_now b) (ob_reg b) (ov_name ov) (ov_value ov) (ov_ts ov) (ov_clientID ov)"
      by (rule deliver_elim)
    have "\<exists>s''. reg_subs (ob_reg c) i = Some s'' \<and> follows (ob_reg st) i (new @ [ov]) s s''"
      if "reg_subs (ob_reg st) i = Some s" for i s
      using follows_SetValue [OF wf] new(2) [OF that] unfolding d(2) by blast
    then show ?thesis using d new(1) wf wf_SetValue [OF wf(1)] by (intro conjI exI [of _ "new @ [ov]"]) simp_all
  next
    case False
    then have "ob_done c = ob_done b" "ob_reg c = ob_reg b"
      using worker_step.hyps(2,3)
      by (auto elim!: ob_step.cases simp: worker_label_def take_case_def split: list.splits)
    then show ?thesis using new wf by auto
  qed
qed

section \<open>What the handler accepts\<close>

lemma HandleVariableSend_accepted:
  assumes "HandleVariableSend tx snap ts name header (Decoded val) cancelled st = Some (r, st1)" and "re_status r = 204"
  obtains st0 ov where "EnqueueVariable snap ts name val (clientID header) st = Inr st0" "send_case ov st0 = Some st1"
    "ov_name ov = name" "ov_value ov = val" "ov_clientID ov = clientID header" "ob_reg st1 = ob_reg st"
    "ob_accepted st1 = ob_accepted st @ [ov]" "ob_done st1 = ob_done st"
proof -
  have steady: "CloudSteady snap" using assms by (auto simp: HandleVariableSend_def EnqueueVariable_def split: if_splits)
  let ?ov = "\<lparr>ov_name = name, ov_value = val, ov_ts = ts, ov_seq = ob_seq st + 1, ov_clientID = clientID header\<rparr>"
  let ?st0 = "st\<lparr>ob_seq := ob_seq st + 1, ob_senders := ob_senders st @ [?ov]\<rparr>"
  have e: "EnqueueVariable snap ts name val (clientID header) st = Inr ?st0" by (simp add: EnqueueVariable_def steady Let_def)
  moreover have s: "send_case ?ov ?st0 = Some st1"
    using assms by (auto simp: HandleVariableSend_def e Let_def split: if_splits)
  moreover from s have "ob_reg st1 = ob_reg st" "ob_accepted st1 = ob_accepted st @ [?ov]" "ob_done st1 = ob_done st"
    by (auto simp: send_case_def split: if_splits)
  ultimately show ?thesis using that by simp
qed

section \<open>What the app reads\<close>

text \<open>The frames of a stream whose writes succeed.\<close>

lemma stream_frames:
  assumes "one_line_format jf" and "written None (first_json jf name first)" and "\<forall>e \<in> set evs. written None (event_json jf e)"
  shows "sse_read (re_body (HandleVariableEvents jf True name first None (map (\<lambda>e. (e, None)) evs))) =
    (kind_text (ev_Kind first), the (first_json jf name first)) # map (event_frame jf) evs"
proof -
  obtain ok out where o: "writeSSE None (kind_text (ev_Kind first)) (first_json jf name first) = (ok, out)" by fastforce
  have sw: "short_write None (kind_text k) d" for k d by (simp add: short_write_def)
  have all: "takeWhile (\<lambda>(e, w). written w (event_json jf e)) (map (\<lambda>e. (e, None)) evs) = map (\<lambda>e. (e, None)) evs"
    using assms(3) by (auto simp: takeWhile_eq_all_conv)
  have "sse_read (events_loop jf (map (\<lambda>e. (e, None)) evs)) =
      map (event_frame jf \<circ> fst) (takeWhile (\<lambda>(e, w). written w (event_json jf e)) (map (\<lambda>e. (e, None)) evs))"
    by (rule sse_read_events [OF assms(1)]) (auto simp: sw)
  then have "sse_read (events_loop jf (map (\<lambda>e. (e, None)) evs)) = map (event_frame jf) evs"
    unfolding all by (simp add: comp_def)
  then show ?thesis
    using sse_read_writeSSE [OF first_json_newline [OF assms(1)] sw o] assms(2) by (simp add: HandleVariableEvents_def stream_body_def o)
qed


section \<open>From app to app\<close>

text \<open>The worker can always empty its queues.\<close>

lemma worker_drains:
  assumes "ob_inv st"
  shows "\<exists>st'. worker_run m st st' \<and> ob_chan st' = [] \<and> ob_pending st' = []"
proof -
  obtain st1 where 1: "worker_run m st st1" "ob_chan st1 = []" using take_all by blast
  then have "ob_inv st1" using worker_run_inv [OF 1(1) assms] by simp
  then obtain st2 where "worker_run m st1 st2" "ob_chan st2 = []" "ob_pending st2 = []" using deliver_all 1(2) by blast
  then show ?thesis using worker_run_trans [OF _ 1(1)] by blast
qed

lemma accepted_inv:
  assumes "ob_inv st" and "EnqueueVariable snap ts name val c st = Inr st0" and "send_case ov st0 = Some st1"
  shows "ob_inv st1"
proof -
  have "ob_inv st0" using assms(1,2) by (auto simp: EnqueueVariable_def ob_inv_def Let_def split: if_splits)
  from ob_inv_step [OF ob_accept [OF assms(3)] this] show ?thesis .
qed

text \<open>A drained worker has stored what was accepted, so the value is among the new ones.\<close>

lemma drained_new:
  assumes "worker_run m st st'" and "ob_inv st" and "ob_chan st' = []" and "ob_pending st' = []"
    and "ob_done st' = ob_done st @ new" and "ov \<in> set (ob_chan st)"
  shows "ov \<in> set new"
proof -
  have "mset (ob_accepted st) = mset (ob_done st')"
    using worker_run_inv [OF assms(1,2)] assms(3,4) by (auto simp: ob_inv_def)
  then have "mset (ob_chan st) + mset (ob_pending st) = mset new" using assms(2,5) by (simp add: ob_inv_def add.commute)
  then show ?thesis using assms(6) by (metis set_mset_mset set_mset_union UnCI)
qed

lemma event_among:
  assumes "follows r i new s s'" and "ov \<in> set new" and "addressed r i (sub_clientID s) ov"
  shows "\<exists>e \<in> set (sub_queue s'). ev_Name e = ov_name ov \<and> ev_Value e = ov_value ov \<and> ev_Kind e = EventUpdate"
proof -
  obtain evs where "sub_queue s' = sub_queue s @ evs"
      and m: "map event_content evs = map value_content (filter (addressed r i (sub_clientID s)) new)"
    using assms(1) by (auto simp: follows_def)
  moreover have "value_content ov \<in> set (map event_content evs)" unfolding m using assms(2,3) by auto
  then obtain e where "e \<in> set evs" "event_content e = value_content ov" by auto
  ultimately show ?thesis by (intro bexI [of _ e]) (auto simp: event_content_def value_content_def)
qed

section \<open>From the cloud to an app\<close>

text \<open>A variable of a property message, as a value without an origin.\<close>

definition cloud_value :: "SenmlVariable \<Rightarrow> outboundValue" where
  "cloud_value v = \<lparr>ov_name = sv_Name v, ov_value = sv_Value v, ov_ts = sv_Timestamp v, ov_seq = 0, ov_clientID = []\<rparr>"

lemma set_values_follows:
  assumes "wf_registry r" and "listeners_of r = listeners_of r0" and "reg_subs r i = Some s'" and "follows r0 i new s s'"
  shows "\<exists>s''. reg_subs (set_values now vs r) i = Some s'' \<and> follows r0 i (new @ map cloud_value vs) s s''"
  using assms
proof (induction vs arbitrary: r s' new)
  case (Cons v vs)
  let ?r = "SetValue now r (sv_Name v) (sv_Value v) (sv_Timestamp v) []"
  obtain s1 where "reg_subs ?r i = Some s1" "follows r0 i (new @ [cloud_value v]) s s1"
    using follows_SetValue [OF Cons.prems, of now "cloud_value v"] by (auto simp: cloud_value_def)
  from Cons.IH [OF wf_SetValue [OF Cons.prems(1)] _ this] Cons.prems(2) show ?case by simp
qed simp

lemma follows_cloud:
  assumes "follows r i (map cloud_value vs) s s'"
  shows "\<exists>evs. sub_queue s' = sub_queue s @ evs \<and>
    map event_content evs =
      map (\<lambda>v. (sv_Name v, sv_Value v, EventUpdate)) (filter (\<lambda>v. i \<in> set (listeners_of r (sv_Name v))) vs)"
proof -
  have "map value_content (filter (addressed r i c) (map cloud_value vs)) =
      map (\<lambda>v. (sv_Name v, sv_Value v, EventUpdate)) (filter (\<lambda>v. i \<in> set (listeners_of r (sv_Name v))) vs)" for c
    by (induction vs) (auto simp: addressed_def cloud_value_def value_content_def)
  then show ?thesis using assms by (auto simp: follows_def)
qed

end
