(* ===== verification/Startup.thy ===== *)
theory Startup
  imports Daemon Identity Config
begin

text \<open>
  The process around the daemon: \<open>cmd/arduino-cloud-connector/main.go\<close> (configuration, log level,
  commands, signals), \<open>cmd/arduino-cloud-connector/daemon/daemon.go\<close> (start-up, the HTTP server on
  its two listeners, the orderly stop) and \<open>version/version.go\<close>. Start-up is a function; from the
  moment the goroutines run, the process is a step relation that interleaves the main goroutine, the
  daemon FSM, the shutdown watcher, the server of the UNIX socket and the signals. The lemmas show
  who can reach the API, that the process only ends well when the daemon has stopped, and that it
  does stop when it is asked to.
\<close>

section \<open>The log level\<close>

text \<open>
  \<open>slog.Level\<close> is an \<open>int\<close>. \<open>UnmarshalText\<close> splits at the first sign, reads the offset with
  \<open>Atoi\<close> and compares the name in upper case; of the letters outside ASCII only the dotless i
  (bytes C4 B1) has an upper case that occurs in a name.
\<close>

fun upper_name :: "string \<Rightarrow> string" where
  "upper_name [] = []"
| "upper_name [c] = [upper c]"
| "upper_name (c # d # cs) =
     (if c = CHR 0xC4 \<and> d = CHR 0xB1 then CHR ''I'' # upper_name cs else upper c # upper_name (d # cs))"

definition is_sign :: "char \<Rightarrow> bool" where
  "is_sign c \<longleftrightarrow> c = CHR ''+'' \<or> c = CHR ''-''"

definition level_base :: "string \<Rightarrow> int option" where
  "level_base name =
     (if name = ''DEBUG'' then Some (- 4) else if name = ''INFO'' then Some 0
      else if name = ''WARN'' then Some 4 else if name = ''ERROR'' then Some 8 else None)"

definition parseLogLevel :: "string \<Rightarrow> (string, 64 word) result" where
  "parseLogLevel level =
     (let name = takeWhile (\<lambda>c. \<not> is_sign c) level; rest = dropWhile (\<lambda>c. \<not> is_sign c) level
      in case (if rest = [] then Some 0 else Atoi rest) of
           None \<Rightarrow> Inl (''invalid log level '' @ quote level)
         | Some offset \<Rightarrow>
             (case level_base (upper_name name) of
                None \<Rightarrow> Inl (''invalid log level '' @ quote level)
              | Some b \<Rightarrow> Inr (word_of_int b + word_of_int offset)))"

section \<open>The UNIX socket\<close>

text \<open>
  The nodes of the file system by path, with their permission, and all its states. \<open>sk_fail\<close> says
  which system call fails, \<open>sk_created\<close> is the permission the kernel gives a new socket (0777 less
  the umask).
\<close>

definition mode_0660 :: nat where
  "mode_0660 = 432"

record sockfs =
  so_nodes :: "string \<Rightarrow> nat option"
  so_hist :: "(string \<Rightarrow> nat option) list"

datatype sock_call = SkMkdirAll | SkRemove | SkListen | SkChmod

record sockenv =
  sk_fail :: "sock_call \<Rightarrow> bool"
  sk_created :: nat

definition so_commit :: "(string \<Rightarrow> nat option) \<Rightarrow> sockfs \<Rightarrow> sockfs" where
  "so_commit m fs = fs\<lparr>so_nodes := m, so_hist := so_hist fs @ [m]\<rparr>"

definition sock_Remove :: "sockenv \<Rightarrow> string \<Rightarrow> sockfs \<Rightarrow> os_error option \<times> sockfs" where
  "sock_Remove en p fs =
     (if sk_fail en SkRemove then (Some EIO, fs)
      else if so_nodes fs p = None then (Some ErrNotExist, fs)
      else (None, so_commit ((so_nodes fs)(p := None)) fs))"

text \<open>\<open>net.Listen\<close> refuses a path that exists.\<close>

definition sock_Listen :: "sockenv \<Rightarrow> string \<Rightarrow> sockfs \<Rightarrow> os_error option \<times> sockfs" where
  "sock_Listen en p fs =
     (if sk_fail en SkListen then (Some EIO, fs)
      else if so_nodes fs p \<noteq> None then (Some ErrExist, fs)
      else (None, so_commit ((so_nodes fs)(p := Some (sk_created en))) fs))"

definition sock_Chmod :: "sockenv \<Rightarrow> string \<Rightarrow> nat \<Rightarrow> sockfs \<Rightarrow> os_error option \<times> sockfs" where
  "sock_Chmod en p mode fs =
     (if sk_fail en SkChmod then (Some EIO, fs)
      else if so_nodes fs p = None then (Some ErrNotExist, fs)
      else (None, so_commit ((so_nodes fs)(p := Some mode)) fs))"

text \<open>Closing a listener that \<open>net.Listen\<close> made unlinks its socket.\<close>

definition sock_Close :: "string \<Rightarrow> sockfs \<Rightarrow> sockfs" where
  "sock_Close p fs = so_commit ((so_nodes fs)(p := None)) fs"

text \<open>The first component says whether a listener is returned.\<close>

definition newUnixListener :: "sockenv \<Rightarrow> string \<Rightarrow> sockfs \<Rightarrow> bool \<times> sockfs" where
  "newUnixListener en socketPath fs =
     (if socketPath = [] then (False, fs)
      else if sk_fail en SkMkdirAll then (False, fs)
      else case sock_Remove en socketPath fs of (r, fs) \<Rightarrow>
        if r \<noteq> None \<and> r \<noteq> Some ErrNotExist then (False, fs)
        else case sock_Listen en socketPath fs of
               (Some _, fs) \<Rightarrow> (False, fs)
             | (None, fs) \<Rightarrow>
                 (case sock_Chmod en socketPath mode_0660 fs of
                    (Some _, fs) \<Rightarrow> (False, sock_Close socketPath fs)
                  | (None, fs) \<Rightarrow> (True, fs)))"

section \<open>The HTTP server\<close>

text \<open>
  \<open>http.Server\<close> as far as the process uses it: \<open>Shutdown\<close> marks the server and closes the listeners
  it tracks. Its context is already done, so it does not wait for the requests in flight. \<open>Serve\<close>
  returns \<open>ErrServerClosed\<close> on a marked server, and closes its listener whenever it returns.
\<close>

datatype listener = TcpListener string | UnixListener string

record Server =
  sv_Addr :: string
  sv_inShutdown :: bool
  sv_listeners :: "listener list"

definition close_listener :: "listener \<Rightarrow> sockfs \<Rightarrow> sockfs" where
  "close_listener l fs = (case l of TcpListener _ \<Rightarrow> fs | UnixListener p \<Rightarrow> sock_Close p fs)"

definition track :: "listener \<Rightarrow> Server \<Rightarrow> Server" where
  "track l sv = sv\<lparr>sv_listeners := l # sv_listeners sv\<rparr>"

definition untrack :: "listener \<Rightarrow> Server \<Rightarrow> Server" where
  "untrack l sv = sv\<lparr>sv_listeners := removeAll l (sv_listeners sv)\<rparr>"

definition Shutdown :: "Server \<Rightarrow> sockfs \<Rightarrow> Server \<times> sockfs" where
  "Shutdown sv fs = (sv\<lparr>sv_inShutdown := True, sv_listeners := []\<rparr>, fold close_listener (sv_listeners sv) fs)"

section \<open>The process\<close>

datatype run_error = KeystoreError keystore_error | IdentityError uhwid_error | HttpServerError string

text \<open>\<open>Killed\<close>: by the default action of a signal.\<close>

datatype exit_status = ExitOK | ExitError run_error | Killed

text \<open>
  The main goroutine in \<open>run\<close> after the goroutines are started: before \<open>newUnixListener\<close>, in
  \<open>ListenAndServe\<close> before it listens, before it tracks the listener and in its accept loop, then
  waiting for \<open>daemonFSM.Done()\<close>.
\<close>

datatype main_pc = MainUnix | MainListen | MainServe | MainServing | MainWait | MainExited exit_status

datatype unix_pc = UnixNone | UnixServe | UnixServing | UnixEnded

text \<open>
  \<open>pr_ctx\<close>: the root context is cancelled; \<open>pr_intctx\<close>: the one of the interrupt is;
  \<open>pr_catch\<close>: the interrupt is caught; \<open>pr_watching\<close>: the shutdown watcher still waits.
\<close>

record process =
  pr_main :: main_pc
  pr_ctx :: bool
  pr_intctx :: bool
  pr_catch :: bool
  pr_watching :: bool
  pr_unix :: unix_pc
  pr_srv :: Server
  pr_sock :: sockfs
  pr_daemon :: Daemon

definition exited :: "process \<Rightarrow> bool" where
  "exited p \<longleftrightarrow> (\<exists>e. pr_main p = MainExited e)"

definition tcp_addr :: "Config \<Rightarrow> string" where
  "tcp_addr cfg = ''127.0.0.1:'' @ Itoa (cfg_Port cfg)"

text \<open>
  The sequential part of \<open>run\<close>: the process that runs the goroutines, or what \<open>run\<close> returns.
  \<open>mkdir\<close>, \<open>ses\<close> and \<open>ended\<close> are as in the keystore and the identity service; the subsystems are
  wired over the disk the keystore leaves. A stop signal that came before the goroutines run is a first
  step of theirs.
\<close>

definition run ::
  "osenv \<Rightarrow> os_error option \<Rightarrow> (bytes \<Rightarrow> bytes) \<Rightarrow> (nat \<Rightarrow> sysenv) \<Rightarrow> (nat \<Rightarrow> bool) \<Rightarrow> Config \<Rightarrow> sockfs \<Rightarrow> FS \<Rightarrow>
     (run_error option, process) result \<times> FS" where
  "run en mkdir sha256 ses ended cfg sock fs =
     (case New_keystore en mkdir fs of
        (Some e, fs) \<Rightarrow> (Inl (Some (KeystoreError e)), fs)
      | (None, fs) \<Rightarrow>
     (case New_identity sha256 ses ended of
        Inl Interrupted \<Rightarrow> (Inl None, fs)
      | Inl e \<Rightarrow> (Inl (Some (IdentityError e)), fs)
      | Inr idSvc \<Rightarrow>
          (Inr \<lparr>pr_main = MainUnix, pr_ctx = False, pr_intctx = False, pr_catch = True, pr_watching = True,
                pr_unix = UnixNone, pr_srv = \<lparr>sv_Addr = tcp_addr cfg, sv_inShutdown = False, sv_listeners = []\<rparr>,
                pr_sock = sock, pr_daemon = reboot NewRegistry (fs_files fs) []\<rparr>, fs)))"

subsection \<open>The main goroutine\<close>

definition main_unix :: "sockenv \<Rightarrow> string \<Rightarrow> process \<Rightarrow> process" where
  "main_unix en socketPath p =
     (case newUnixListener en socketPath (pr_sock p) of
        (l, fs) \<Rightarrow> p\<lparr>pr_main := MainListen, pr_sock := fs, pr_unix := (if l then UnixServe else UnixNone)\<rparr>)"

text \<open>\<open>listen\<close> is the error of \<open>net.Listen\<close> on the address.\<close>

definition main_listen :: "string option \<Rightarrow> process \<Rightarrow> process" where
  "main_listen listen p =
     (if sv_inShutdown (pr_srv p) then p\<lparr>pr_main := MainWait\<rparr>
      else case listen of
             Some e \<Rightarrow> p\<lparr>pr_main := MainExited (ExitError (HttpServerError e))\<rparr>
           | None \<Rightarrow> p\<lparr>pr_main := MainServe\<rparr>)"

definition main_serve :: "process \<Rightarrow> process" where
  "main_serve p =
     (if sv_inShutdown (pr_srv p) then p\<lparr>pr_main := MainWait\<rparr>
      else p\<lparr>pr_main := MainServing, pr_srv := track (TcpListener (sv_Addr (pr_srv p))) (pr_srv p)\<rparr>)"

text \<open>The accept loop ends with an error: that of a closed listener once the server is marked.\<close>

definition main_accept_error :: "string \<Rightarrow> process \<Rightarrow> process" where
  "main_accept_error e p =
     (if sv_inShutdown (pr_srv p) then p\<lparr>pr_main := MainWait\<rparr>
      else p\<lparr>pr_main := MainExited (ExitError (HttpServerError e))\<rparr>)"

definition main_done :: "process \<Rightarrow> process" where
  "main_done p = p\<lparr>pr_main := MainExited ExitOK\<rparr>"

subsection \<open>The other goroutines\<close>

definition watcher :: "process \<Rightarrow> process" where
  "watcher p =
     (case Shutdown (pr_srv p) (pr_sock p) of
        (sv, fs) \<Rightarrow> p\<lparr>pr_watching := False, pr_srv := sv, pr_sock := fs\<rparr>)"

definition unix_serve :: "string \<Rightarrow> process \<Rightarrow> process" where
  "unix_serve socketPath p =
     (if sv_inShutdown (pr_srv p) then p\<lparr>pr_unix := UnixEnded, pr_sock := sock_Close socketPath (pr_sock p)\<rparr>
      else p\<lparr>pr_unix := UnixServing, pr_srv := track (UnixListener socketPath) (pr_srv p)\<rparr>)"

definition unix_accept_error :: "string \<Rightarrow> process \<Rightarrow> process" where
  "unix_accept_error socketPath p =
     (if sv_inShutdown (pr_srv p) then p\<lparr>pr_unix := UnixEnded\<rparr>
      else p\<lparr>pr_unix := UnixEnded, pr_srv := untrack (UnixListener socketPath) (pr_srv p),
             pr_sock := sock_Close socketPath (pr_sock p)\<rparr>)"

text \<open>
  An interrupt that is caught cancels both contexts, and \<open>context.AfterFunc\<close> then gives the default
  action back; the handler of the termination signal stays until the end.
\<close>

definition signal_interrupt :: "process \<Rightarrow> process" where
  "signal_interrupt p =
     (if pr_catch p then p\<lparr>pr_intctx := True, pr_ctx := True\<rparr> else p\<lparr>pr_main := MainExited Killed\<rparr>)"

definition stopInterrupt :: "process \<Rightarrow> process" where
  "stopInterrupt p = p\<lparr>pr_catch := False\<rparr>"

definition signal_terminate :: "process \<Rightarrow> process" where
  "signal_terminate p = p\<lparr>pr_ctx := True\<rparr>"

datatype app_label =
    MainStep | WatcherStep | UnixStep | SigInt | AfterInt | SigTerm | DaemonStep daemon_label

text \<open>What a step of the daemon sees of the context is the context.\<close>

fun sees_ctx :: "bool \<Rightarrow> daemon_label \<Rightarrow> bool" where
  "sees_ctx ctx (EnterD en) \<longleftrightarrow> dn_cancelled en = ctx"
| "sees_ctx ctx CancelD \<longleftrightarrow> ctx"
| "sees_ctx ctx _ \<longleftrightarrow> True"

inductive app_step ::
  "(f64 \<Rightarrow> int) \<Rightarrow> decoder \<Rightarrow> (denv \<Rightarrow> bool) \<Rightarrow> string \<Rightarrow> process \<Rightarrow> app_label \<Rightarrow> process \<Rightarrow> bool"
  for oob :: "f64 \<Rightarrow> int" and decode :: decoder and ok :: "denv \<Rightarrow> bool" and socketPath :: string where
  app_unix: "pr_main p = MainUnix \<Longrightarrow> app_step oob decode ok socketPath p MainStep (main_unix en socketPath p)"
| app_listen: "pr_main p = MainListen \<Longrightarrow> app_step oob decode ok socketPath p MainStep (main_listen listen p)"
| app_serve: "pr_main p = MainServe \<Longrightarrow> app_step oob decode ok socketPath p MainStep (main_serve p)"
| app_accept: "pr_main p = MainServing \<Longrightarrow> app_step oob decode ok socketPath p MainStep (main_accept_error e p)"
| app_done: "pr_main p = MainWait \<Longrightarrow> d_pc (pr_daemon p) = DaemonReturned \<Longrightarrow>
     app_step oob decode ok socketPath p MainStep (main_done p)"
| app_watch: "\<not> exited p \<Longrightarrow> pr_watching p \<Longrightarrow> pr_ctx p \<Longrightarrow> app_step oob decode ok socketPath p WatcherStep (watcher p)"
| app_unix_serve: "\<not> exited p \<Longrightarrow> pr_unix p = UnixServe \<Longrightarrow>
     app_step oob decode ok socketPath p UnixStep (unix_serve socketPath p)"
| app_unix_accept: "\<not> exited p \<Longrightarrow> pr_unix p = UnixServing \<Longrightarrow>
     app_step oob decode ok socketPath p UnixStep (unix_accept_error socketPath p)"
| app_int: "\<not> exited p \<Longrightarrow> app_step oob decode ok socketPath p SigInt (signal_interrupt p)"
| app_after: "\<not> exited p \<Longrightarrow> pr_intctx p \<Longrightarrow> app_step oob decode ok socketPath p AfterInt (stopInterrupt p)"
| app_term: "\<not> exited p \<Longrightarrow> app_step oob decode ok socketPath p SigTerm (signal_terminate p)"
| app_daemon: "\<not> exited p \<Longrightarrow> daemon_step oob decode ok (pr_daemon p) l d \<Longrightarrow> sees_ctx (pr_ctx p) l \<Longrightarrow>
     app_step oob decode ok socketPath p (DaemonStep l) (p\<lparr>pr_daemon := d\<rparr>)"

definition started :: "Config \<Rightarrow> process \<Rightarrow> bool" where
  "started cfg p \<longleftrightarrow> (\<exists>en mkdir sha256 ses ended sock fs fs'. run en mkdir sha256 ses ended cfg sock fs = (Inr p, fs'))"

section \<open>Commands\<close>

datatype command = DaemonCmd | VersionCmd | HelpCmd

text \<open>
  \<open>parse_args\<close> is the command line parser; the log level is read before a command runs, not for the
  help text, which the library prints. The result is the status the process ends with and the lines
  of the version command, or the running process.
\<close>

datatype main_result = Exits nat "string list" | Serves process

definition main ::
  "(string list \<Rightarrow> (string, command) result) \<Rightarrow> (Config \<Rightarrow> (run_error option, process) result) \<Rightarrow> string \<Rightarrow>
     (string \<Rightarrow> string) \<Rightarrow> string list \<Rightarrow> main_result" where
  "main parse_args run_daemon version getenv args =
     (case NewFromEnv getenv of
        Inl e \<Rightarrow> Exits 1 []
      | Inr cfg \<Rightarrow>
     (case parse_args args of
        Inl e \<Rightarrow> Exits 1 []
      | Inr HelpCmd \<Rightarrow> Exits 0 []
      | Inr cmd \<Rightarrow>
     (case parseLogLevel (cfg_LogLevel cfg) of
        Inl e \<Rightarrow> Exits 1 []
      | Inr level \<Rightarrow>
          if cmd = VersionCmd then Exits 0 [version]
          else (case run_daemon (cfg\<lparr>cfg_Version := version\<rparr>) of
                  Inl None \<Rightarrow> Exits 0 []
                | Inl (Some e) \<Rightarrow> Exits 1 []
                | Inr p \<Rightarrow> Serves p))))"

section \<open>The socket\<close>

lemma newUnixListener_cases:
  assumes "newUnixListener en path fs = (l, fs')"
  shows "if l then path \<noteq> [] \<and> so_nodes fs' = (so_nodes fs)(path := Some mode_0660)
         else so_nodes fs' = so_nodes fs \<or> so_nodes fs' = (so_nodes fs)(path := None)"
  using assms
  by (auto simp: newUnixListener_def sock_Remove_def sock_Listen_def sock_Chmod_def sock_Close_def so_commit_def
      split: if_splits prod.splits option.splits)

lemma close_listener_nodes:
  "so_nodes (fold close_listener ls fs) q = (if UnixListener q \<in> set ls then None else so_nodes fs q)"
proof (induction ls arbitrary: fs)
  case (Cons l ls)
  then show ?case by (cases l) (auto simp: close_listener_def sock_Close_def so_commit_def)
qed simp

section \<open>The stop of the daemon\<close>

definition stopping :: "Daemon \<Rightarrow> bool" where
  "stopping d \<longleftrightarrow> d_pc d = DaemonReturned \<or> d_pc d = StoppingCloud None"

text \<open>Only the context makes the daemon stop.\<close>

lemma stopping_step:
  assumes "daemon_step oob decode ok d l d'" and "stopping d'" and "\<not> stopping d"
  shows "l = CancelD \<or> (\<exists>en. l = EnterD en \<and> dn_cancelled en)"
  using assms
proof (induction rule: daemon_step.induct)
  case (step_enterD en d d')
  then show ?case
    by (auto simp: stopping_def daemon_defs Let_def
        split: daemonStateFn.splits option.splits prod.splits sum.splits if_splits)
qed (auto simp: stopping_def daemon_defs Let_def
    split: daemonStateFn.splits prod.splits option.splits if_splits ProvState.splits)

text \<open>The next step of a daemon whose context is cancelled, and the distance from its end.\<close>

definition stop_daemon :: "(f64 \<Rightarrow> int) \<Rightarrow> denv \<Rightarrow> env \<Rightarrow> Daemon \<Rightarrow> Daemon" where
  "stop_daemon oob en cen d =
     (case daemon_cancel d of
        Some d' \<Rightarrow> d'
      | None \<Rightarrow>
     (case (d_pc d, d_cloud d) of
        (StoppingCloud req, Some f) \<Rightarrow>
          if f_pc f = Finished then Run_stopped en req d else d\<lparr>d_cloud := Some (stop_step oob cen f)\<rparr>
      | _ \<Rightarrow> (case daemon_enter en d of Some d' \<Rightarrow> d' | None \<Rightarrow> d)))"

definition cloud_rank :: "Daemon \<Rightarrow> nat" where
  "cloud_rank d = (case d_cloud d of None \<Rightarrow> 0 | Some f \<Rightarrow> stop_rank (f_pc f))"

fun daemon_rank :: "Daemon \<Rightarrow> nat" where
  "daemon_rank d =
     (case d_pc d of
        DaemonReturned \<Rightarrow> 0
      | WaitInternet _ \<Rightarrow> 1
      | WaitCommand \<Rightarrow> 1
      | runCheckInternet \<Rightarrow> 2
      | StoppingCloud None \<Rightarrow> 1 + cloud_rank d
      | WaitRun \<Rightarrow> 8
      | runRun \<Rightarrow> 9
      | Attempting \<Rightarrow> 10
      | runProvisioning _ \<Rightarrow> 11
      | StoppingCloud (Some _) \<Rightarrow> 12 + cloud_rank d)"

lemma cloud_rank_le: "cloud_rank d \<le> 6"
  by (simp add: cloud_rank_def stop_rank_le split: option.split)

lemma daemon_rank_le: "daemon_rank d \<le> 18"
  using cloud_rank_le [of d] by (simp split: daemonStateFn.split option.split)

lemma stop_daemon_rank:
  assumes "daemon_shape d" and "d_pc d \<noteq> DaemonReturned" and "dn_cancelled en"
  shows "daemon_rank (stop_daemon oob en cen d) < daemon_rank d"
proof (cases "\<exists>req. d_pc d = StoppingCloud req")
  case True
  then obtain req f where pc: "d_pc d = StoppingCloud req" and f: "d_cloud d = Some f"
    using assms(1) by (auto simp: daemon_shape_def)
  show ?thesis
  proof (cases "f_pc f = Finished")
    case True
    then show ?thesis using pc f
      by (cases req) (auto simp: stop_daemon_def daemon_defs cloud_rank_def Let_def split: prod.split)
  next
    case False
    then show ?thesis using pc f stop_step_rank [OF False, of oob cen]
      by (cases req) (auto simp: stop_daemon_def daemon_cancel_def cloud_rank_def)
  qed
next
  case False
  obtain r s' where "RunAttempt (dn_os en) (dn_prov en) (d_svc d) = Some (r, s')" using RunAttempt_total by blast
  moreover have "d_cloud d = None \<or> d_pc d = WaitRun" using assms(1) False by (auto simp: daemon_shape_def)
  ultimately show ?thesis
    using False assms(2,3) cloud_rank_le [of d]
    by (cases "d_pc d")
      (auto simp: stop_daemon_def daemon_defs cloud_rank_def Let_def stop_rank_le
        split: option.split prod.split sum.split)
qed

lemma stop_daemon_step:
  assumes "daemon_shape d" and "d_pc d \<noteq> DaemonReturned" and "dn_cancelled en" and "ok en" and "valid_env cen"
  shows "\<exists>l. daemon_step oob decode ok d l (stop_daemon oob en cen d) \<and> sees_ctx True l"
proof (cases "\<exists>req. d_pc d = StoppingCloud req")
  case True
  then obtain req f where pc: "d_pc d = StoppingCloud req" and f: "d_cloud d = Some f"
    using assms(1) by (auto simp: daemon_shape_def)
  show ?thesis
  proof (cases "f_pc f = Finished")
    case True
    then show ?thesis using pc f step_done [of d req f ok en, OF pc f True assms(4)]
      by (intro exI [of _ "CloudDone en"]) (simp add: stop_daemon_def daemon_cancel_def)
  next
    case False
    obtain l where "daemon_step oob decode ok d (CloudStep l) (d\<lparr>d_cloud := Some (stop_step oob cen f)\<rparr>)"
      using stop_step_is_step [OF pc f assms(5) False] by blast
    then show ?thesis using pc f False by (intro exI [of _ "CloudStep l"]) (simp add: stop_daemon_def daemon_cancel_def)
  qed
next
  case False
  show ?thesis
  proof (cases "daemon_cancel d")
    case None
    obtain r s' where "RunAttempt (dn_os en) (dn_prov en) (d_svc d) = Some (r, s')" using RunAttempt_total by blast
    then have "\<exists>d'. daemon_enter en d = Some d'"
      using False None assms(2)
      by (cases "d_pc d") (auto simp: daemon_enter_def daemon_cancel_def Provisioning_attempt_def split: option.split)
    then obtain d' where d': "daemon_enter en d = Some d'" ..
    then have "stop_daemon oob en cen d = d'"
      using False None by (auto simp: stop_daemon_def split: daemonStateFn.split option.split)
    then show ?thesis using step_enterD [of en d d' ok, OF d' assms(4)] assms(3) by (intro exI [of _ "EnterD en"]) auto
  next
    case (Some d')
    then show ?thesis using step_cancelD by (intro exI [of _ CancelD]) (auto simp: stop_daemon_def)
  qed
qed


section \<open>The process as a transition system\<close>

definition app_inv :: "string \<Rightarrow> string \<Rightarrow> process \<Rightarrow> bool" where
  "app_inv addr path p \<longleftrightarrow>
     daemon_shape (pr_daemon p) \<and>
     (stopping (pr_daemon p) \<longrightarrow> pr_ctx p) \<and>
     (\<not> pr_watching p \<longrightarrow> pr_ctx p) \<and> (sv_inShutdown (pr_srv p) \<longleftrightarrow> \<not> pr_watching p) \<and>
     (sv_inShutdown (pr_srv p) \<longrightarrow> sv_listeners (pr_srv p) = []) \<and>
     sv_Addr (pr_srv p) = addr \<and> set (sv_listeners (pr_srv p)) \<subseteq> {TcpListener addr, UnixListener path} \<and>
     (UnixListener path \<in> set (sv_listeners (pr_srv p)) \<longrightarrow> pr_unix p = UnixServing) \<and>
     (UnixListener path \<in> set (sv_listeners (pr_srv p)) \<or> pr_unix p = UnixServe \<longrightarrow>
        path \<noteq> [] \<and> so_nodes (pr_sock p) path = Some mode_0660) \<and>
     (pr_main p = MainUnix \<longrightarrow> pr_unix p = UnixNone) \<and>
     (pr_main p = MainWait \<longrightarrow> sv_inShutdown (pr_srv p)) \<and>
     (pr_main p = MainExited ExitOK \<longrightarrow> sv_inShutdown (pr_srv p) \<and> d_pc (pr_daemon p) = DaemonReturned) \<and>
     (\<forall>e. pr_main p = MainExited (ExitError e) \<longrightarrow> \<not> sv_inShutdown (pr_srv p) \<and> (\<exists>m. e = HttpServerError m)) \<and>
     (pr_main p = MainExited Killed \<longrightarrow> \<not> pr_catch p) \<and>
     (\<not> pr_catch p \<longrightarrow> pr_intctx p) \<and> (pr_intctx p \<longrightarrow> pr_ctx p)"

lemmas app_defs = main_unix_def main_listen_def main_serve_def main_accept_error_def main_done_def watcher_def
  Shutdown_def unix_serve_def unix_accept_error_def signal_interrupt_def stopInterrupt_def signal_terminate_def
  track_def untrack_def sock_Close_def so_commit_def exited_def

lemma run_started:
  assumes "run en mkdir sha256 ses ended cfg sock fs = (Inr p, fs')"
  shows "New_keystore en mkdir fs = (None, fs') \<and> (\<exists>i. New_identity sha256 ses ended = Inr i) \<and>
    p = \<lparr>pr_main = MainUnix, pr_ctx = False, pr_intctx = False, pr_catch = True, pr_watching = True,
         pr_unix = UnixNone, pr_srv = \<lparr>sv_Addr = tcp_addr cfg, sv_inShutdown = False, sv_listeners = []\<rparr>,
         pr_sock = sock, pr_daemon = reboot NewRegistry (fs_files fs') []\<rparr>"
proof -
  obtain r fs1 where k: "New_keystore en mkdir fs = (r, fs1)" by fastforce
  show ?thesis
  proof (cases "New_identity sha256 ses ended")
    case (Inl e)
    then show ?thesis using assms k by (cases r; cases e) (simp_all add: run_def)
  next
    case (Inr i)
    then show ?thesis using assms k by (cases r) (auto simp: run_def)
  qed
qed

lemma reboot_pc: "d_pc (reboot reg dk act) = runCheckInternet"
  by (simp add: reboot_def New_daemon_def)

lemma started_inv: "started cfg p \<Longrightarrow> app_inv (tcp_addr cfg) path p"
  by (auto simp: started_def app_inv_def reboot_shape stopping_def reboot_pc dest!: run_started)

lemma main_unix_inv: "pr_main p = MainUnix \<Longrightarrow> app_inv addr path p \<Longrightarrow> app_inv addr path (main_unix en path p)"
proof -
  assume m: "pr_main p = MainUnix" and inv: "app_inv addr path p"
  obtain l fs where l: "newUnixListener en path (pr_sock p) = (l, fs)" by fastforce
  from newUnixListener_cases [OF l] show "app_inv addr path (main_unix en path p)"
    using inv m by (cases l) (auto simp: app_inv_def main_unix_def l)
qed

lemma app_step_inv: "app_step oob decode ok path p l p' \<Longrightarrow> app_inv addr path p \<Longrightarrow> app_inv addr path p'"
proof (induction rule: app_step.induct)
  case (app_unix p en)
  then show ?case using main_unix_inv by blast
next
  case (app_watch p)
  then show ?case by (auto simp: app_inv_def app_defs close_listener_nodes)
next
  case (app_daemon p l d)
  have "stopping d \<Longrightarrow> pr_ctx p"
    using stopping_step [OF app_daemon(2)] app_daemon(3,4) by (auto simp: app_inv_def)
  then show ?case using app_daemon step_shape [OF app_daemon(2)] by (auto simp: app_inv_def exited_def)
qed (auto simp: app_inv_def app_defs stopping_def split: option.splits)

interpretation app: invariant_system "started cfg" "app_step oob decode ok path" "app_inv (tcp_addr cfg) path"
  for cfg oob decode ok path
  by unfold_locales (auto intro: started_inv app_step_inv)

section \<open>The orderly stop\<close>

text \<open>The schedule of a stop: the watcher, then the main goroutine to its wait, then the daemon.\<close>

definition stop_app :: "(f64 \<Rightarrow> int) \<Rightarrow> string \<Rightarrow> sockenv \<Rightarrow> denv \<times> env \<Rightarrow> process \<Rightarrow> process" where
  "stop_app oob path sk = (\<lambda>(en, cen) p.
     if pr_watching p then watcher p
     else (case pr_main p of
             MainUnix \<Rightarrow> main_unix sk path p
           | MainListen \<Rightarrow> main_listen None p
           | MainServe \<Rightarrow> main_serve p
           | MainServing \<Rightarrow> main_accept_error ''use of closed network connection'' p
           | MainWait \<Rightarrow>
               if d_pc (pr_daemon p) = DaemonReturned then main_done p
               else p\<lparr>pr_daemon := stop_daemon oob en cen (pr_daemon p)\<rparr>
           | MainExited _ \<Rightarrow> p))"

definition main_rank :: "main_pc \<Rightarrow> nat" where
  "main_rank m = (case m of MainUnix \<Rightarrow> 3 | MainListen \<Rightarrow> 2 | MainServe \<Rightarrow> 2 | MainServing \<Rightarrow> 2 | MainWait \<Rightarrow> 1 | _ \<Rightarrow> 0)"

definition app_rank :: "process \<Rightarrow> nat" where
  "app_rank p =
     (if exited p then 0
      else (if pr_watching p then 1 else 0) + main_rank (pr_main p) + daemon_rank (pr_daemon p))"

lemma stop_app_exited: "app_inv addr path p \<Longrightarrow> pr_main p = MainExited ExitOK \<Longrightarrow> stop_app oob path sk ec p = p"
  by (auto simp: stop_app_def app_inv_def split: prod.split)

text \<open>A step of the schedule is a step of the process, keeps it from failing and brings the end nearer.\<close>

lemma stop_app_step:
  assumes inv: "app_inv addr path p" and ctx: "pr_ctx p" and run: "\<not> exited p"
    and en: "dn_cancelled en" "ok en" "valid_env cen"
  shows "\<exists>l. app_step oob decode ok path p l (stop_app oob path sk (en, cen) p)"
proof (cases "pr_watching p")
  case True
  then show ?thesis using app_watch [OF run True ctx] by (intro exI [of _ WatcherStep]) (simp add: stop_app_def)
next
  case False
  consider "pr_main p \<noteq> MainWait" | "pr_main p = MainWait" "d_pc (pr_daemon p) = DaemonReturned"
    | "pr_main p = MainWait" "d_pc (pr_daemon p) \<noteq> DaemonReturned" by blast
  then show ?thesis
  proof cases
    case 1
    then show ?thesis using False run
      by (cases "pr_main p") (auto simp: stop_app_def exited_def intro: app_unix app_listen app_serve app_accept)
  next
    case 2
    then show ?thesis using False by (auto simp: stop_app_def intro: app_done)
  next
    case 3
    then obtain l where "daemon_step oob decode ok (pr_daemon p) l (stop_daemon oob en cen (pr_daemon p))" "sees_ctx True l"
      using stop_daemon_step [of "pr_daemon p" en ok cen oob decode] en inv by (auto simp: app_inv_def)
    then show ?thesis using 3 False app_daemon [OF run, of oob decode ok l] ctx by (auto simp: stop_app_def)
  qed
qed

lemma stop_app_progress:
  assumes inv: "app_inv addr path p" and run: "\<not> exited p" and en: "dn_cancelled en"
    and p'_def: "p' = stop_app oob path sk (en, cen) p"
  shows "app_rank p' < app_rank p" and "exited p' \<Longrightarrow> pr_main p' = MainExited ExitOK" and "pr_ctx p' = pr_ctx p"
proof -
  have shape: "daemon_shape (pr_daemon p)" using inv by (simp add: app_inv_def)
  have sh: "\<not> pr_watching p \<Longrightarrow> sv_inShutdown (pr_srv p)" using inv by (simp add: app_inv_def)
  show "app_rank p' < app_rank p"
    using run stop_daemon_rank [OF shape _ en, of oob cen] sh
    by (cases "pr_main p")
      (auto simp: p'_def stop_app_def app_rank_def app_defs main_rank_def simp del: daemon_rank.simps split: prod.split)
  show "exited p' \<Longrightarrow> pr_main p' = MainExited ExitOK"
    using run sh by (cases "pr_main p") (auto simp: p'_def stop_app_def app_defs split: prod.splits if_splits)
  show "pr_ctx p' = pr_ctx p"
    by (cases "pr_main p") (auto simp: p'_def stop_app_def app_defs split: prod.split)
qed

lemma stop_run_app:
  assumes "app_inv addr path p" and "pr_ctx p" and "exited p \<Longrightarrow> pr_main p = MainExited ExitOK"
    and "\<forall>(en, cen) \<in> set ens. dn_cancelled en \<and> ok en \<and> valid_env cen" and "app_rank p \<le> length ens"
  shows "pr_main (fold (stop_app oob path sk) ens p) = MainExited ExitOK \<and>
    reach (\<lambda>q. q = p) (app_step oob decode ok path) (fold (stop_app oob path sk) ens p)"
  using assms
proof (induction ens arbitrary: p)
  case Nil
  then show ?case
    by (cases "exited p") (auto simp: app_rank_def main_rank_def exited_def intro: reach_init split: main_pc.splits if_splits)
next
  case (Cons ec ens)
  obtain en cen where ec: "ec = (en, cen)" by fastforce
  show ?case
  proof (cases "exited p")
    case True
    then show ?thesis using Cons.IH [of p] Cons.prems stop_app_exited [OF Cons.prems(1)]
      by (simp add: app_rank_def)
  next
    case False
    define p' where "p' = stop_app oob path sk ec p"
    have en: "dn_cancelled en" "ok en" "valid_env cen" using Cons.prems(4) ec by auto
    obtain l where l: "app_step oob decode ok path p l p'"
      using stop_app_step [of addr path p en ok cen oob decode sk, OF Cons.prems(1,2) False en] by (auto simp: p'_def ec)
    note prog = stop_app_progress [OF Cons.prems(1) False en(1) p'_def [unfolded ec]]
    have IH: "pr_main (fold (stop_app oob path sk) ens p') = MainExited ExitOK \<and>
        reach (\<lambda>q. q = p') (app_step oob decode ok path) (fold (stop_app oob path sk) ens p')"
      using prog Cons.prems app_step_inv [OF l Cons.prems(1)] by (intro Cons.IH) auto
    moreover have "reach (\<lambda>q. q = p') (app_step oob decode ok path) q \<Longrightarrow>
        reach (\<lambda>q. q = p) (app_step oob decode ok path) q" for q
      by (induction rule: reach.induct) (auto intro: reach_step reach_init l)
    ultimately show ?thesis by (auto simp: p'_def)
  qed
qed


section \<open>Properties\<close>

lemma listeners_local:
  assumes "app_inv addr path p" and "l \<in> set (sv_listeners (pr_srv p))"
  shows "l = TcpListener addr \<or> l = UnixListener path \<and> path \<noteq> [] \<and> so_nodes (pr_sock p) path = Some mode_0660"
proof -
  have "set (sv_listeners (pr_srv p)) \<subseteq> {TcpListener addr, UnixListener path}"
    and "UnixListener path \<in> set (sv_listeners (pr_srv p)) \<Longrightarrow> path \<noteq> [] \<and> so_nodes (pr_sock p) path = Some mode_0660"
    using assms(1) unfolding app_inv_def by simp_all
  then show ?thesis using assms(2) by blast
qed

lemma interrupted_ended:
  assumes "New_identity sha256 ses ended = Inl Interrupted"
  shows "\<exists>n < uhwidMaxAttempts. ended n"
proof -
  obtain w where w: "uhwid_loop sha256 ses ended 1 MacUnavailable = (Inl Interrupted, w)"
    using assms by (cases "uhwid_loop sha256 ses ended 1 MacUnavailable")
      (auto simp: New_identity_def computeUHWID_def split: sum.splits)
  have "(1 :: nat) \<le> 1" "1 \<le> uhwidMaxAttempts" by (simp_all add: uhwidMaxAttempts_def)
  from uhwid_loop_result [OF w this] show ?thesis by auto
qed

lemma app_rank_le: "app_rank p \<le> 22"
  using daemon_rank_le [of "pr_daemon p"]
  by (auto simp: app_rank_def main_rank_def simp del: daemon_rank.simps split: main_pc.split)



text \<open>
  C34. The API is served to the host only: every listener of the server is the loopback address with
  the configured port or the configured UNIX socket, and while that one is served its permission is
  0660.
\<close>

theorem api_listens_locally:
  assumes "reach (started cfg) (app_step oob decode ok (cfg_Socket cfg)) p" and "l \<in> set (sv_listeners (pr_srv p))"
  shows "l = TcpListener (''127.0.0.1:'' @ Itoa (cfg_Port cfg)) \<or>
    l = UnixListener (cfg_Socket cfg) \<and> cfg_Socket cfg \<noteq> [] \<and> so_nodes (pr_sock p) (cfg_Socket cfg) = Some mode_0660"
  using listeners_local [OF app.reach_inv [OF assms(1)] assms(2)] unfolding tcp_addr_def .

text \<open>
  Remark. The UNIX listener. It is returned exactly when a path is configured and no system call fails,
  also over the stale socket of an earlier run; then the socket is there with permission 0660, after
  a moment in which it had the one the kernel gave it. When none is returned no socket was left
  behind, and no other node is ever touched.
\<close>

theorem newUnixListener_spec:
  assumes "newUnixListener en path fs = (l, fs')"
  shows "(l \<longleftrightarrow> path \<noteq> [] \<and> (\<forall>c. \<not> sk_fail en c)) \<and>
    (l \<longrightarrow> so_nodes fs' path = Some mode_0660 \<and> (\<exists>h. so_hist fs' = h @
        [(so_nodes fs)(path := Some (sk_created en)), (so_nodes fs)(path := Some mode_0660)])) \<and>
    (\<not> l \<longrightarrow> so_nodes fs' path = None \<or> so_nodes fs' path = so_nodes fs path) \<and>
    (\<forall>q. q \<noteq> path \<longrightarrow> so_nodes fs' q = so_nodes fs q)"
proof -
  have "(\<forall>c. \<not> sk_fail en c) \<longleftrightarrow> \<not> sk_fail en SkMkdirAll \<and> \<not> sk_fail en SkRemove \<and> \<not> sk_fail en SkListen \<and> \<not> sk_fail en SkChmod"
    by (metis sock_call.exhaust)
  then show ?thesis using assms newUnixListener_cases [OF assms]
    by (auto simp: newUnixListener_def sock_Remove_def sock_Listen_def sock_Chmod_def sock_Close_def so_commit_def
        split: if_splits)
qed


subsection \<open>Witnesses\<close>

lemma demo_log_level: "parseLogLevel ''info'' = Inr 0"
  by code_simp

definition demo_sockenv :: sockenv where
  "demo_sockenv = \<lparr>sk_fail = (\<lambda>_. False), sk_created = 493\<rparr>"

text \<open>A socket left behind by an earlier run.\<close>

definition stale_sock :: sockfs where
  "stale_sock = \<lparr>so_nodes = (\<lambda>p. if p = defaultSocket then Some mode_0660 else None), so_hist = []\<rparr>"

lemma calm_keystore: "fst (New_keystore calm None empty_fs) = None"
  by (simp add: New_keystore_def ensureKeyPair_def checkPrivKeyPermissions_def writeFile_def calm_runs empty_fs_def
      file_names mode_0600_def mode_0644_def)

lemma demo_identity: "\<exists>i. New_identity id (\<lambda>_. demo_sys) (\<lambda>_. False) = Inr i"
proof -
  obtain u where "buildUHWID id demo_sys = Inr u" using demo_sys_uhwid by blast
  then show ?thesis by (simp add: New_identity_def computeUHWID_def uhwid_loop.simps uhwidMaxAttempts_def)
qed

lemma demo_started:
  obtains p where "started cfg p" "pr_main p = MainUnix" "\<not> sv_inShutdown (pr_srv p)" "pr_sock p = stale_sock"
    "d_pc (pr_daemon p) = runCheckInternet"
proof -
  obtain fs' where "New_keystore calm None empty_fs = (None, fs')" using calm_keystore by (metis prod.collapse)
  then obtain p where r: "run calm None id (\<lambda>_. demo_sys) (\<lambda>_. False) cfg stale_sock empty_fs = (Inr p, fs')"
    using demo_identity by (auto simp: run_def)
  moreover from r have "started cfg p" unfolding started_def by blast
  ultimately show ?thesis using run_started [OF r] that by (simp add: reboot_pc)
qed

lemma reach_first: "Init s \<Longrightarrow> Step s l t \<Longrightarrow> reach Init Step t"
  using reach_step [of Init Step s l t] reach_init [of Init s Step] by blast

text \<open>The steps of a stop that follows the start at once.\<close>

definition demo_stops :: "(denv \<times> env) list" where
  "demo_stops = replicate 22 (calm_denv\<lparr>dn_cancelled := True\<rparr>, good_env)"

lemma demo_stops_ok: "\<forall>(en, cen) \<in> set demo_stops. dn_cancelled en \<and> no_faults en \<and> valid_env cen"
  by (auto simp: demo_stops_def no_faults_def calm_denv_def calm_def valid_env_def good_env_def)

lemma demo_terminated:
  assumes "started cfg p"
  shows "reach (started cfg) (app_step oob decode ok path) (signal_terminate p)" "pr_ctx (signal_terminate p)"
    "\<not> exited (signal_terminate p)"
proof -
  have "pr_main p = MainUnix" using assms by (auto simp: started_def dest: run_started)
  then show "\<not> exited (signal_terminate p)" "pr_ctx (signal_terminate p)" by (simp_all add: signal_terminate_def exited_def)
  show "reach (started cfg) (app_step oob decode ok path) (signal_terminate p)"
    by (rule reach_first [of _ p]) (fact assms, rule app_term, simp add: exited_def \<open>pr_main p = MainUnix\<close>)
qed



theorem api_listens_locally_witness:
  "\<exists>cfg p. cfg_Socket cfg = defaultSocket \<and> reach (started cfg) (app_step (\<lambda>_. 0) no_decode no_faults (cfg_Socket cfg)) p \<and>
     UnixListener defaultSocket \<in> set (sv_listeners (pr_srv p)) \<and> so_nodes (pr_sock p) defaultSocket = Some mode_0660"
proof -
  obtain cfg :: Config where c: "cfg_Socket cfg = defaultSocket" by (meson Config.select_convs(3))
  obtain p where p: "started cfg p" and pc: "pr_main p = MainUnix" "\<not> sv_inShutdown (pr_srv p)" "pr_sock p = stale_sock"
    by (rule demo_started)
  let ?R = "reach (started cfg) (app_step (\<lambda>_. 0) no_decode no_faults (cfg_Socket cfg))"
  define p1 where "p1 = main_unix demo_sockenv (cfg_Socket cfg) p"
  define p2 where "p2 = unix_serve (cfg_Socket cfg) p1"
  have "fst (newUnixListener demo_sockenv defaultSocket stale_sock)"
    by (simp add: newUnixListener_def demo_sockenv_def sock_Remove_def sock_Listen_def sock_Chmod_def stale_sock_def
        so_commit_def defaultSocket_def)
  then have pc1: "pr_main p1 = MainListen" "pr_unix p1 = UnixServe" "pr_srv p1 = pr_srv p"
    by (auto simp: p1_def main_unix_def pc(3) c split: prod.split)
  have "?R p1" unfolding p1_def by (rule reach_first [of _ p]) (fact p, rule app_unix [OF pc(1)])
  then have r: "?R p2" unfolding p2_def
    by (rule reach_step) (rule app_unix_serve, simp_all add: exited_def pc1)
  have l: "UnixListener defaultSocket \<in> set (sv_listeners (pr_srv p2))"
    using pc pc1 by (simp add: p2_def unix_serve_def track_def c)
  have "so_nodes (pr_sock p2) defaultSocket = Some mode_0660" using api_listens_locally [OF r l] c by simp
  then show ?thesis using l r c by blast
qed

theorem newUnixListener_spec_witness:
  "\<exists>fs'. newUnixListener demo_sockenv defaultSocket stale_sock = (True, fs') \<and> so_nodes fs' defaultSocket = Some mode_0660"
proof -
  obtain l fs' where n: "newUnixListener demo_sockenv defaultSocket stale_sock = (l, fs')" by fastforce
  from newUnixListener_spec [OF n] show ?thesis using n by (auto simp: demo_sockenv_def defaultSocket_def)
qed

end
