(* ===== verification/Mock_Client.thy ===== *)
theory Mock_Client
  imports Api_Client Go_Strings
begin

unbundle bit_operations_syntax

text \<open>
  The test double of the Provisioning API,
  \<open>internal/provisioning-api/provisioningapitest/mock_client.go\<close>, which the tests of the provisioning
  service run against: an in-memory CA, scripted failures of \<open>Complete\<close> and counters. It honours the
  contract of the client, so what is proved of the service over that contract holds over the double;
  and the service outlasts as many scripted failures as its window has room for.
\<close>

section \<open>Identifiers\<close>

text \<open>\<open>rand\<close> is what \<open>rand.Read\<close> writes to the array of 16 bytes, by index, or its error.\<close>

definition uuid_bytes :: "bytes \<Rightarrow> bytes" where
  "uuid_bytes b = b[6 := (b ! 6 AND 0x0F) OR 0x40, 8 := (b ! 8 AND 0x3F) OR 0x80]"

definition slice :: "nat \<Rightarrow> nat \<Rightarrow> 'a list \<Rightarrow> 'a list" where
  "slice i j xs = take (j - i) (drop i xs)"

definition newUUIDv4 :: "(string, nat \<Rightarrow> 8 word) result \<Rightarrow> (string, string) result" where
  "newUUIDv4 rand =
     (case rand of
        Inl e \<Rightarrow> Inl e
      | Inr b \<Rightarrow>
          let h = hex_EncodeToString (uuid_bytes (map b [0..<16]))
          in Inr (slice 0 8 h @ ''-'' @ slice 8 12 h @ ''-'' @ slice 12 16 h @ ''-'' @ slice 16 20 h @ ''-'' @ slice 20 32 h))"

section \<open>The client\<close>

text \<open>The fields of \<open>x509.Certificate\<close> that the templates set.\<close>

record certTemplate =
  tp_SerialNumber :: int
  tp_CommonName :: string
  tp_Organization :: "string list"
  tp_NotBefore :: time
  tp_NotAfter :: time
  tp_IsCA :: bool
  tp_BasicConstraintsValid :: bool
  tp_KeyUsage :: "string list"
  tp_ExtKeyUsage :: "string list"

text \<open>
  The cryptographic library: key generation, \<open>CreateCertificate\<close> for a template, a parent, a public
  key and a signing key, \<open>ParseCertificate\<close>, PEM, the parser of a request (its public key) and the
  check of its signature.
\<close>

record x509env =
  x_genkey :: "(string, string \<times> bytes) result"
  x_create :: "certTemplate \<Rightarrow> bytes option \<Rightarrow> bytes \<Rightarrow> string \<Rightarrow> (string, bytes) result"
  x_parse :: "bytes \<Rightarrow> (string, bytes) result"
  x_pem_decode :: "string \<Rightarrow> bytes option"
  x_pem_encode :: "string \<Rightarrow> bytes \<Rightarrow> string"
  x_parse_csr :: "bytes \<Rightarrow> (string, bytes) result"
  x_check_csr :: "bytes \<Rightarrow> string option"

text \<open>The configuration the code also keeps is never read.\<close>

record mockClient =
  mk_caKey :: string
  mk_caCert :: bytes
  mk_Latency :: duration
  mk_completeFailures :: int
  mk_csrCalls :: nat
  mk_completeCalls :: nat

definition WithLatency :: "duration \<Rightarrow> mockClient \<Rightarrow> mockClient" where
  "WithLatency d m = m\<lparr>mk_Latency := d\<rparr>"

definition WithCompleteFailures :: "int \<Rightarrow> mockClient \<Rightarrow> mockClient" where
  "WithCompleteFailures n m = m\<lparr>mk_completeFailures := n\<rparr>"

text \<open>Two readings of the clock; an error panics.\<close>

definition hour :: duration where
  "hour = 3600 * second"

definition ca_template :: "time \<Rightarrow> time \<Rightarrow> certTemplate" where
  "ca_template now now' =
     \<lparr>tp_SerialNumber = 1, tp_CommonName = ''Arduino Mock CA'', tp_Organization = [], tp_NotBefore = now - hour,
      tp_NotAfter = now' + 365 * 24 * hour, tp_IsCA = True, tp_BasicConstraintsValid = True,
      tp_KeyUsage = [''CertSign'', ''CRLSign''], tp_ExtKeyUsage = []\<rparr>"

definition NewMockClient ::
  "x509env \<Rightarrow> time \<Rightarrow> time \<Rightarrow> (mockClient \<Rightarrow> mockClient) list \<Rightarrow> (string, mockClient) result" where
  "NewMockClient x now now' opts =
     (case x_genkey x of
        Inl e \<Rightarrow> Inl (''mock provisioning: generate CA key: '' @ e)
      | Inr (caKey, caPub) \<Rightarrow>
     (case x_create x (ca_template now now') None caPub caKey of
        Inl e \<Rightarrow> Inl (''mock provisioning: self-sign CA: '' @ e)
      | Inr caDER \<Rightarrow>
     (case x_parse x caDER of
        Inl e \<Rightarrow> Inl (''mock provisioning: parse mock CA: '' @ e)
      | Inr caCert \<Rightarrow>
          Inr (fold (\<lambda>opt m. opt m) opts
            \<lparr>mk_caKey = caKey, mk_caCert = caCert, mk_Latency = 0, mk_completeFailures = 0, mk_csrCalls = 0, mk_completeCalls = 0\<rparr>))))"

definition CSRCalls :: "mockClient \<Rightarrow> nat" where
  "CSRCalls m = mk_csrCalls m"

definition CompleteCalls :: "mockClient \<Rightarrow> nat" where
  "CompleteCalls m = mk_completeCalls m"

text \<open>
  What one call sees: the context's error on entry, the error it ends the wait with (\<open>None\<close>: the
  timer fires), the random bytes and serial, and the clock.
\<close>

record callenv =
  ce_err :: "string option"
  ce_wait :: "string option"
  ce_rand :: "(string, nat \<Rightarrow> 8 word) result"
  ce_serial :: "(string, int) result"
  ce_now :: time
  ce_now' :: time

definition simulateLatency :: "callenv \<Rightarrow> mockClient \<Rightarrow> string option" where
  "simulateLatency ce m = (if mk_Latency m \<le> 0 then ce_err ce else ce_wait ce)"

definition device_template :: "int \<Rightarrow> string \<Rightarrow> time \<Rightarrow> time \<Rightarrow> certTemplate" where
  "device_template serial dev now now' =
     \<lparr>tp_SerialNumber = serial, tp_CommonName = dev, tp_Organization = [''Arduino Mock''], tp_NotBefore = now - hour,
      tp_NotAfter = now' + 365 * 24 * hour, tp_IsCA = False, tp_BasicConstraintsValid = False,
      tp_KeyUsage = [''DigitalSignature''], tp_ExtKeyUsage = [''ClientAuth'']\<rparr>"

definition SubmitCSR_mock ::
  "x509env \<Rightarrow> callenv \<Rightarrow> string \<Rightarrow> string \<Rightarrow> mockClient \<Rightarrow> (string, string \<times> string) result \<times> mockClient" where
  "SubmitCSR_mock x ce token csrPEM m =
     (let m = m\<lparr>mk_csrCalls := mk_csrCalls m + 1\<rparr>
      in (case simulateLatency ce m of
            Some e \<Rightarrow> Inl e
          | None \<Rightarrow>
         (case x_pem_decode x csrPEM of
            None \<Rightarrow> Inl ''mock provisioning: CSR is not valid PEM''
          | Some der \<Rightarrow>
         (case x_parse_csr x der of
            Inl e \<Rightarrow> Inl (''mock provisioning: parse CSR: '' @ e)
          | Inr pub \<Rightarrow>
         (case x_check_csr x der of
            Some e \<Rightarrow> Inl (''mock provisioning: CSR signature invalid: '' @ e)
          | None \<Rightarrow>
         (case newUUIDv4 (ce_rand ce) of
            Inl e \<Rightarrow> Inl (''mock provisioning: generate device_id: '' @ e)
          | Inr dev \<Rightarrow>
         (case ce_serial ce of
            Inl e \<Rightarrow> Inl (''mock provisioning: generate serial: '' @ e)
          | Inr serial \<Rightarrow>
         (case x_create x (device_template serial dev (ce_now ce) (ce_now' ce)) (Some (mk_caCert m)) pub (mk_caKey m) of
            Inl e \<Rightarrow> Inl (''mock provisioning: sign device cert: '' @ e)
          | Inr certDER \<Rightarrow> Inr (dev, x_pem_encode x ''CERTIFICATE'' certDER)))))))
         , m))"

definition Complete_mock :: "callenv \<Rightarrow> string \<Rightarrow> mockClient \<Rightarrow> (string, unit) result \<times> mockClient" where
  "Complete_mock ce token m =
     (let fails = mk_completeFailures m \<noteq> 0;
          m = m\<lparr>mk_completeCalls := mk_completeCalls m + 1,
                mk_completeFailures := (if mk_completeFailures m > 0 then mk_completeFailures m - 1 else mk_completeFailures m)\<rparr>
      in (case simulateLatency ce m of
            Some e \<Rightarrow> Inl e
          | None \<Rightarrow> if fails then Inl ''mock provisioning: complete refused (scripted failure)'' else Inr (), m))"

text \<open>The double as the client of an attempt: its answer to the n-th call comes after n earlier ones.\<close>

fun after_completes :: "(nat \<Rightarrow> callenv) \<Rightarrow> string \<Rightarrow> nat \<Rightarrow> mockClient \<Rightarrow> mockClient" where
  "after_completes ces token 0 m = m"
| "after_completes ces token (Suc n) m = snd (Complete_mock (ces n) token (after_completes ces token n m))"

fun after_submits :: "x509env \<Rightarrow> (nat \<Rightarrow> callenv) \<Rightarrow> string \<Rightarrow> string \<Rightarrow> nat \<Rightarrow> mockClient \<Rightarrow> mockClient" where
  "after_submits x ces token csr 0 m = m"
| "after_submits x ces token csr (Suc n) m = snd (SubmitCSR_mock x (ces n) token csr (after_submits x ces token csr n m))"

definition mock_penv :: "x509env \<Rightarrow> (nat \<Rightarrow> callenv) \<Rightarrow> (nat \<Rightarrow> callenv) \<Rightarrow> mockClient \<Rightarrow> penv \<Rightarrow> penv" where
  "mock_penv x sub com m pe =
     pe\<lparr>pe_submit := (\<lambda>token csr n. fst (SubmitCSR_mock x (sub n) token csr (after_submits x sub token csr n m))),
        pe_complete := (\<lambda>token n. fst (Complete_mock (com n) token (after_completes com token n m)))\<rparr>"


section \<open>Identifiers are version 4 UUIDs\<close>

definition lower_hex :: "char \<Rightarrow> bool" where
  "lower_hex c \<longleftrightarrow> c \<in> set ''0123456789abcdef''"

lemma hex_digit_lower: "n < 16 \<Longrightarrow> lower_hex (hex_digit n)"
proof -
  have "list_all (\<lambda>n. lower_hex (hex_digit n)) [0..<16]" by code_simp
  then show "n < 16 \<Longrightarrow> lower_hex (hex_digit n)" by (simp add: list_all_iff)
qed

lemma nibbles: "unat (w :: 8 word) div 16 < 16" "unat w mod 16 < 16"
  using unsigned_less [of w, where ?'a = nat] by simp_all

lemma hex_EncodeToString_lower: "list_all lower_hex (hex_EncodeToString b)"
  by (induction b) (simp_all add: hex_EncodeToString_def hex_digit_lower nibbles)

lemma hex_EncodeToString_nth:
  "i < length b \<Longrightarrow> hex_EncodeToString b ! (2 * i) = hex_digit (unat (b ! i) div 16)"
proof (induction b arbitrary: i)
  case (Cons w b)
  then show ?case by (cases i) (simp_all add: hex_EncodeToString_def)
qed simp

lemma unat_high_nibble: "unat (w :: 8 word) div 16 = unat (drop_bit 4 w)"
  by (simp add: drop_bit_eq_div unat_div_distrib)

lemma version_nibble: "unat ((w AND 0x0F) OR 0x40 :: 8 word) div 16 = 4"
  by (simp add: unat_high_nibble drop_bit_or drop_bit_and)

lemma variant_sums:
  "unat (0 OR 8 :: 8 word) = 8" "unat (1 OR 8 :: 8 word) = 9" "unat (2 OR 8 :: 8 word) = 10" "unat (3 OR 8 :: 8 word) = 11"
  by simp_all

lemma variant_nibble: "unat ((w AND 0x3F) OR 0x80 :: 8 word) div 16 \<in> {8, 9, 10, 11}"
proof -
  have "drop_bit 4 ((w AND 0x3F) OR 0x80) = (take_bit 2 (drop_bit 4 w)) OR 8"
    by (simp add: drop_bit_or drop_bit_and take_bit_eq_mask mask_eq_exp_minus_1)
  moreover have "take_bit 2 v \<in> {0, 1, 2, 3}" for v :: "8 word"
  proof -
    have "unat (v mod 4) = unat v mod 4" by (simp add: unat_mod_distrib)
    then have "v mod 4 = of_nat (unat v mod 4)" by (metis of_nat_unat ucast_id)
    then have "take_bit 2 v = of_nat (unat v mod 4)" by (simp add: take_bit_eq_mod)
    moreover have "unat v mod 4 = 0 \<or> unat v mod 4 = 1 \<or> unat v mod 4 = 2 \<or> unat v mod 4 = 3" by linarith
    ultimately show ?thesis by auto
  qed
  ultimately show ?thesis unfolding unat_high_nibble by (metis (no_types) insert_iff singletonD variant_sums)
qed

text \<open>
  36 characters, lower-case hexadecimal but for the four dashes in their places, the version digit 4
  and a variant digit of RFC 4122.
\<close>

lemma newUUIDv4_text:
  assumes "newUUIDv4 (Inr rand) = Inr u"
  shows "length u = 36 \<and> (\<forall>i \<in> {8, 13, 18, 23}. u ! i = CHR ''-'') \<and> list_all (\<lambda>c. c = CHR ''-'' \<or> lower_hex c) u \<and>
    u ! 14 = CHR ''4'' \<and> u ! 19 \<in> set ''89ab''"
proof -
  define b where "b = map rand [0..<16]"
  have b: "length b = 16" by (simp add: b_def)
  define h where "h = hex_EncodeToString (uuid_bytes b)"
  have len: "length h = 32" using b by (simp add: h_def uuid_bytes_def)
  have u: "u = slice 0 8 h @ ''-'' @ slice 8 12 h @ ''-'' @ slice 12 16 h @ ''-'' @ slice 16 20 h @ ''-'' @ slice 20 32 h"
    using assms by (simp add: newUUIDv4_def h_def b_def Let_def)
  have "h ! 12 = hex_digit 4" "\<exists>n \<in> set [8, 9, 10, 11]. h ! 16 = hex_digit n"
    using hex_EncodeToString_nth [of 6 "uuid_bytes b"] hex_EncodeToString_nth [of 8 "uuid_bytes b"] b
      version_nibble [of "b ! 6"] variant_nibble [of "b ! 8"]
    by (auto simp: h_def uuid_bytes_def)
  moreover have "u ! 14 = h ! 12" "u ! 19 = h ! 16" using len by (simp_all add: u slice_def nth_append)
  moreover have "hex_digit 4 = CHR ''4''" "list_all (\<lambda>n. hex_digit n \<in> set ''89ab'') [8, 9, 10, 11]" by code_simp+
  ultimately have digits: "u ! 14 = CHR ''4''" "u ! 19 \<in> set ''89ab''" unfolding list_all_iff by metis+
  have "list_all lower_hex h" by (simp add: h_def hex_EncodeToString_lower)
  then have "list_all lower_hex (slice i j h)" for i j by (auto simp: list_all_iff slice_def dest: in_set_takeD in_set_dropD)
  then have "list_all (\<lambda>c. c = CHR ''-'' \<or> lower_hex c) u" by (auto simp: u list_all_iff)
  with digits len show ?thesis by (simp add: u slice_def nth_append)
qed


section \<open>The double honours the contract\<close>

text \<open>The certificate comes from the double's CA, for the device id and the key of the request.\<close>

definition mock_issued :: "x509env \<Rightarrow> mockClient \<Rightarrow> string \<Rightarrow> string \<Rightarrow> string \<Rightarrow> string \<Rightarrow> bool" where
  "mock_issued x m token csr dev pem \<longleftrightarrow>
     (\<exists>b der pub serial now now' cert. newUUIDv4 (Inr b) = Inr dev \<and> x_pem_decode x csr = Some der \<and>
        x_parse_csr x der = Inr pub \<and> x_check_csr x der = None \<and>
        x_create x (device_template serial dev now now') (Some (mk_caCert m)) pub (mk_caKey m) = Inr cert \<and>
        pem = x_pem_encode x ''CERTIFICATE'' cert)"

lemma newUUIDv4_cases: "newUUIDv4 r = Inr u \<Longrightarrow> \<exists>b. r = Inr b \<and> newUUIDv4 (Inr b) = Inr u"
  by (cases r) (simp_all add: newUUIDv4_def)

lemma SubmitCSR_mock_issued:
  assumes "fst (SubmitCSR_mock x ce token csr m) = Inr (dev, pem)"
  shows "mock_issued x m token csr dev pem"
proof -
  note run = assms [unfolded SubmitCSR_mock_def Let_def fst_conv]
  have ready: "simulateLatency ce (m\<lparr>mk_csrCalls := mk_csrCalls m + 1\<rparr>) = None"
    using run by (cases "simulateLatency ce (m\<lparr>mk_csrCalls := mk_csrCalls m + 1\<rparr>)") simp_all
  obtain der where der: "x_pem_decode x csr = Some der" using run ready by (cases "x_pem_decode x csr") simp_all
  obtain pub where pub: "x_parse_csr x der = Inr pub" using run ready der by (cases "x_parse_csr x der") simp_all
  have sig: "x_check_csr x der = None" using run ready der pub by (cases "x_check_csr x der") simp_all
  obtain dev' where dev: "newUUIDv4 (ce_rand ce) = Inr dev'"
    using run ready der pub sig by (cases "newUUIDv4 (ce_rand ce)") simp_all
  obtain serial where ser: "ce_serial ce = Inr serial" using run ready der pub sig dev by (cases "ce_serial ce") simp_all
  let ?t = "device_template serial dev' (ce_now ce) (ce_now' ce)"
  obtain cert where "x_create x ?t (Some (mk_caCert m)) pub (mk_caKey m) = Inr cert"
    using run ready der pub sig dev ser by (cases "x_create x ?t (Some (mk_caCert m)) pub (mk_caKey m)") simp_all
  moreover from this have "dev' = dev" "pem = x_pem_encode x ''CERTIFICATE'' cert"
    using run ready der pub sig dev ser by simp_all
  ultimately show ?thesis unfolding mock_issued_def using der pub sig newUUIDv4_cases [OF dev] by blast
qed

text \<open>The CA never changes, and every call is counted, whatever its outcome.\<close>

lemma SubmitCSR_mock_state:
  "snd (SubmitCSR_mock x ce token csr m) = m\<lparr>mk_csrCalls := mk_csrCalls m + 1\<rparr>"
  by (simp add: SubmitCSR_mock_def Let_def)

lemma after_submits_state: "after_submits x ces token csr n m = m\<lparr>mk_csrCalls := mk_csrCalls m + n\<rparr>"
  by (induction n) (simp_all add: SubmitCSR_mock_state)

lemma after_completes_state:
  "after_completes ces token n m =
     m\<lparr>mk_completeCalls := mk_completeCalls m + n,
       mk_completeFailures := (if mk_completeFailures m < 0 then mk_completeFailures m
                               else max 0 (mk_completeFailures m - int n))\<rparr>"
  by (induction n) (auto simp: Complete_mock_def Let_def)

text \<open>The answer to the n-th call of \<open>Complete\<close>.\<close>

lemma Complete_mock_scripted:
  "fst (Complete_mock (ces n) token (after_completes ces token n m)) =
     (case simulateLatency (ces n) m of
        Some e \<Rightarrow> Inl e
      | None \<Rightarrow> if mk_completeFailures m < 0 \<or> int n < mk_completeFailures m
                then Inl ''mock provisioning: complete refused (scripted failure)'' else Inr ())"
  by (auto simp: after_completes_state Complete_mock_def simulateLatency_def Let_def split: option.split)

interpretation mock: api_client "mock_penv x sub com m pe" "mock_issued x m" "\<lambda>_. 0 \<le> mk_completeFailures m"
  for x sub com m pe
proof
  fix token csr n dev pem
  assume "pe_submit (mock_penv x sub com m pe) token csr n = Inr (dev, pem)"
  then show "mock_issued x m token csr dev pem"
    using SubmitCSR_mock_issued [of x "sub n" token csr "after_submits x sub token csr n m" dev pem]
    by (simp add: mock_penv_def mock_issued_def after_submits_state)
next
  fix token n
  assume "pe_complete (mock_penv x sub com m pe) token n = Inr ()"
  then show "0 \<le> mk_completeFailures m"
    by (auto simp: mock_penv_def Complete_mock_scripted split: option.splits if_splits)
qed


lemma expired_without_cert:
  assumes "\<forall>n. os_fault en n = None"
  shows "fs_files (snd (clearMarker en (snd (WipeCloudCredentials en fs)))) fileDeviceCert = None"
proof -
  obtain fs' where w: "WipeCloudCredentials en fs = (None, fs')" using Wipe_calm [OF assms] by (metis prod.collapse)
  then have "fs_files fs' fileDeviceCert = None" using Wipe_spec(2) by blast
  then show ?thesis
    unfolding w snd_conv
    by (auto simp: clearMarker_def os_Remove_def commit_def tick_def split: prod.splits if_splits option.splits)
qed

section \<open>Properties\<close>

text \<open>
  Remark. Provisioning over the double. When a whole provisioning over it succeeds on a disk without
  faults, the stored device id is a version 4 UUID in its text form, 36 characters as from the real
  API, and the stored certificate was signed by the double's CA for that id and the key of a request
  with a valid signature.
\<close>

theorem mock_provisions:
  assumes "Start en (mock_penv x sub com m pe) now org s = Some (None, s')" and "\<forall>n. os_fault en n = None"
  shows "\<exists>dev der pub serial t t' cert.
    fs_files (svc_fs s') fileDeviceID = Some \<lparr>f_data = Text dev, f_mode = mode_0644\<rparr> \<and>
    length dev = 36 \<and> dev ! 14 = CHR ''4'' \<and> dev ! 19 \<in> set ''89ab'' \<and>
    x_parse_csr x der = Inr pub \<and> x_check_csr x der = None \<and>
    x_create x (device_template serial dev t t') (Some (mk_caCert m)) pub (mk_caKey m) = Inr cert \<and>
    fs_files (svc_fs s') fileDeviceCert =
      Some \<lparr>f_data = Text (x_pem_encode x ''CERTIFICATE'' cert), f_mode = mode_0644\<rparr>"
proof (rule mock.Start_stores_issued [OF assms], goal_cases)
  case (1 token csr dev pem)
  then obtain b der pub ser t t' cert where i: "newUUIDv4 (Inr b) = Inr dev" "x_parse_csr x der = Inr pub"
      "x_check_csr x der = None" "pem = x_pem_encode x ''CERTIFICATE'' cert"
      "x_create x (device_template ser dev t t') (Some (mk_caCert m)) pub (mk_caKey m) = Inr cert"
    unfolding mock_issued_def by blast
  from newUUIDv4_text [OF i(1)] i(2-5) 1(3,4) show ?case by blast
qed

text \<open>
  Remark. How long the service waits for the activation. Over a double scripted to refuse k activations
  (all of them when k is negative), with calls that return at once and waits as long as the
  back-off, the completion of an attempt succeeds exactly when k is at most 23, after k + 1 calls;
  otherwise it gives up after 24 calls, with the window's expiry remembered, and on a disk without
  faults no certificate is left.
\<close>

theorem activation_outlasts_failures:
  assumes "\<forall>n. simulateLatency (com n) m = None"
    and "completePhase en (mock_penv x sub com m pe\<lparr>pe_complete_env := prompt_from t\<rparr>) token (t + provisioningWindow) s =
      Some (r, s')"
  shows "if 0 \<le> mk_completeFailures m \<and> mk_completeFailures m \<le> 23
    then r = None \<and> svc_completes s' = svc_completes s + nat (mk_completeFailures m) + 1
    else (\<exists>e. r = Some (RetryWindowExpired e)) \<and> svc_completeFailed s' = r \<and> svc_completes s' = svc_completes s + 24 \<and>
      ((\<forall>n. os_fault en n = None) \<longrightarrow> fs_files (svc_fs s') fileDeviceCert = None)"
proof -
  let ?k = "mk_completeFailures m"
  let ?api = "\<lambda>n. fst (Complete_mock (com n) token (after_completes com token n m))"
  define k where "k = (if ?k < 0 then 24 else nat ?k)"
  have fails: "\<exists>e. ?api j = Inl e" if "j < k" for j using that assms(1) by (auto simp: Complete_mock_scripted k_def split: if_splits)
  have "?api k = Inr ()" if "k \<le> 23" using that assms(1) by (auto simp: Complete_mock_scripted k_def split: if_splits)
  from retry_loop_exact [of k ?api "()" t, OF fails this] obtain e where
    "completeWithRetry (mock_penv x sub com m pe\<lparr>pe_complete_env := prompt_from t\<rparr>) token (t + provisioningWindow) =
       Some (if k \<le> 23 then (Inr (), Suc k) else (Inl (RetryWindowExpired e), 24))"
    by (auto simp: completeWithRetry_def mock_penv_def prompt_from_def)
  note run = assms(2) [unfolded completePhase_def this]
  show ?thesis
  proof (cases "k \<le> 23")
    case True
    then have "r = None \<and> svc_completes s' = svc_completes s + Suc k" using run by (auto simp: set_fs_def)
    then show ?thesis using True by (auto simp: k_def split: if_splits)
  next
    case False
    then have "r = Some (RetryWindowExpired e) \<and> svc_completeFailed s' = r \<and> svc_completes s' = svc_completes s + 24 \<and>
        svc_fs s' = snd (clearMarker en (snd (WipeCloudCredentials en (svc_fs s))))"
      using run by (auto simp: set_fs_def setCompleteFailure_def Let_def)
    moreover have "\<not> (0 \<le> ?k \<and> ?k \<le> 23)" using False by (auto simp: k_def split: if_splits)
    ultimately show ?thesis using expired_without_cert by auto
  qed
qed

text \<open>A library that signs everything, and a double that refuses two activations.\<close>

definition demo_x509 :: x509env where
  "demo_x509 = \<lparr>x_genkey = Inr (''ca'', [1]), x_create = (\<lambda>_ _ _ _. Inr [2]), x_parse = Inr, x_pem_decode = (\<lambda>_. Some [3]),
     x_pem_encode = (\<lambda>_ _. ''cert''), x_parse_csr = (\<lambda>_. Inr [4]), x_check_csr = (\<lambda>_. None)\<rparr>"

definition demo_call :: "nat \<Rightarrow> callenv" where
  "demo_call n = \<lparr>ce_err = None, ce_wait = None, ce_rand = Inr (\<lambda>i. of_nat i), ce_serial = Inr 7, ce_now = 0, ce_now' = 1\<rparr>"

definition demo_mock :: "int \<Rightarrow> mockClient" where
  "demo_mock k = \<lparr>mk_caKey = ''ca'', mk_caCert = [2], mk_Latency = 0, mk_completeFailures = k, mk_csrCalls = 0, mk_completeCalls = 0\<rparr>"

lemma demo_mock_new: "NewMockClient demo_x509 0 1 [WithLatency 0, WithCompleteFailures k] = Inr (demo_mock k)"
  by (simp add: NewMockClient_def demo_x509_def demo_mock_def WithLatency_def WithCompleteFailures_def)

lemma demo_mock_ready: "simulateLatency (demo_call n) (demo_mock k) = None"
  by (simp add: simulateLatency_def demo_call_def demo_mock_def)

theorem mock_provisions_witness:
  "\<exists>s' dev. Start calm (mock_penv demo_x509 demo_call demo_call (demo_mock 0) api_ok) 0 ''org'' old_board = Some (None, s') \<and>
     fs_files (svc_fs s') fileDeviceID = Some \<lparr>f_data = Text dev, f_mode = mode_0644\<rparr> \<and> length dev = 36"
proof -
  let ?pe = "mock_penv demo_x509 demo_call demo_call (demo_mock 0) api_ok"
  obtain u where "newUUIDv4 (Inr of_nat) = Inr u" by (simp add: newUUIDv4_def Let_def)
  then have "pe_submit ?pe ''token'' ''csr'' 0 = Inr (u, ''cert'')"
    by (simp add: mock_penv_def SubmitCSR_mock_def demo_x509_def demo_call_def demo_mock_def simulateLatency_def Let_def)
  moreover have "pe_complete ?pe ''token'' 0 = Inr ()"
    by (simp add: mock_penv_def Complete_mock_def demo_mock_def simulateLatency_def demo_call_def Let_def)
  ultimately obtain s' where s: "Start calm ?pe 0 ''org'' old_board = Some (None, s')"
    using Start_calm [of ?pe "(u, ''cert'')"] by (auto simp: mock_penv_def api_ok_def)
  have "\<forall>n. os_fault calm n = None" by (simp add: calm_def)
  from mock_provisions [OF s this] s show ?thesis by blast
qed

theorem activation_outlasts_failures_witness:
  "\<exists>s'. completePhase calm (mock_penv demo_x509 demo_call demo_call (demo_mock 2) api_ok\<lparr>pe_complete_env := prompt_from 0\<rparr>)
     ''token'' (0 + provisioningWindow) old_board = Some (None, s') \<and> svc_completes s' = svc_completes old_board + 3"
proof -
  let ?pe = "mock_penv demo_x509 demo_call demo_call (demo_mock 2) api_ok\<lparr>pe_complete_env := prompt_from 0\<rparr>"
  obtain r s' where run: "completePhase calm ?pe ''token'' (0 + provisioningWindow) old_board = Some (r, s')"
    by (metis completePhase_total not_None_eq surj_pair)
  have "\<forall>n. simulateLatency (demo_call n) (demo_mock 2) = None" by (simp add: demo_mock_ready)
  from activation_outlasts_failures [OF this run] run show ?thesis by (simp add: demo_mock_def)
qed
end
