(* ===== verification/Mock_Build.thy ===== *)
theory Mock_Build
  imports Mock_Client Identity Config
begin

text \<open>
  What the \<open>mock\<close> build tag replaces: the hardware id (\<open>internal/identity/uhwid_mock.go\<close>), the check
  of the private keys (\<open>internal/keystore/perm_mock.go\<close>) and the network description
  (\<open>internal/system/netconfig_mock.go\<close>). The id is made up once and kept on disk; the lemmas show that
  it has the shape of a real one and is stable across restarts, also after a write that was cut
  short, and that the keystore differs from the real one only in the check.
\<close>

section \<open>The hardware id\<close>

definition mockUHWIDFile :: string where
  "mockUHWIDFile = ''mock_uhwid''"

definition lower_digit :: "char \<Rightarrow> bool" where
  "lower_digit r \<longleftrightarrow> (let n = (of_char r :: nat) in 48 \<le> n \<and> n \<le> 57 \<or> 97 \<le> n \<and> n \<le> 102)"

text \<open>Every byte of a rune outside ASCII fails the test as the rune does.\<close>

definition isValidUHWID :: "string \<Rightarrow> bool" where
  "isValidUHWID s \<longleftrightarrow> length s = 64 \<and> list_all lower_digit s"

text \<open>
  \<open>os.WriteFile\<close>: the file is created or emptied, then written; a fault of the write leaves a
  prefix. A file that exists keeps its permission.
\<close>

definition os_WriteFile :: "osenv \<Rightarrow> string \<Rightarrow> content \<Rightarrow> nat \<Rightarrow> FS \<Rightarrow> os_error option \<times> FS" where
  "os_WriteFile en p c mode fs =
     (if faulty en fs then (Some EIO, tick fs)
      else os_Write en p c
        (commit ((fs_files fs)(p \<mapsto> \<lparr>f_data = Text [], f_mode = (case fs_files fs p of None \<Rightarrow> mode | Some f \<Rightarrow> f_mode f)\<rparr>))
          (tick fs)))"

datatype mock_uhwid_error = DataDirEmpty | MockRead os_error | MockSeed string | MockMkdir os_error | MockWrite os_error

definition file_text :: "(time \<Rightarrow> string) \<Rightarrow> content \<Rightarrow> string" where
  "file_text fmt c = (case c of Text s \<Rightarrow> s | RFC3339Nano t \<Rightarrow> fmt t)"

text \<open>The disk is the one of the data directory; \<open>rand\<close> is the seed or the error of \<open>rand.Read\<close>.\<close>

definition fresh_uhwid ::
  "osenv \<Rightarrow> (bytes \<Rightarrow> bytes) \<Rightarrow> (string, bytes) result \<Rightarrow> os_error option \<Rightarrow> FS \<Rightarrow> (mock_uhwid_error, string) result \<times> FS" where
  "fresh_uhwid en sha256 rand mkdir fs =
     (case rand of
        Inl e \<Rightarrow> (Inl (MockSeed e), fs)
      | Inr seed \<Rightarrow>
          let uhwid = hex_EncodeToString (sha256 seed)
          in case mkdir of
               Some e \<Rightarrow> (Inl (MockMkdir e), fs)
             | None \<Rightarrow>
                 (case os_WriteFile en mockUHWIDFile (Text (uhwid @ [CHR 0x0A])) mode_0644 fs of
                    (Some e, fs) \<Rightarrow> (Inl (MockWrite e), fs)
                  | (None, fs) \<Rightarrow> (Inr uhwid, fs)))"

definition computeUHWID_mock ::
  "osenv \<Rightarrow> (time \<Rightarrow> string) \<Rightarrow> (bytes \<Rightarrow> bytes) \<Rightarrow> (string, bytes) result \<Rightarrow> os_error option \<Rightarrow> Config \<Rightarrow> FS \<Rightarrow>
     (mock_uhwid_error, string) result \<times> FS" where
  "computeUHWID_mock en fmt sha256 rand mkdir cfg fs =
     (if cfg_DataDir cfg = [] then (Inl DataDirEmpty, fs)
      else case os_ReadFile en mockUHWIDFile fs of
             (Inr data, fs) \<Rightarrow>
               let uhwid = TrimSpace (file_text fmt data)
               in if isValidUHWID uhwid then (Inr uhwid, fs) else fresh_uhwid en sha256 rand mkdir fs
           | (Inl ErrNotExist, fs) \<Rightarrow> fresh_uhwid en sha256 rand mkdir fs
           | (Inl e, fs) \<Rightarrow> (Inl (MockRead e), fs))"

section \<open>The keystore and the network\<close>

definition checkPrivKeyPermissions_mock :: "osenv \<Rightarrow> string \<Rightarrow> FS \<Rightarrow> keystore_error option \<times> FS" where
  "checkPrivKeyPermissions_mock en filename fs = (None, fs)"

text \<open>\<open>keystore.New\<close> as it is linked in a mock build.\<close>

definition New_keystore_mock :: "osenv \<Rightarrow> os_error option \<Rightarrow> FS \<Rightarrow> keystore_error option \<times> FS" where
  "New_keystore_mock en mkdir fs =
     (case mkdir of
        Some e \<Rightarrow> (Some (KsOs [] e), fs)
      | None \<Rightarrow>
     (case ensureKeyPair en fileProvisioningPrivKey fileProvisioningPubKey fs of
        (Some e, fs) \<Rightarrow> (Some e, fs)
      | (None, fs) \<Rightarrow>
     (case ensureKeyPair en fileCloudPrivKey [] fs of
        (Some e, fs) \<Rightarrow> (Some e, fs)
      | (None, fs) \<Rightarrow>
     (case checkPrivKeyPermissions_mock en fileProvisioningPrivKey fs of
        (Some e, fs) \<Rightarrow> (Some e, fs)
      | (None, fs) \<Rightarrow> checkPrivKeyPermissions_mock en fileCloudPrivKey fs))))"

definition NetConfig_mock :: "DeviceNetConfig option" where
  "NetConfig_mock = Some \<lparr>nc_Type = NetworkTypeWiFi, nc_SSID = ''SSIDTEST1'', nc_IP = [], nc_DNS = [], nc_Gateway = [],
     nc_Netmask = []\<rparr>"


section \<open>The id is stable\<close>

lemma hex_valid: "length d = 32 \<Longrightarrow> isValidUHWID (hex_EncodeToString d)"
proof -
  have "lower_digit (hex_digit n)" if "n < 16" for n
    using that by (auto simp: lower_digit_def hex_digit_def Let_def)
  then have "list_all lower_digit (hex_EncodeToString d)"
    by (induction d) (simp_all add: hex_EncodeToString_def nibbles)
  then show "length d = 32 \<Longrightarrow> isValidUHWID (hex_EncodeToString d)" by (simp add: isValidUHWID_def)
qed

lemma valid_TrimSpace:
  assumes "isValidUHWID u"
  shows "TrimSpace (u @ [CHR 0x0A]) = u"
proof -
  have "graphic c" if "lower_digit c" for c
    using that by (auto simp: lower_digit_def graphic_def Let_def)
  moreover have "u \<noteq> []" "\<forall>c \<in> set u. lower_digit c" using assms by (auto simp: isValidUHWID_def list_all_iff)
  ultimately show ?thesis using TrimSpace_line(2) [of u] by simp
qed

lemma fresh_uhwid_stored:
  assumes "fresh_uhwid en sha256 rand mkdir fs = (Inr u, fs')"
  shows "\<exists>seed mode. u = hex_EncodeToString (sha256 seed) \<and>
    fs_files fs' mockUHWIDFile = Some \<lparr>f_data = Text (u @ [CHR 0x0A]), f_mode = mode\<rparr>"
  using assms
  by (auto simp: fresh_uhwid_def os_WriteFile_def os_Write_def faulty_def commit_def tick_def Let_def
      split: sum.splits option.splits prod.splits if_splits)

text \<open>A fault-free read of a stored id.\<close>

lemma computeUHWID_mock_reads:
  assumes "cfg_DataDir cfg \<noteq> []" and "\<not> faulty en fs" and "fs_files fs mockUHWIDFile = Some f"
    and "TrimSpace (file_text fmt (f_data f)) = u" and "isValidUHWID u"
  shows "computeUHWID_mock en fmt sha256 rand mkdir cfg fs = (Inr u, tick fs)"
  using assms by (simp add: computeUHWID_mock_def os_ReadFile_def)

section \<open>Properties\<close>

text \<open>
  Remark. A mock board keeps its identity. When the id is computed it is 64 lower-case hexadecimal
  digits, the shape of a real one, and every later run that can read the data directory computes the
  same id, whatever its randomness; and a run without faults computes one from any state of the
  disk, a write cut short included.
\<close>

theorem mock_uhwid_stable:
  assumes "computeUHWID_mock en fmt sha256 rand mkdir cfg fs = (Inr u, fs')" and "\<forall>b. length (sha256 b) = 32"
  shows "isValidUHWID u \<and>
    (\<forall>en' rand' mkdir'. \<not> faulty en' fs' \<longrightarrow> fst (computeUHWID_mock en' fmt sha256 rand' mkdir' cfg fs') = Inr u) \<and>
    (\<forall>en' seed fs. (\<forall>n. os_fault en' n = None) \<longrightarrow>
       (\<exists>v. fst (computeUHWID_mock en' fmt sha256 (Inr seed) None cfg fs) = Inr v \<and> isValidUHWID v))"
proof -
  have dir: "cfg_DataDir cfg \<noteq> []" using assms(1) by (auto simp: computeUHWID_mock_def)
  have "isValidUHWID u \<and> (\<exists>f. fs_files fs' mockUHWIDFile = Some f \<and> TrimSpace (file_text fmt (f_data f)) = u)"
  proof (cases "\<exists>f. fs_files fs mockUHWIDFile = Some f \<and> TrimSpace (file_text fmt (f_data f)) = u \<and> isValidUHWID u \<and> fs' = tick fs")
    case True
    then show ?thesis by (auto simp: tick_def)
  next
    case False
    then have "\<exists>fs1. fresh_uhwid en sha256 rand mkdir fs1 = (Inr u, fs')"
      using assms(1) by (auto simp: computeUHWID_mock_def os_ReadFile_def Let_def
          split: if_splits sum.splits option.splits os_error.splits)
    then obtain seed mode where "u = hex_EncodeToString (sha256 seed)"
        "fs_files fs' mockUHWIDFile = Some \<lparr>f_data = Text (u @ [CHR 0x0A]), f_mode = mode\<rparr>"
      using fresh_uhwid_stored by blast
    moreover from this have "isValidUHWID u" using assms(2) hex_valid by simp
    ultimately show ?thesis using valid_TrimSpace by (auto simp: file_text_def)
  qed
  moreover have "\<exists>v. fst (computeUHWID_mock en' fmt sha256 (Inr seed) None cfg fs) = Inr v \<and> isValidUHWID v"
    if "\<forall>n. os_fault en' n = None" for en' seed fs
    using that dir assms(2) hex_valid
    by (auto simp: computeUHWID_mock_def fresh_uhwid_def os_ReadFile_def os_WriteFile_def os_Write_def faulty_def Let_def
        split: option.split)
  ultimately show ?thesis using computeUHWID_mock_reads [OF dir] by (metis fst_conv)
qed

theorem mock_uhwid_stable_witness:
  "\<exists>u fs'. computeUHWID_mock calm (\<lambda>_. []) (\<lambda>_. replicate 32 0xAB) (Inr []) None
       \<lparr>cfg_DataDir = ''data'', cfg_Port = 0, cfg_Socket = [], cfg_MQTTBroker = [], cfg_ProvisioningAPI = [],
        cfg_MQTTCAFile = [], cfg_LogLevel = [], cfg_NTPProbeHost = [], cfg_Version = []\<rparr> empty_fs = (Inr u, fs') \<and>
     fst (computeUHWID_mock calm (\<lambda>_. []) (\<lambda>_. replicate 32 0xAB) (Inl ''no entropy'') (Some EIO)
       \<lparr>cfg_DataDir = ''data'', cfg_Port = 0, cfg_Socket = [], cfg_MQTTBroker = [], cfg_ProvisioningAPI = [],
        cfg_MQTTCAFile = [], cfg_LogLevel = [], cfg_NTPProbeHost = [], cfg_Version = []\<rparr> fs') = Inr u"
proof -
  let ?cfg = "\<lparr>cfg_DataDir = ''data'', cfg_Port = 0, cfg_Socket = [], cfg_MQTTBroker = [], cfg_ProvisioningAPI = [],
        cfg_MQTTCAFile = [], cfg_LogLevel = [], cfg_NTPProbeHost = [], cfg_Version = []\<rparr>"
  let ?sha = "\<lambda>_. replicate 32 0xAB" and ?run = "computeUHWID_mock calm (\<lambda>_. [])"
  have "\<exists>u fs'. ?run ?sha (Inr []) None ?cfg empty_fs = (Inr u, fs')"
    by (simp add: computeUHWID_mock_def fresh_uhwid_def os_ReadFile_def os_WriteFile_def os_Write_def faulty_def calm_def
        empty_fs_def Let_def)
  then obtain u fs' where run: "?run ?sha (Inr []) None ?cfg empty_fs = (Inr u, fs')" by blast
  have "fst (?run ?sha (Inl ''no entropy'') (Some EIO) ?cfg fs') = Inr u"
    using mock_uhwid_stable [OF run] by (simp add: faulty_def calm_def)
  with run show ?thesis by blast
qed

text \<open>
  Remark. The keystore of a mock build leaves the same disk as the real one; where it fails, the
  real one fails with the same error, and where it does not, the real one can only object to a
  private key.
\<close>

theorem mock_keystore_agrees:
  assumes "New_keystore en mkdir fs = (r, fs1)" and "New_keystore_mock en mkdir fs = (r', fs2)"
  shows "fs_files fs1 = fs_files fs2 \<and> (r' \<noteq> None \<longrightarrow> r = r') \<and>
    (r \<noteq> r' \<longrightarrow> (\<exists>k \<in> key_files. (\<exists>mode. r = Some (UnsafePermissions k mode)) \<or> (\<exists>e. r = Some (KsOs k e))))"
  using assms
  by (auto simp: New_keystore_def New_keystore_mock_def checkPrivKeyPermissions_def checkPrivKeyPermissions_mock_def
      os_Stat_def tick_def key_files_def split: option.splits prod.splits sum.splits os_error.splits if_splits)

end
