(* ===== verification/Spec2Isabelle.thy ===== *)
theory Spec2Isabelle
  imports Mqtt_Client Provisioning_Client Delivery Startup Mock_Build
begin

text \<open>
  Verification of the Arduino Cloud connector, the daemon under \<open>src/\<close> that connects a Linux board
  to the Arduino IoT Cloud (Go; \<open>cmd/\<close> and \<open>internal/\<close>).

  \<^bold>\<open>The program.\<close> Apps on the board read and write cloud variables over a REST API
  (\<open>internal/api\<close>). A write is queued, put in order and published over MQTT by the outbound worker
  of the daemon (\<open>internal/daemon\<close>), which also runs the top-level state machine: wait for the
  internet, provision the board (\<open>internal/provisioning\<close>, with the HTTP client of
  \<open>internal/provisioning-api\<close> and the keys and files of \<open>internal/keystore\<close>), then run the cloud
  state machine (\<open>internal/daemon/cloud\<close>) over the MQTT client (\<open>internal/mqtt\<close>). Values travel as
  SenML packs (\<open>internal/senml\<close>), commands as tagged CBOR (\<open>internal/mqtt/command\<close>); the variable
  registry (\<open>internal/variables\<close>) keeps the values and streams changes to the apps.

  \<^bold>\<open>The theories.\<close> Each component is one theory, with its state as a record, its operations in the
  order of the code, then its lemmas and the properties.

  \<^item> \<open>Prelude\<close>, \<open>Float64\<close>, \<open>Go_Heap\<close>, \<open>Go_Strings\<close>, \<open>Json\<close>, \<open>Der\<close>, \<open>Pem\<close>: transition systems with the
    invariant rule (locale \<open>invariant_system\<close>), encodings and their chains (locales \<open>codec\<close> and
    \<open>codec_chain\<close>), and the parts of Go's library the components use: IEEE doubles and dynamic
    values, \<open>container/heap\<close> over a strict weak order (a locale, interpreted on the outbound order),
    \<open>strings\<close>, \<open>strconv\<close>, \<open>encoding/hex\<close>, \<open>encoding/json\<close> texts, distinguished encoding and
    \<open>encoding/pem\<close> with strict readers.
  \<^item> \<open>Subscription\<close>, \<open>Variables\<close>: \<open>variables.go\<close>. Streams are FIFO and lose nothing under every
    interleaving of producers, pump and reader; the registry refines an abstract board with one
    event log per subscriber; last values and the exclusion of a write's origin.
  \<^item> \<open>Cbor\<close>: the data items both codecs write, the limits of the CBOR library's decoder, and what is
    relied on of the library (\<open>cbor_library\<close>: an item within the limits decodes to itself). The
    encoding of RFC 8949 with a reader, and its round trip, is the library of the witnesses.
  \<^item> \<open>Senml\<close>, \<open>Senml_Wire\<close>, \<open>Senml_Batch\<close>: \<open>senml/record.go\<close>, \<open>codec.go\<close>. Encoding and decoding of
    packs, the CBOR map of a record, round trip, time stamps.
  \<^item> \<open>Mqtt_Command\<close>: \<open>mqtt/command\<close>. The commands as tagged arrays, the codec and the topics. Over RFC
    8949, this and \<open>Senml_Batch\<close> give the bytes of the golden vectors in the repository's tests.
  \<^item> \<open>Cloud_FSM\<close>, \<open>Cloud_Protocol\<close>: \<open>cloud/fsm.go\<close>. Every state function as an entry part and one
    handler per \<open>select\<close> case; the calls it makes follow the protocol automaton, the published
    snapshot agrees with the machine, entering steady resolves every pending subscriber, bounds of
    the back-offs, time-outs.
  \<^item> \<open>Outbound\<close>: the outbound queue of \<open>daemon.go\<close>. Values leave in the order of their time stamps,
    none is lost or duplicated, the worker drains, and what is published for a property.
  \<^item> \<open>Keystore\<close>: \<open>keystore.go\<close>, \<open>perm.go\<close> over a disk with faults, whose history records every state
    a crash could leave. Atomic replacement, permissions and rotation of keys.
  \<^item> \<open>Certificate\<close>: \<open>compressed_cert.go\<close>. The rebuilt device certificate is the distinguished
    encoding of the X.509 value the response describes, and nothing of the response is lost.
  \<^item> \<open>Config\<close>: \<open>config.go\<close>.
  \<^item> \<open>Provisioning\<close>, \<open>Api_Client\<close>, \<open>Provisioning_Client\<close>, \<open>Mock_Client\<close>: \<open>provisioning.go\<close>, the interface of
    \<open>client.go\<close> (locale \<open>api_client\<close>), its two implementations \<open>client_http.go\<close> and
    \<open>provisioningapitest/mock_client.go\<close>. The prelude is crash safe, an attempt returns within its
    window and outlasts exactly 23 failures, a certificate that was never activated is not taken for
    a working one, and a successful provisioning stores what the client issued: over HTTP, a valid
    certificate.
  \<^item> \<open>Daemon\<close>: the top-level machine of \<open>daemon.go\<close> with crashes in any step: a cloud connection is
    only opened with an activated certificate, credentials do not change under it.
  \<^item> \<open>Mqtt_Client\<close>: \<open>client_paho.go\<close>. At most one open session, dialling, acknowledgements that never
    come.
  \<^item> \<open>Identity\<close>: \<open>internal/system\<close>, \<open>internal/identity\<close>. The hardware id is never computed from part of
    the hardware; network detection; board tokens.
  \<^item> \<open>Origin\<close>, \<open>Event_Stream\<close>, \<open>Rest_Api\<close>: \<open>internal/api\<close>. The exact set of allowed web origins, the
    event streams as a client reads them, and statuses that say what happened.
  \<^item> \<open>Startup\<close>: \<open>cmd/\<close>. Start-up and the exit status of every way through it, the goroutines of the
    running process with its two listeners and the signals: who can reach the API, an exit with
    status 0 only after the daemon has stopped, and that a stop signal leads there.
  \<^item> \<open>Mock_Build\<close>: what the \<open>mock\<close> build tag replaces. The made-up hardware id is stable.
  \<^item> \<open>Delivery\<close> and this theory: the components together. A value put by an app reaches the other
    apps and, property by property, the cloud; values and last values from the cloud reach their
    subscribers, from the bytes of the message to the queue; and a board connects with the
    certificate and under the device id it was provisioned with.

  \<^bold>\<open>Conventions.\<close> Errors are values of a sum type; a panic or a call that does not return is \<open>None\<close>.
  Concurrency is interleaving: an operation is the code that runs under one lock or between two
  \<open>select\<close>s, and the step relations interleave operations, other goroutines and the environment.
  What a step sees of the environment (clock, system calls, answers of the network) is an argument,
  call by call, so the properties hold for every behaviour of it.

  \<^bold>\<open>Termination, bounds and fuel.\<close> The model of the program has no fuel; only the reference readers of
  \<open>Der\<close> and \<open>Cbor\<close> do, twice the length of the input, which their round trips show to be enough.
  The retry loops and the other loops that may run long are \<open>partial_function (option)\<close> or functions
  with a measure, with lemmas that they return: the provisioning loops make at most 24 calls (the sum
  of their back-offs then fills the window), a stopped cloud FSM finishes within six of its steps, a
  stopped process within 22. The sequence numbers of the outbound queue are 64-bit words that wrap;
  the ordering property is stated with the code's own comparison of them.

  \<^bold>\<open>Parameters.\<close> Code that is not in the repository: the CBOR library (between data items and bytes)
  and the MQTT, JWT and path libraries, and of
  Go's own library what is cryptography, networking, the parsing of X.509 requests and of PEM input,
  and the text of floats and times. Where a property needs something of them, it is a hypothesis,
  with a witness.

  \<^bold>\<open>Not modelled.\<close> Logging and the \<open>String\<close> methods that only serve it; accessors that return a
  field; the panics of the \<open>init\<close> functions when the CBOR library refuses its options; the texts of errors, except
  where a status depends on the kind of error; the parsing of the command line by its library; the
  end-to-end test harness under \<open>test/e2e\<close>, which is no part of the daemon; data races within one
  critical section, which Go's memory model excludes.
\<close>

section \<open>Across components\<close>

text \<open>
  Remark. How an app starts: the first event it reads from its stream is \<open>lastvalue\<close> exactly when the
  board has a value for the variable; otherwise it is \<open>lastvalue_missing\<close> when the daemon runs with a
  steady cloud connection, and \<open>thing_unavailable\<close> when it does not, and then the subscription waits
  for the verdict of the cloud.
\<close>

theorem app_first_frame:
  assumes "wf_registry reg" and "events_start header (Snapshot_daemon d) name reg = (first, i, r1)"
    and "one_line_format jf" and "written None (first_json jf name first)"
    and "\<forall>(e, w) \<in> set evts. short_write w (kind_text (ev_Kind e)) (event_json jf e)"
  shows "fst (hd (sse_read (re_body (HandleVariableEvents jf True name first None evts)))) =
      (case value_view (map_of (reg_vars reg)) name of
         Some _ \<Rightarrow> ''lastvalue''
       | None \<Rightarrow> if CloudSteady (Snapshot_daemon d) then ''lastvalue_missing'' else ''thing_unavailable'') \<and>
    (\<exists>s. reg_subs r1 i = Some s \<and> (sub_pending s \<longleftrightarrow>
       value_view (map_of (reg_vars reg)) name = None \<and> \<not> CloudSteady (Snapshot_daemon d)))"
proof -
  have sub: "Subscribe reg name (clientID header) (CloudSteady (Snapshot_daemon d)) = (first, i, r1)"
    using assms(2) by (simp add: events_start_def)
  have kind: "kind_text (ev_Kind first) = (case value_view (map_of (reg_vars reg)) name of
         Some _ \<Rightarrow> ''lastvalue''
       | None \<Rightarrow> if CloudSteady (Snapshot_daemon d) then ''lastvalue_missing'' else ''thing_unavailable'')"
    and pending: "\<exists>s. reg_subs r1 i = Some s \<and> (sub_pending s \<longleftrightarrow>
       value_view (map_of (reg_vars reg)) name = None \<and> \<not> CloudSteady (Snapshot_daemon d))"
    using sub
    by (auto simp: Subscribe_alt Let_def getOrCreate_def value_view_def bare_event_def newSubscription_def kind_text_def
        split: if_splits option.splits)
  obtain ok out where o: "writeSSE None (kind_text (ev_Kind first)) (first_json jf name first) = (ok, out)" by fastforce
  have "short_write None (kind_text (ev_Kind first)) (first_json jf name first)" by (simp add: short_write_def)
  from sse_read_writeSSE [OF first_json_newline [OF assms(3)] this o]
  have "sse_read (re_body (HandleVariableEvents jf True name first None evts)) =
      (kind_text (ev_Kind first), the (first_json jf name first)) # sse_read (events_loop jf evts)"
    using assms(4) by (simp add: HandleVariableEvents_def stream_body_def o)
  then show ?thesis using kind pending by simp
qed

theorem app_first_frame_witness:
  "\<exists>first i r1. events_start (\<lambda>_. []) (Snapshot_daemon (New_daemon NewRegistry old_board)) ''t'' NewRegistry = (first, i, r1) \<and>
     fst (hd (sse_read (re_body (HandleVariableEvents demo_format True ''t'' first None [])))) = ''thing_unavailable''"
proof -
  let ?d = "New_daemon NewRegistry old_board"
  obtain first i r1 where s: "events_start (\<lambda>_. []) (Snapshot_daemon ?d) ''t'' NewRegistry = (first, i, r1)"
    by (metis prod.exhaust)
  have steady: "\<not> CloudSteady (Snapshot_daemon ?d)" by (simp add: Snapshot_daemon_def New_daemon_def CloudSteady_def)
  have none: "value_view (map_of (reg_vars NewRegistry)) ''t'' = None" by (simp add: NewRegistry_def value_view_def)
  have "ev_Kind first \<noteq> EventLastValue"
    using s steady by (auto simp: events_start_def Subscribe_alt Let_def getOrCreate_def NewRegistry_def bare_event_def)
  moreover have "length (name_json ''t'') \<le> maxSSEPayload"
    by (simp add: name_json_def object_def quote_def escape.simps ascii_escape_def maxSSEPayload_def)
  ultimately have "written None (first_json demo_format ''t'' first)"
    by (simp add: written_def first_json_def)
  from app_first_frame [OF wf_NewRegistry s demo_format_one_line this, of "[]"] s steady none show ?thesis by simp
qed




text \<open>A stored credential is read back on a disk without faults, and reading changes no file.\<close>

lemma credential_read:
  assumes "\<forall>n. os_fault en n = None" and "fs_files fs f = Some \<lparr>f_data = c, f_mode = mode\<rparr>"
  shows "\<exists>fs'. read_credential en f fs = (Inr c, fs') \<and> fs_files fs' = fs_files fs"
  using assms by (simp add: read_credential_def os_ReadFile_def faulty_def tick_def)

lemma CloudPrivateKey_files: "fs_files (snd (CloudPrivateKey en fs)) = fs_files fs"
  by (auto simp: CloudPrivateKey_def loadPrivKey_def os_ReadFile_def tick_def split: prod.split sum.split content.split)

text \<open>
  C13. A board connects as what it was provisioned. After a successful provisioning over the HTTP
  client, on a disk without faults, the TLS configuration the MQTT client builds presents a
  certificate that reads as the X.509 value of the provisioned device, in TLS 1.2, and every connect
  opens its session under the device id that is that certificate's subject.
\<close>

theorem provisioned_board_connects:
  assumes "Start en (http_penv he csr_point msg c pe) now organizationID s = Some (None, s')" and "\<forall>n. os_fault en n = None"
    and "fst (buildTLSConfig en te caFile (svc_fs s')) = Inr cfg"
  shows "\<exists>(p :: certParams) pem key. read_certificate pem = Some (cert_value p) \<and> length (deviceID p) = 36 \<and>
    tls_pair te (Text pem) (pem_EncodeToMemory ''EC PRIVATE KEY'' key) = Inr (tc_certificate cfg) \<and>
    tc_MinVersion cfg = VersionTLS12 \<and> tc_MaxVersion cfg = VersionTLS12 \<and>
    (\<forall>out client. PahoNew (pc_fresh client) (deviceID p) \<in> set (pc_calls (fst (snd (Connect_paho en te caFile out (client, svc_fs s'))))))"
proof (rule http.Start_stores_issued [OF assms(1,2)], goal_cases)
  case (1 token csr dev pem)
  obtain p where p: "dev = deviceID p" "length dev = 36" "read_certificate pem = Some (cert_value p)"
    using http_issued_certificate [OF 1(1)] by metis
  let ?fs = "svc_fs s'"
  obtain fs1 where cert: "DeviceCertPEM en ?fs = (Inr (Text pem), fs1)" "fs_files fs1 = fs_files ?fs"
    using credential_read [OF assms(2) 1(4)] by (auto simp: DeviceCertPEM_def)
  obtain r fs2 where key: "CloudPrivateKey en fs1 = (r, fs2)" by fastforce
  then have fs2: "fs_files fs2 = fs_files ?fs" using CloudPrivateKey_files [of en fs1] cert(2) by simp
  obtain k where r: "r = Inr k" using assms(3) by (cases r) (simp_all add: buildTLSConfig_def cert key)
  obtain der where der: "tls_marshal te k = Inr der"
    using assms(3) by (cases "tls_marshal te k") (simp_all add: buildTLSConfig_def cert key r)
  have pair: "tls_pair te (Text pem) (pem_EncodeToMemory ''EC PRIVATE KEY'' der) = Inr (tc_certificate cfg)"
    and tls: "tc_MinVersion cfg = VersionTLS12" "tc_MaxVersion cfg = VersionTLS12"
    and cfg: "buildTLSConfig en te caFile ?fs = (Inr cfg, fs2)"
    using assms(3) by (auto simp: buildTLSConfig_def cert key r der split: sum.splits)
  obtain fs3 where "DeviceID en fs2 = (Inr (Text dev), fs3)"
    using credential_read [OF assms(2), of fs2 fileDeviceID "Text dev" mode_0644] 1(3) fs2 by (auto simp: DeviceID_def)
  then have "PahoNew (pc_fresh client) dev \<in> set (pc_calls (fst (snd (Connect_paho en te caFile out (client, ?fs)))))" for out client
    by (auto simp: Connect_paho_def cfg log_call_def setClient_def Disconnect_paho_def Let_def
        split: connect_outcome.split option.split)
  then show ?case using p pair tls by blast
qed

theorem provisioned_board_connects_witness:
  "\<exists>s' cfg (p :: certParams). Start calm demo_penv 0 ''org'' old_board = Some (None, s') \<and>
     fst (buildTLSConfig calm tls_ok [] (svc_fs s')) = Inr cfg \<and> length (deviceID p) = 36 \<and>
     (\<forall>out client. PahoNew (pc_fresh client) (deviceID p) \<in>
        set (pc_calls (fst (snd (Connect_paho calm tls_ok [] out (client, svc_fs s'))))))"
proof -
  obtain s' where s': "Start calm demo_penv 0 ''org'' old_board = Some (None, s')"
      and key: "fs_files (svc_fs s') fileCloudPrivKey = Some \<lparr>f_data = Text ''priv'', f_mode = mode_0600\<rparr>"
    using demo_Start by blast
  have nf: "\<forall>n. os_fault calm n = None" by (simp add: calm_def)
  obtain pem where "fs_files (svc_fs s') fileDeviceCert = Some \<lparr>f_data = Text pem, f_mode = mode_0644\<rparr>"
    using http.Start_stores_issued [OF s' [unfolded demo_penv_def] nf] by metis
  then have "\<exists>cfg. fst (buildTLSConfig calm tls_ok [] (svc_fs s')) = Inr cfg"
    using key by (simp add: buildTLSConfig_def DeviceCertPEM_def read_credential_def CloudPrivateKey_def loadPrivKey_def
        brokerRootCAs_def tls_ok_def calm_runs tick_def)
  then obtain cfg where cfg: "fst (buildTLSConfig calm tls_ok [] (svc_fs s')) = Inr cfg" ..
  from provisioned_board_connects [OF s' [unfolded demo_penv_def] nf cfg] s' cfg show ?thesis by blast
qed

text \<open>
  C6. A value goes from the cloud to the apps. When the steady cloud FSM receives a property message
  that carries an encoded batch (distinct names, valid texts, exact time stamps, through a CBOR
  library that decodes the items it encoded), it stays steady, and every subscriber is sent one
  update event per variable of the batch that it listens to, with its value, in the order of the
  names.
\<close>

theorem cloud_to_app:
  assumes "cbor_library enc dec" and "Senml.Encode (records_marshal enc) vs = Inr p" and "vs \<noteq> []"
    and "length vs \<le> maxElements" and "\<forall>v \<in> set vs. wire_ok v" and "distinct (map sv_Name vs)"
    and "p \<noteq> []" and "f_pc f = WaitSteady" and "f_events f = evPropertyMessage p # rest"
    and "wf_registry (f_reg f)" and "reg_subs (f_reg f) i = Some s"
  shows "\<exists>f' s' evs. fsm_recv (Senml.Decode oob (records_unmarshal dec other)) en f = Some f' \<and> f_pc f' = WaitSteady \<and>
    reg_subs (f_reg f') i = Some s' \<and> sub_queue s' = sub_queue s @ evs \<and>
    map event_content evs = map (\<lambda>v. (sv_Name v, wire_value (sv_Value v), EventUpdate))
      (filter (\<lambda>v. i \<in> set (listeners_of (f_reg f) (sv_Name v))) (sort_key sv_Name vs))"
proof -
  let ?ws = "map wire_variable (sort_key sv_Name vs)" and ?decode = "Senml.Decode oob (records_unmarshal dec other)"
  have d: "?decode p = Inr ?ws" by (rule Decode_Encode [OF assms(1-5)])
  obtain s' where s': "reg_subs (set_values (env_now en) ?ws (f_reg f)) i = Some s'"
      "follows (f_reg f) i (map cloud_value ?ws) s s'"
    using set_values_follows [OF assms(10) refl assms(11) follows_refl, of "env_now en" ?ws] by auto
  obtain evs where "sub_queue s' = sub_queue s @ evs"
      "map event_content evs = map (\<lambda>v. (sv_Name v, sv_Value v, EventUpdate))
         (filter (\<lambda>v. i \<in> set (listeners_of (f_reg f) (sv_Name v))) ?ws)"
    using follows_cloud [OF s'(2)] by blast
  moreover have "fsm_recv ?decode en f = Some (f\<lparr>f_events := rest, f_reg := set_values (env_now en) ?ws (f_reg f)\<rparr>)"
    by (simp add: fsm_recv_def assms(7-9) Steady_event_def apply_to_def applyProperties_def d)
  ultimately show ?thesis using s'(1) assms(8)
    by (intro exI [of _ "f\<lparr>f_events := rest, f_reg := set_values (env_now en) ?ws (f_reg f)\<rparr>"] exI [of _ s'] exI [of _ evs])
      (simp add: wire_variable_def filter_map comp_def)
qed

definition hue_fsm :: "bytes \<Rightarrow> FSM" where
  "hue_fsm p = (newFSM ''1.0'' ''dev'' (snd (snd (Subscribe NewRegistry ''l:hue'' ''app'' True))))
     \<lparr>f_pc := WaitSteady, f_events := [evPropertyMessage p]\<rparr>"

lemma demo_payload:
  obtains p where "Senml.Encode (records_marshal rfc_enc) demo_vars = Inr p" "p \<noteq> []"
  using Encode_rfc [of demo_vars] demo_vars_ok(1) by (auto simp: demo_vars_def)

theorem cloud_to_app_witness:
  "\<exists>p f' s' evs. Senml.Encode (records_marshal rfc_enc) demo_vars = Inr p \<and>
     fsm_recv (Senml.Decode (\<lambda>_. 0) (records_unmarshal rfc_dec (\<lambda>_. Inr []))) good_env (hue_fsm p) = Some f' \<and>
     reg_subs (f_reg f') 0 = Some s' \<and> sub_queue s' = evs \<and>
     map event_content evs = map (\<lambda>v. (sv_Name v, wire_value (sv_Value v), EventUpdate))
       (filter (\<lambda>v. 0 \<in> set (listeners_of (f_reg (hue_fsm p)) (sv_Name v))) (sort_key sv_Name demo_vars))"
proof -
  obtain p where p: "Senml.Encode (records_marshal rfc_enc) demo_vars = Inr p" "p \<noteq> []" by (rule demo_payload)
  have f: "f_pc (hue_fsm p) = WaitSteady" "f_events (hue_fsm p) = evPropertyMessage p # []" by (simp_all add: hue_fsm_def)
  have r: "wf_registry (f_reg (hue_fsm p))" by (simp add: hue_fsm_def newFSM_def wf_Subscribe)
  have s: "reg_subs (f_reg (hue_fsm p)) 0 = Some (newSubscription ''app'')"
    by (simp add: hue_fsm_def newFSM_def Subscribe_alt Let_def getOrCreate_def NewRegistry_def)
  from cloud_to_app [OF rfc_library p(1) demo_vars_ok p(2) f r s, of "\<lambda>_. 0" "\<lambda>_. Inr []" good_env] p(1)
  show ?thesis by (auto simp: newSubscription_def)
qed

lemma applyProperties_encoded:
  assumes "cbor_library enc dec" and "Senml.Encode (records_marshal enc) vs = Inr p" and "vs \<noteq> [] \<longrightarrow> p \<noteq> []"
    and "length vs \<le> maxElements" and "\<forall>v \<in> set vs. wire_ok v"
  shows "applyProperties (Senml.Decode oob (records_unmarshal dec rest)) now p True r =
    (ApplyLastValues now r (map to_registry (map wire_variable (sort_key sv_Name vs))), None)"
proof (cases "vs = []")
  case True
  then show ?thesis using assms(2) by (simp add: Senml.Encode_def applyProperties_def)
next
  case False
  then show ?thesis
    using Decode_Encode [OF assms(1,2) False assms(4,5), of oob rest] assms(3) by (simp add: applyProperties_def)
qed

lemma verdict_content:
  "map event_content
     (if name \<in> set (map var_Name (map to_registry (map wire_variable (sort_key sv_Name vs))))
      then map (lastvalue_event now) (filter (\<lambda>v. var_Name v = name) (map to_registry (map wire_variable (sort_key sv_Name vs))))
      else if pending then [bare_event name EventLastValueMissing] else []) =
   (if name \<in> set (map sv_Name vs)
    then map (\<lambda>v. (name, wire_value (sv_Value v), EventLastValue)) (filter (\<lambda>v. sv_Name v = name) vs)
    else if pending then [(name, ANil, EventLastValueMissing)] else [])"
proof -
  have reg: "var_Name (to_registry (wire_variable v)) = sv_Name v"
      "event_content (lastvalue_event now (to_registry (wire_variable v))) = (sv_Name v, wire_value (sv_Value v), EventLastValue)" for v
    by (simp_all add: to_registry_def wire_variable_def event_content_def lastvalue_event_def)
  have missing: "event_content (bare_event name EventLastValueMissing) = (name, ANil, EventLastValueMissing)"
    by (simp add: event_content_def bare_event_def)
  show ?thesis
    using sort_key_stable [of sv_Name name vs] by (auto simp: filter_map comp_def reg missing)
qed

text \<open>
  C8. The last values the cloud keeps reach the apps, from the bytes of its command to the queue of
  the subscriber. While the FSM waits for them, a \<open>LastValues.update\<close> command on the command channel,
  carrying an encoded batch (or none), is decoded, takes the machine to the steady state, and leaves
  no subscriber waiting: its queue has grown by the \<open>lastvalue\<close> frame of its variable, with the
  value in the batch, or, when the batch does not name the variable and the subscriber was waiting,
  by the one \<open>lastvalue_missing\<close> frame.
\<close>

theorem last_values_to_app:
  assumes "cbor_library enc dec" and "Senml.Encode (records_marshal enc) vs = Inr p" and "vs \<noteq> [] \<longrightarrow> p \<noteq> []"
    and "length vs \<le> maxElements" and "\<forall>v \<in> set vs. wire_ok v" and "distinct (map sv_Name vs)"
    and "head_range (length p)" and "Encode_cmd (cmd_marshal enc other) (Some (LastValuesUpdateCmd p)) = Inr b"
    and "f_pc f = WaitLastValues n d" and "f_events f = []"
    and "wf_registry (f_reg f)" and "i \<in> set (listeners_of (f_reg f) name)" and "reg_subs (f_reg f) i = Some s"
  shows "\<exists>ev f' s' evs. on_command (Decode_cmd (cmd_unmarshal dec rest)) b = Some ev \<and>
    fsm_recv (Senml.Decode oob (records_unmarshal dec rest')) en (send ev f) = Some f' \<and> f_pc f' = runSteady \<and>
    reg_subs (f_reg f') i = Some s' \<and> \<not> sub_pending s' \<and> sub_queue s' = sub_queue s @ evs \<and>
    map event_content evs =
      (if name \<in> set (map sv_Name vs)
       then map (\<lambda>v. (name, wire_value (sv_Value v), EventLastValue)) (filter (\<lambda>v. sv_Name v = name) vs)
       else if sub_pending s then [(name, ANil, EventLastValueMissing)] else [])"
proof -
  let ?ws = "map wire_variable (sort_key sv_Name vs)" and ?decode = "Senml.Decode oob (records_unmarshal dec rest')"
  have "Decode_cmd (cmd_unmarshal dec rest) b = Inr (Some (LastValuesUpdateCmd p))"
    by (rule Decode_Encode_cmd [OF assms(1) _ _ assms(8)]) (simp_all add: assms(7) registered_def)
  then have ev: "on_command (Decode_cmd (cmd_unmarshal dec rest)) b = Some (evCommandMessage (Some (LastValuesUpdateCmd p)))"
    by (simp add: on_command_def)
  let ?r = "ApplyLastValues (env_now en) (f_reg f) (map to_registry ?ws)"
  have "applyProperties ?decode (env_now en) p True (f_reg f) = (?r, None)"
    by (rule applyProperties_encoded [OF assms(1-5)])
  then have recv: "fsm_recv ?decode en (send (evCommandMessage (Some (LastValuesUpdateCmd p))) f) =
      Some (goto runSteady (f\<lparr>f_events := [], f_reg := ?r\<rparr>))"
    by (simp add: fsm_recv_def send_def assms(9,10) SyncingLastValues_event_def apply_to_def)
  let ?f = "goto runSteady (f\<lparr>f_events := [], f_reg := ?r\<rparr>)"
  have f: "f_pc ?f = runSteady" "f_reg ?f = ?r" by (simp_all add: goto_def)
  obtain s' where "reg_subs (f_reg ?f) i = Some s'" "\<not> sub_pending s'"
      "sub_queue s' = sub_queue s @
        (if name \<in> set (map var_Name (map to_registry ?ws))
         then map (lastvalue_event (env_now en)) (filter (\<lambda>v. var_Name v = name) (map to_registry ?ws))
         else if sub_pending s then [bare_event name EventLastValueMissing] else [])"
    using ApplyLastValues_verdict [OF assms(11-13)] unfolding f(2) by blast
  with ev recv f(1) verdict_content [of name vs "env_now en" "sub_pending s"] show ?thesis by blast
qed

definition temp_vars :: "SenmlVariable list" where
  "temp_vars = [\<lparr>sv_Name = ''temp'', sv_Type = TypeBool, sv_Value = ABool True, sv_Timestamp = zero_time\<rparr>]"

definition temp_payload :: bytes where
  "temp_payload = [0x81, 0xA2, 0x00, 0x64, 0x74, 0x65, 0x6d, 0x70, 0x04, 0xF5]"

lemma temp_encoded: "Senml.Encode (records_marshal rfc_enc) temp_vars = Inr temp_payload"
  by (simp add: temp_vars_def temp_payload_def payload_simps)

theorem last_values_to_app_witness:
  "\<exists>b ev f' s' e. Encode_cmd (cmd_marshal rfc_enc (\<lambda>_. Inl (CborError []))) (Some (LastValuesUpdateCmd temp_payload)) = Inr b \<and>
     on_command (Decode_cmd (cmd_unmarshal rfc_dec (\<lambda>_. Inl (CborError [])))) b = Some ev \<and>
     fsm_recv (Senml.Decode (\<lambda>_. 0) (records_unmarshal rfc_dec (\<lambda>_. Inr []))) good_env (send ev sync_demo) = Some f' \<and>
     reg_subs (f_reg f') 0 = Some s' \<and> \<not> sub_pending s' \<and> map event_content (sub_queue s') = [(''temp'', ABool True, EventLastValue)]"
proof -
  obtain b where b: "Encode_cmd (cmd_marshal rfc_enc (\<lambda>_. Inl (CborError []))) (Some (LastValuesUpdateCmd temp_payload)) = Inr b"
    by (simp add: Encode_cmd_def cmd_marshal_def cmd_tag_def registeredTags_def rfc_enc_def)
  have v: "temp_vars \<noteq> [] \<longrightarrow> temp_payload \<noteq> []" "length temp_vars \<le> maxElements" "\<forall>v \<in> set temp_vars. wire_ok v"
      "distinct (map sv_Name temp_vars)" "head_range (length temp_payload)"
    by (simp_all add: temp_vars_def temp_payload_def wire_ok_def text_ok_def head_range_def exact_time_def maxElements_def utf8_valid_ascii)
  have f: "f_pc sync_demo = WaitLastValues 10 lastValuesRetryInterval" "f_events sync_demo = []" "f_reg sync_demo = pending_demo"
    by (simp_all add: sync_demo_def newFSM_def)
  from last_values_to_app [OF rfc_library temp_encoded v b f(1,2), unfolded f(3), OF pending_demo_facts,
      of "\<lambda>_. Inl (CborError [])" "\<lambda>_. 0" "\<lambda>_. Inr []" good_env] b
  show ?thesis by (auto simp: temp_vars_def newSubscription_def)
qed

text \<open>
  C7. A value goes from the app to the cloud, and a multi-value property goes whole. Right after the
  value \<open>x\<close> was stored under \<open>name\<close>, the payload that is published for it decodes, over a CBOR library
  that decodes the items it encoded, to the property as the board has it: for a plain name that
  variable alone, for an attribute every attribute of the property that has a value, each once and
  with its current value, the new one included. It is published for the thing the cloud assigned.
\<close>

theorem app_to_cloud:
  assumes "cbor_library enc dec" and "wf_registry r" and "\<not> IsZero t" and "r' = SetValue now r name x t c"
    and "publish_request (records_marshal enc) snap r' name x = Inr (thing, payload)"
    and "\<forall>v \<in> set (propertyPacket r' name x). wire_ok v" and "length (propertyPacket r' name x) \<le> maxElements"
  shows "\<exists>vs cl. Senml.Decode oob (records_unmarshal dec rest) payload = Inr vs \<and> distinct (map sv_Name vs) \<and>
    (name, wire_value x) \<in> set (map (\<lambda>v. (sv_Name v, sv_Value v)) vs) \<and>
    (\<forall>n y. (n, y) \<in> set (map (\<lambda>v. (sv_Name v, sv_Value v)) vs) \<longleftrightarrow>
       same_property name n \<and> (\<exists>z u. value_view (map_of (reg_vars r')) n = Some (z, u) \<and> y = wire_value z)) \<and>
    ds_Cloud snap = Some cl \<and> thing = snap_ThingID cl"
proof -
  let ?pk = "propertyPacket r' name x" and ?pair = "\<lambda>v. (sv_Name v, sv_Value v)"
  note pk = packet_exact [OF assms(2,3), where name = name and x = x and now = now and c = c, folded assms(4)]
  have enc: "Senml.Encode (records_marshal enc) ?pk = Inr payload"
    and cl: "\<exists>cl. ds_Cloud snap = Some cl \<and> thing = snap_ThingID cl"
    using assms(5) by (auto simp: publish_request_def split: option.splits if_splits sum.splits)
  have "?pk \<noteq> []" using pk(2) by auto
  from Decode_Encode [OF assms(1) enc this assms(7,6), of oob rest]
  have dec: "Senml.Decode oob (records_unmarshal dec rest) payload = Inr (map wire_variable (sort_key sv_Name ?pk))" .
  have pairs: "(n, y) \<in> set (map ?pair (map wire_variable (sort_key sv_Name ?pk))) \<longleftrightarrow>
      (\<exists>z. (n, z) \<in> set (map ?pair ?pk) \<and> y = wire_value z)" for n y
    by (auto simp: wire_variable_def image_iff)
  have names: "map sv_Name (map wire_variable (sort_key sv_Name ?pk)) = sort (map sv_Name ?pk)"
    by (simp add: wire_variable_def comp_def sort_key_map [of "\<lambda>x. x" sv_Name, simplified])
  have "distinct (map sv_Name (map wire_variable (sort_key sv_Name ?pk)))" unfolding names using pk(1) by simp
  moreover have "(name, wire_value x) \<in> set (map ?pair (map wire_variable (sort_key sv_Name ?pk)))"
    unfolding pairs using pk(2) by blast
  moreover have "(n, y) \<in> set (map ?pair (map wire_variable (sort_key sv_Name ?pk))) \<longleftrightarrow>
      same_property name n \<and> (\<exists>z u. value_view (map_of (reg_vars r')) n = Some (z, u) \<and> y = wire_value z)" for n y
    unfolding pairs pk(3) by blast
  ultimately show ?thesis using dec cl by blast
qed

definition hue_board :: Registry where
  "hue_board = SetValue 5 (SetValue 5 NewRegistry ''l:sat'' (AInt 9) 5 []) ''l:hue'' (AInt 7) 6 []"

lemma hue_packet:
  "propertyPacket hue_board ''l:hue'' (AInt 7) =
     [\<lparr>sv_Name = ''l:hue'', sv_Type = TypeFloat, sv_Value = AInt 7, sv_Timestamp = zero_time\<rparr>,
      \<lparr>sv_Name = ''l:sat'', sv_Type = TypeFloat, sv_Value = AInt 9, sv_Timestamp = zero_time\<rparr>]"
  by code_simp

theorem app_to_cloud_witness:
  "\<exists>thing payload vs. publish_request (records_marshal rfc_enc) steady_snapshot hue_board ''l:hue'' (AInt 7) = Inr (thing, payload) \<and>
     Senml.Decode (\<lambda>_. 0) (records_unmarshal rfc_dec (\<lambda>_. Inr [])) payload = Inr vs \<and>
     (''l:hue'', AInt64 7) \<in> set (map (\<lambda>v. (sv_Name v, sv_Value v)) vs)"
proof -
  obtain thing payload where
    p: "publish_request (records_marshal rfc_enc) steady_snapshot hue_board ''l:hue'' (AInt 7) = Inr (thing, payload)"
    using Encode_rfc [of "propertyPacket hue_board ''l:hue'' (AInt 7)"]
    by (auto simp: publish_request_def steady_snapshot_def hue_packet)
  have ok: "\<forall>v \<in> set (propertyPacket hue_board ''l:hue'' (AInt 7)). wire_ok v"
      "length (propertyPacket hue_board ''l:hue'' (AInt 7)) \<le> maxElements"
    by (simp_all add: hue_packet wire_ok_def text_ok_def head_range_def exact_time_def maxElements_def utf8_valid_ascii)
  have wf: "wf_registry (SetValue 5 NewRegistry ''l:sat'' (AInt 9) 5 [])" by (intro wf_SetValue wf_NewRegistry)
  have "\<not> IsZero 6" by simp
  from app_to_cloud [OF rfc_library wf this hue_board_def p ok, of "\<lambda>_. 0" "\<lambda>_. Inr []"] p show ?thesis by auto
qed

end
